(* ===== verification/Prelude.thy ===== *)
theory Prelude
  imports Complex_Main "HOL-Library.Word" "HOL-Library.Multiset" "HOL-Library.Code_Target_Nat"
begin

text \<open>
  What every component shares: the lemma collections of the development, the machine integers
  of Go (\<open>int\<close> and \<open>int64\<close> are 64-bit two's complement on the platforms the gateway is built
  for), byte strings, and generic facts on lists.
\<close>

subsection \<open>Lemma collections\<close>

named_theorems go_lib \<open>equations of the modelled Go standard library\<close>
named_theorems frame \<open>what an operation leaves unchanged\<close>
named_theorems preserves \<open>an operation keeps a component's invariant\<close>

subsection \<open>Names for the model's types\<close>

type_synonym bytes = string        \<comment> \<open>Go strings and byte slices: 8-bit characters\<close>
type_synonym duration = int        \<comment> \<open>\<open>time.Duration\<close>: nanoseconds\<close>
type_synonym instant = int         \<comment> \<open>\<open>time.Time\<close> where only its order matters: nanoseconds\<close>

abbreviation Microsecond :: duration where "Microsecond \<equiv> 1000"
abbreviation Millisecond :: duration where "Millisecond \<equiv> 1000000"
abbreviation Second :: duration where "Second \<equiv> 1000000000"

subsection \<open>64-bit two's complement\<close>

definition wrap64 :: "int \<Rightarrow> int" where
  "wrap64 x = (x + 2 ^ 63) mod 2 ^ 64 - 2 ^ 63"

definition in_int64 :: "int \<Rightarrow> bool" where
  "in_int64 x \<longleftrightarrow> - (2 ^ 63) \<le> x \<and> x < 2 ^ 63"

lemma wrap64_id [simp]: "in_int64 x \<Longrightarrow> wrap64 x = x"
  by (simp add: in_int64_def wrap64_def)

lemma wrap64_range: "in_int64 (wrap64 x)"
proof -
  have "0 \<le> (x + 2 ^ 63) mod 2 ^ 64" and "(x + 2 ^ 63) mod 2 ^ 64 < 2 ^ 64" by simp_all
  then show ?thesis by (simp add: in_int64_def wrap64_def)
qed

lemma wrap64_cong: "wrap64 x mod 2 ^ 64 = x mod 2 ^ 64"
  by (simp add: wrap64_def mod_diff_left_eq)

subsection \<open>Lists\<close>

lemma sorted_map_filter: "sorted (map f xs) \<Longrightarrow> sorted (map f (filter P xs))"
  by (induction xs) auto

abbreviation max_step :: "('a \<Rightarrow> int) \<Rightarrow> int \<Rightarrow> 'a \<Rightarrow> int" where
  "max_step g \<equiv> \<lambda>m x. if m < g x then g x else m"

lemma foldl_max_base: "m \<le> foldl (max_step g) m xs"
proof (induction xs arbitrary: m)
  case (Cons y ys)
  have "m \<le> max_step g m y" by simp
  also have "\<dots> \<le> foldl (max_step g) (max_step g m y) ys" by (rule Cons.IH)
  finally show ?case by simp
qed simp

lemma foldl_max_mem: "x \<in> set xs \<Longrightarrow> g x \<le> foldl (max_step g) m xs"
proof (induction xs arbitrary: m)
  case (Cons y ys)
  have "g y \<le> foldl (max_step g) (max_step g m y) ys"
    using foldl_max_base [of "max_step g m y" g ys] by (auto split: if_splits)
  with Cons show ?case by auto
qed simp

lemma foldl_max_cases: "foldl (max_step g) m xs = m \<or> (\<exists>x\<in>set xs. foldl (max_step g) m xs = g x)"
proof (induction xs arbitrary: m)
  case (Cons y ys)
  from Cons.IH [of "max_step g m y"] show ?case by (auto split: if_splits)
qed simp

end
