(* ===== verification/Utf8.thy ===== *)
theory Utf8
  imports Go_Strings
begin

text \<open>
  The string side of \<open>encoding/json\<close>: UTF-8 validity as \<open>unicode/utf8\<close> decides it, the encoder
  of string values (with HTML escaping, which \<open>json.Marshal\<close> always applies) and the decoder of
  string tokens. The main fact is that decoding an encoded string gives the string with every
  invalid byte replaced by U+FFFD, hence the string itself when it is valid UTF-8.
\<close>

abbreviation ord :: "char \<Rightarrow> nat" where "ord c \<equiv> of_char c"

definition between :: "nat \<Rightarrow> char \<Rightarrow> nat \<Rightarrow> bool" where
  "between lo c hi \<longleftrightarrow> lo \<le> ord c \<and> ord c \<le> hi"

definition cont :: "char \<Rightarrow> bool" where
  "cont c \<longleftrightarrow> between 0x80 c 0xBF"

text \<open>The length of the well-formed sequence a text starts with, 0 when there is none.\<close>

definition second_ok :: "char \<Rightarrow> char \<Rightarrow> bool" where
  "second_ok a b \<longleftrightarrow>
     between (if ord a = 0xE0 then 0xA0 else if ord a = 0xF0 then 0x90 else 0x80) b
             (if ord a = 0xED then 0x9F else if ord a = 0xF4 then 0x8F else 0xBF)"

definition rune_len :: "bytes \<Rightarrow> nat" where
  "rune_len s =
     (if s = [] then 0
      else if ord (s ! 0) < 0x80 then 1
      else if between 0xC2 (s ! 0) 0xDF then (if 2 \<le> length s \<and> cont (s ! 1) then 2 else 0)
      else if between 0xE0 (s ! 0) 0xEF then
        (if 3 \<le> length s \<and> second_ok (s ! 0) (s ! 1) \<and> cont (s ! 2) then 3 else 0)
      else if between 0xF0 (s ! 0) 0xF4 then
        (if 4 \<le> length s \<and> second_ok (s ! 0) (s ! 1) \<and> cont (s ! 2) \<and> cont (s ! 3) then 4 else 0)
      else 0)"

lemma rune_len_iff:
  "rune_len s = Suc 0 \<longleftrightarrow> s \<noteq> [] \<and> ord (s ! 0) < 0x80"
  "rune_len s = 2 \<longleftrightarrow> 2 \<le> length s \<and> \<not> ord (s ! 0) < 0x80 \<and> between 0xC2 (s ! 0) 0xDF \<and> cont (s ! 1)"
  "rune_len s = 3 \<longleftrightarrow> 3 \<le> length s \<and> \<not> ord (s ! 0) < 0x80 \<and> \<not> between 0xC2 (s ! 0) 0xDF
     \<and> between 0xE0 (s ! 0) 0xEF \<and> second_ok (s ! 0) (s ! 1) \<and> cont (s ! 2)"
  "rune_len s = 4 \<longleftrightarrow> 4 \<le> length s \<and> \<not> ord (s ! 0) < 0x80 \<and> \<not> between 0xC2 (s ! 0) 0xDF
     \<and> \<not> between 0xE0 (s ! 0) 0xEF \<and> between 0xF0 (s ! 0) 0xF4
     \<and> second_ok (s ! 0) (s ! 1) \<and> cont (s ! 2) \<and> cont (s ! 3)"
  by (simp add: rune_len_def; fastforce)+

lemma rune_len_cases: "rune_len s = 0 \<or> rune_len s = Suc 0 \<or> rune_len s = 2 \<or> rune_len s = 3 \<or> rune_len s = 4"
  by (simp add: rune_len_def)

lemma rune_len_le: "rune_len s \<le> length s"
  by (cases s) (auto simp: rune_len_def)

lemma rune_len_prefix:
  assumes nz: "rune_len s \<noteq> 0" and eq: "take (rune_len s) t = take (rune_len s) s"
  shows "rune_len t = rune_len s"
proof -
  let ?n = "rune_len s"
  have nth: "i < ?n \<Longrightarrow> t ! i = s ! i" for i
    using arg_cong [OF eq, of "\<lambda>l. l ! i"] by simp
  have len: "?n \<le> length t"
    using arg_cong [OF eq, of length] rune_len_le [of s] by simp
  show ?thesis
    using rune_len_cases [of s] nz len nth [of 0] nth [of 1] nth [of 2] nth [of 3]
    by (elim disjE) (simp_all add: rune_len_iff, auto simp: rune_len_def)
qed

lemma rune_len_take_append [simp]:
  assumes "rune_len s \<noteq> 0"
  shows "rune_len (take (rune_len s) s @ r) = rune_len s"
  using assms rune_len_le [of s] by (intro rune_len_prefix) simp_all

lemma rune_len_nonempty: "0 < rune_len s \<Longrightarrow> s \<noteq> []"
  by (auto simp: rune_len_def)

definition replacement :: bytes where
  "replacement = [CHR 0xEF, CHR 0xBF, CHR 0xBD]"

function to_valid :: "bytes \<Rightarrow> bytes" where
  "to_valid s =
     (if s = [] then []
      else if rune_len s = 0 then replacement @ to_valid (tl s)
      else take (rune_len s) s @ to_valid (drop (rune_len s) s))"
  by pat_completeness auto
termination
  by (relation "measure length") auto

declare to_valid.simps [simp del]

function valid_utf8 :: "bytes \<Rightarrow> bool" where
  "valid_utf8 s =
     (if s = [] then True
      else if rune_len s = 0 then False
      else valid_utf8 (drop (rune_len s) s))"
  by pat_completeness auto
termination
  by (relation "measure length") auto

declare valid_utf8.simps [simp del]

lemma to_valid_id: "valid_utf8 s \<Longrightarrow> to_valid s = s"
proof (induction s rule: valid_utf8.induct)
  case (1 s)
  show ?case
  proof (cases "s = []")
    case True
    then show ?thesis by (simp add: to_valid.simps)
  next
    case False
    with "1.prems" have nz: "rune_len s \<noteq> 0" and v: "valid_utf8 (drop (rune_len s) s)"
      by (auto simp: valid_utf8.simps [of s] split: if_splits)
    from "1.IH" [OF False nz v] False nz show ?thesis
      by (simp add: to_valid.simps [of s])
  qed
qed

subsection \<open>Hexadecimal\<close>

definition hex_char :: "nat \<Rightarrow> char" where
  "hex_char d = (if d < 10 then char_of (48 + d) else char_of (87 + d))"

definition hex_val :: "char \<Rightarrow> nat option" where
  "hex_val c =
     (if between 48 c 57 then Some (ord c - 48)
      else if between 97 c 102 then Some (ord c - 87)
      else if between 65 c 70 then Some (ord c - 55)
      else None)"

lemma hex_val_hex_char [simp]: "d < 16 \<Longrightarrow> hex_val (hex_char d) = Some d"
  by (auto simp: hex_val_def hex_char_def between_def)

definition is_hex :: "char \<Rightarrow> bool" where
  "is_hex c \<longleftrightarrow> hex_val c \<noteq> None"

definition u4 :: "char \<Rightarrow> char \<Rightarrow> char \<Rightarrow> char \<Rightarrow> nat" where
  "u4 a b c d = ((the (hex_val a) * 16 + the (hex_val b)) * 16 + the (hex_val c)) * 16
                 + the (hex_val d)"

text \<open>\<open>utf8.AppendRune\<close> for code points of the basic plane and beyond.\<close>

definition encode_rune :: "nat \<Rightarrow> bytes" where
  "encode_rune n =
     (if n < 0x80 then [char_of n]
      else if n < 0x800 then [char_of (0xC0 + n div 64), char_of (0x80 + n mod 64)]
      else if n < 0x10000 then
        [char_of (0xE0 + n div 4096), char_of (0x80 + n div 64 mod 64), char_of (0x80 + n mod 64)]
      else
        [char_of (0xF0 + n div 262144), char_of (0x80 + n div 4096 mod 64),
         char_of (0x80 + n div 64 mod 64), char_of (0x80 + n mod 64)])"

subsection \<open>Encoding a string value\<close>

definition BS :: char where "BS = CHR 92"
definition DQ :: char where "DQ = CHR 34"

definition u_escape :: "nat \<Rightarrow> bytes" where
  "u_escape n = [BS, CHR ''u'', hex_char (n div 4096 mod 16), hex_char (n div 256 mod 16),
                 hex_char (n div 16 mod 16), hex_char (n mod 16)]"

definition esc_ascii :: "char \<Rightarrow> bytes" where
  "esc_ascii c =
     (if c = DQ \<or> c = BS then [BS, c]
      else if ord c = 10 then [BS, CHR ''n'']
      else if ord c = 13 then [BS, CHR ''r'']
      else if ord c = 9 then [BS, CHR ''t'']
      else if ord c < 32 \<or> c \<in> set ''<>&'' then u_escape (ord c)
      else [c])"

definition is_2028_9 :: "bytes \<Rightarrow> bool" where
  "is_2028_9 s \<longleftrightarrow>
     length s \<ge> 3 \<and> s ! 0 = CHR 0xE2 \<and> s ! 1 = CHR 0x80 \<and> (s ! 2 = CHR 0xA8 \<or> s ! 2 = CHR 0xA9)"

function quote_body :: "bytes \<Rightarrow> bytes" where
  "quote_body s =
     (if s = [] then []
      else if ord (hd s) < 0x80 then esc_ascii (hd s) @ quote_body (tl s)
      else if rune_len s = 0 then u_escape 0xFFFD @ quote_body (tl s)
      else if is_2028_9 s then u_escape (if s ! 2 = CHR 0xA8 then 0x2028 else 0x2029) @ quote_body (drop 3 s)
      else take (rune_len s) s @ quote_body (drop (rune_len s) s))"
  by pat_completeness auto
termination
  by (relation "measure length") (auto simp: is_2028_9_def)

declare quote_body.simps [simp del]

subsection \<open>Decoding a string token\<close>

definition simple_escape :: "char \<Rightarrow> char option" where
  "simple_escape e =
     (if e = DQ \<or> e = BS \<or> e = CHR ''/'' then Some e
      else if e = CHR ''b'' then Some (CHR 8)
      else if e = CHR ''f'' then Some (CHR 12)
      else if e = CHR ''n'' then Some (CHR 10)
      else if e = CHR ''r'' then Some (CHR 13)
      else if e = CHR ''t'' then Some (CHR 9)
      else None)"

definition surrogate :: "nat \<Rightarrow> bool" where
  "surrogate n \<longleftrightarrow> 0xD800 \<le> n \<and> n < 0xE000"

text \<open>The low half that must follow a high surrogate, and what is left after it.\<close>

definition low_half :: "bytes \<Rightarrow> (nat \<times> bytes) option" where
  "low_half s =
     (case s of
        x # y # a # b # c # d # r \<Rightarrow>
          if x = BS \<and> y = CHR ''u'' \<and> is_hex a \<and> is_hex b \<and> is_hex c \<and> is_hex d
             \<and> 0xDC00 \<le> u4 a b c d \<and> u4 a b c d < 0xE000
          then Some (u4 a b c d, r) else None
      | _ \<Rightarrow> None)"

definition decode_u :: "nat \<Rightarrow> bytes \<Rightarrow> bytes \<times> bytes" where
  "decode_u n r =
     (if surrogate n then
        (case (if n < 0xDC00 then low_half r else None) of
           Some (m, r') \<Rightarrow> (encode_rune (0x10000 + (n - 0xD800) * 1024 + (m - 0xDC00)), r')
         | None \<Rightarrow> (replacement, r))
      else (encode_rune n, r))"

lemma decode_u_shorter: "length (snd (decode_u n r)) \<le> length r"
  by (auto simp: decode_u_def low_half_def split: list.splits if_splits)

function unquote :: "bytes \<Rightarrow> bytes" where
  "unquote s =
     (case s of
        [] \<Rightarrow> []
      | c # r \<Rightarrow>
          if c = BS then
            (case r of
               [] \<Rightarrow> []
             | e # r1 \<Rightarrow>
                 (case simple_escape e of
                    Some x \<Rightarrow> x # unquote r1
                  | None \<Rightarrow>
                      (case r1 of
                         a # b # c' # d # r2 \<Rightarrow>
                           fst (decode_u (u4 a b c' d) r2) @ unquote (snd (decode_u (u4 a b c' d) r2))
                       | _ \<Rightarrow> [])))
          else if rune_len s = 0 then replacement @ unquote r
          else take (rune_len s) s @ unquote (drop (rune_len s) s))"
  by pat_completeness auto
termination
  by (relation "measure length")
    (auto simp: less_Suc_eq_le intro: le_trans [OF decode_u_shorter])

declare unquote.simps [simp del]

subsection \<open>Decoding inverts encoding\<close>

lemma unquote_Nil [simp]: "unquote [] = []"
  by (simp add: unquote.simps)

lemma unquote_escape: "simple_escape e = Some x \<Longrightarrow> unquote (BS # e # r) = x # unquote r"
  by (simp add: unquote.simps [of "BS # e # r"])

lemma unquote_hex4:
  "simple_escape e = None \<Longrightarrow> \<not> surrogate (u4 a b c d) \<Longrightarrow>
    unquote (BS # e # a # b # c # d # r) = encode_rune (u4 a b c d) @ unquote r"
  by (simp add: unquote.simps [of "BS # e # a # b # c # d # r"] decode_u_def)

lemma hex4_sum:
  fixes n :: nat
  shows "16 * a + d0 = n \<Longrightarrow> 16 * b + d1 = a \<Longrightarrow> 16 * c + d2 = b \<Longrightarrow>
    ((c * 16 + d2) * 16 + d1) * 16 + d0 = n"
  by (simp add: mult.commute)

lemma unquote_u_escape:
  assumes "n < 65536" and "\<not> surrogate n"
  shows "unquote (u_escape n @ r) = encode_rune n @ unquote r"
proof -
  have "n div 4096 < 16" using assms(1) by simp
  then have top: "n div 4096 mod 16 = n div 4096" by simp
  have split: "n div 256 = n div 16 div 16" "n div 4096 = n div 256 div 16"
    by (simp_all flip: div_mult2_eq)
  have "16 * (x div 16) + x mod 16 = x" for x :: nat by simp
  from this [of n] this [of "n div 16"] this [of "n div 256"]
  have "((n div 4096 * 16 + n div 256 mod 16) * 16 + n div 16 mod 16) * 16 + n mod 16 = n"
    unfolding split by (rule hex4_sum)
  then have "u4 (hex_char (n div 4096 mod 16)) (hex_char (n div 256 mod 16))
      (hex_char (n div 16 mod 16)) (hex_char (n mod 16)) = n"
    using \<open>n div 4096 < 16\<close> by (simp add: u4_def top)
  moreover have "simple_escape (CHR ''u'') = None"
    by (simp add: simple_escape_def BS_def DQ_def)
  ultimately show ?thesis using assms(2)
    by (simp add: u_escape_def unquote_hex4)
qed

lemma unquote_ascii: "c \<noteq> BS \<Longrightarrow> ord c < 128 \<Longrightarrow> unquote (c # r) = c # unquote r"
  by (simp add: unquote.simps [of "c # r"] rune_len_def)

lemma unquote_rune:
  assumes "rune_len s \<noteq> 0" and "hd s \<noteq> BS"
  shows "unquote (take (rune_len s) s @ r) = take (rune_len s) s @ unquote r"
proof -
  have "s \<noteq> []" using assms(1) by (simp add: rune_len_nonempty)
  then obtain c u where cu: "s = c # u" by (cases s) auto
  obtain k where "rune_len s = Suc k" using assms(1) by (cases "rune_len s") auto
  with cu have s: "take (rune_len s) s = c # take k u" and "hd s = c" by simp_all
  let ?t = "take k u"
  have len: "length (c # ?t) = rune_len s" using s rune_len_le [of s] by (metis length_take min.absorb2)
  have "rune_len (c # ?t @ r) = rune_len s"
    using rune_len_take_append [OF assms(1), of r] s by simp
  then have "unquote (c # ?t @ r) =
      take (rune_len s) (c # ?t @ r) @ unquote (drop (rune_len s) (c # ?t @ r))"
    using assms \<open>hd s = c\<close> by (subst unquote.simps) simp
  also have "\<dots> = (c # ?t) @ unquote r"
    unfolding len [symmetric] by (metis append_Cons append_eq_conv_conj)
  finally show ?thesis using s by simp
qed

lemma unquote_esc_ascii:
  assumes "ord c < 128"
  shows "unquote (esc_ascii c @ r) = c # unquote r"
proof -
  consider "c = DQ \<or> c = BS" | "ord c \<in> {10, 13, 9}"
    | "c \<noteq> DQ" "c \<noteq> BS" "ord c \<notin> {10, 13, 9}" "ord c < 32 \<or> c \<in> set ''<>&''"
    | "c \<noteq> DQ" "c \<noteq> BS" "ord c \<notin> {10, 13, 9}" "\<not> (ord c < 32 \<or> c \<in> set ''<>&'')"
    by blast
  then show ?thesis
  proof cases
    case 1
    then show ?thesis by (auto simp: esc_ascii_def simple_escape_def intro!: unquote_escape)
  next
    case 2
    then have "c = CHR 10 \<or> c = CHR 13 \<or> c = CHR 9"
      by (auto dest!: arg_cong [of "of_char c" _ "char_of :: nat \<Rightarrow> char"] simp: char_of_eq_iff)
    moreover have "simple_escape (CHR ''n'') = Some (CHR 10)" "simple_escape (CHR ''r'') = Some (CHR 13)"
      "simple_escape (CHR ''t'') = Some (CHR 9)" by (simp_all add: simple_escape_def BS_def DQ_def)
    moreover have "c \<noteq> DQ" "c \<noteq> BS" using 2 by (auto simp: BS_def DQ_def)
    ultimately show ?thesis
      by (elim disjE) (simp_all add: esc_ascii_def unquote_escape)
  next
    case 3
    then show ?thesis using assms
      by (simp add: esc_ascii_def unquote_u_escape surrogate_def encode_rune_def)
  next
    case 4
    then show ?thesis using assms by (simp add: esc_ascii_def unquote_ascii)
  qed
qed

lemma encode_rune_2028: "encode_rune 0x2028 = [CHR 0xE2, CHR 0x80, CHR 0xA8]"
  and encode_rune_2029: "encode_rune 0x2029 = [CHR 0xE2, CHR 0x80, CHR 0xA9]"
  and encode_rune_FFFD: "encode_rune 0xFFFD = replacement"
  by (simp_all add: encode_rune_def replacement_def char_of_eq_iff)

theorem unquote_quote_body: "unquote (quote_body s) = to_valid s"
proof (induction s rule: quote_body.induct)
  case (1 s)
  consider "s = []" | "s \<noteq> []" "ord (hd s) < 128" | "s \<noteq> []" "\<not> ord (hd s) < 128" "rune_len s = 0"
    | "s \<noteq> []" "\<not> ord (hd s) < 128" "rune_len s \<noteq> 0" "is_2028_9 s"
    | "s \<noteq> []" "\<not> ord (hd s) < 128" "rune_len s \<noteq> 0" "\<not> is_2028_9 s" by blast
  then show ?case
  proof cases
    case 1
    then show ?thesis by (simp add: quote_body.simps to_valid.simps)
  next
    case 2
    then have "rune_len s = Suc 0" by (simp add: rune_len_iff hd_conv_nth)
    moreover obtain a l where "s = a # l" using 2 by (cases s) auto
    ultimately have "to_valid s = hd s # to_valid (tl s)"
      by (simp add: to_valid.simps [of "a # l"])
    with 2 "1.IH"(1) show ?thesis
      by (simp add: quote_body.simps [of s] unquote_esc_ascii)
  next
    case 3
    with "1.IH"(2) show ?thesis
      by (simp add: quote_body.simps [of s] to_valid.simps [of s] unquote_u_escape
                    surrogate_def encode_rune_FFFD)
  next
    case 4
    then obtain a b c r where s: "s = a # b # c # r"
      by (cases s; cases "tl s"; cases "tl (tl s)") (auto simp: is_2028_9_def)
    have "rune_len s = 3" using 4
      by (auto simp: s rune_len_def is_2028_9_def between_def cont_def second_ok_def)
    then have "to_valid s = take 3 s @ to_valid (drop 3 s)"
      using 4 by (simp add: to_valid.simps [of s])
    moreover have "take 3 s = (if s ! 2 = CHR 0xA8 then encode_rune 0x2028 else encode_rune 0x2029)"
      using 4 by (auto simp: s is_2028_9_def encode_rune_2028 encode_rune_2029)
    ultimately show ?thesis using 4 "1.IH"(3)
      by (simp add: quote_body.simps [of s] unquote_u_escape surrogate_def)
  next
    case 5
    then have "hd s \<noteq> BS" by (auto simp: BS_def)
    with 5 "1.IH"(4) show ?thesis
      by (simp add: quote_body.simps [of s] to_valid.simps [of s] unquote_rune)
  qed
qed

corollary unquote_quote_valid: "valid_utf8 s \<Longrightarrow> unquote (quote_body s) = s"
  by (simp add: unquote_quote_body to_valid_id)

end
