(* ===== verification/Json.thy ===== *)
theory Json
  imports Utf8
begin

text \<open>
  \<open>encoding/json\<close> as the gateway uses it. A JSON text is read into a tree that keeps string and
  number tokens as they stand in the text, so that \<open>compact\<close> (what \<open>json.Marshal\<close> does with a
  \<open>json.RawMessage\<close>) is printing the tree again, with the HTML-sensitive characters escaped.
  The reader follows Go's scanner: blanks, literals, the number grammar, the string escapes, no
  control characters inside strings, at most 10000 levels of nesting. It runs on fuel; a text
  of length n is read with fuel \<open>2 n + 2\<close>, which \<open>p_value_print\<close> shows to be enough for every
  printed tree.
\<close>

datatype json =
    JNull
  | JBool bool
  | JNum bytes
  | JStr bytes
  | JArr "json list"
  | JObj "(bytes \<times> json) list"

subsection \<open>Tokens\<close>

definition is_space :: "char \<Rightarrow> bool" where
  "is_space c \<longleftrightarrow> ord c = 32 \<or> ord c = 9 \<or> ord c = 10 \<or> ord c = 13"

definition skip_ws :: "bytes \<Rightarrow> bytes" where
  "skip_ws s = dropWhile is_space s"

text \<open>
  The length of the string element a text starts with: a plain character, a two-character
  escape or a \<open>\u\<close> escape; 0 when the scanner rejects it.
\<close>

definition elem_len :: "bytes \<Rightarrow> nat" where
  "elem_len s =
     (if s = [] \<or> s ! 0 = DQ \<or> ord (s ! 0) < 32 then 0
      else if s ! 0 \<noteq> BS then 1
      else if 2 \<le> length s \<and> simple_escape (s ! 1) \<noteq> None then 2
      else if 6 \<le> length s \<and> s ! 1 = CHR ''u'' \<and> is_hex (s ! 2) \<and> is_hex (s ! 3)
              \<and> is_hex (s ! 4) \<and> is_hex (s ! 5) then 6
      else 0)"

lemma elem_len_le: "elem_len s \<le> length s"
  by (cases s) (auto simp: elem_len_def)

text \<open>After the opening quote: the raw token and what follows the closing quote.\<close>

function scan_str :: "bytes \<Rightarrow> (bytes \<times> bytes) option" where
  "scan_str s =
     (if s = [] then None
      else if hd s = DQ then Some ([], tl s)
      else if elem_len s = 0 then None
      else map_option (\<lambda>(t, u). (take (elem_len s) s @ t, u)) (scan_str (drop (elem_len s) s)))"
  by pat_completeness auto
termination
  by (relation "measure length") auto

declare scan_str.simps [simp del]

definition scan_digits :: "bytes \<Rightarrow> bytes \<times> bytes" where
  "scan_digits s = (takeWhile is_digit s, dropWhile is_digit s)"

definition scan_int :: "bytes \<Rightarrow> (bytes \<times> bytes) option" where
  "scan_int s =
     (case s of
        [] \<Rightarrow> None
      | c # r \<Rightarrow> if c = CHR ''0'' then Some ([c], r)
                 else if is_digit c then Some (scan_digits s) else None)"

definition scan_frac :: "bytes \<Rightarrow> bytes \<times> bytes" where
  "scan_frac s =
     (case s of
        c # d # r \<Rightarrow> if c = CHR ''.'' \<and> is_digit d
                     then (c # fst (scan_digits (d # r)), snd (scan_digits (d # r))) else ([], s)
      | _ \<Rightarrow> ([], s))"

definition scan_sign :: "bytes \<Rightarrow> bytes \<times> bytes" where
  "scan_sign s =
     (case s of
        c # r \<Rightarrow> if c = CHR ''+'' \<or> c = CHR ''-'' then ([c], r) else ([], s)
      | _ \<Rightarrow> ([], s))"

definition scan_exp :: "bytes \<Rightarrow> bytes \<times> bytes" where
  "scan_exp s =
     (case s of
        c # r \<Rightarrow>
          if (c = CHR ''e'' \<or> c = CHR ''E'') \<and> fst (scan_digits (snd (scan_sign r))) \<noteq> []
          then (c # fst (scan_sign r) @ fst (scan_digits (snd (scan_sign r))),
                snd (scan_digits (snd (scan_sign r))))
          else ([], s)
      | _ \<Rightarrow> ([], s))"

definition scan_num :: "bytes \<Rightarrow> (bytes \<times> bytes) option" where
  "scan_num s =
     (let (m, s0) = (case s of c # r \<Rightarrow> if c = CHR ''-'' then ([c], r) else ([], s) | _ \<Rightarrow> ([], s))
      in case scan_int s0 of
           None \<Rightarrow> None
         | Some (i, s1) \<Rightarrow>
             let (f, s2) = scan_frac s1; (e, s3) = scan_exp s2
             in Some (m @ i @ f @ e, s3))"

definition scan_word :: "bytes \<Rightarrow> json \<Rightarrow> bytes \<Rightarrow> (json \<times> bytes) option" where
  "scan_word w v s = (if HasPrefix s w then Some (v, drop (length w) s) else None)"

subsection \<open>Values\<close>

definition max_depth :: nat where "max_depth = 10000"

text \<open>
  A member comes with its raw text as well: that is what a \<open>json.RawMessage\<close> field receives.
\<close>

fun p_value :: "nat \<Rightarrow> nat \<Rightarrow> bytes \<Rightarrow> (json \<times> bytes) option"
and p_elems :: "nat \<Rightarrow> nat \<Rightarrow> bytes \<Rightarrow> (json list \<times> bytes) option"
and p_members :: "nat \<Rightarrow> nat \<Rightarrow> bytes \<Rightarrow> ((bytes \<times> bytes \<times> json) list \<times> bytes) option" where
  "p_value 0 d s = None"
| "p_value (Suc f) d s =
     (case skip_ws s of
        [] \<Rightarrow> None
      | c # r \<Rightarrow>
          if c = DQ then map_option (\<lambda>(t, u). (JStr t, u)) (scan_str r)
          else if c = CHR ''['' then
            (if d \<ge> max_depth then None
             else case skip_ws r of
               [] \<Rightarrow> None
             | c2 # r2 \<Rightarrow> if c2 = CHR '']'' then Some (JArr [], r2)
                          else map_option (\<lambda>(vs, u). (JArr vs, u)) (p_elems f (Suc d) r))
          else if c = CHR ''{'' then
            (if d \<ge> max_depth then None
             else case skip_ws r of
               [] \<Rightarrow> None
             | c2 # r2 \<Rightarrow> if c2 = CHR ''}'' then Some (JObj [], r2)
                          else map_option (\<lambda>(ms, u). (JObj (map (\<lambda>(k, raw, v). (k, v)) ms), u))
                                 (p_members f (Suc d) r))
          else if c = CHR ''t'' then scan_word ''true'' (JBool True) (c # r)
          else if c = CHR ''f'' then scan_word ''false'' (JBool False) (c # r)
          else if c = CHR ''n'' then scan_word ''null'' JNull (c # r)
          else map_option (\<lambda>(t, u). (JNum t, u)) (scan_num (c # r)))"
| "p_elems 0 d s = None"
| "p_elems (Suc f) d s =
     (case p_value f d s of
        None \<Rightarrow> None
      | Some (v, r) \<Rightarrow>
          (case skip_ws r of
             [] \<Rightarrow> None
           | c # u \<Rightarrow> if c = CHR '','' then map_option (\<lambda>(vs, w). (v # vs, w)) (p_elems f d u)
                      else if c = CHR '']'' then Some ([v], u) else None))"
| "p_members 0 d s = None"
| "p_members (Suc f) d s =
     (case skip_ws s of
        [] \<Rightarrow> None
      | q # r \<Rightarrow>
          if q \<noteq> DQ then None
          else case scan_str r of
            None \<Rightarrow> None
          | Some (k, r1) \<Rightarrow>
              (case skip_ws r1 of
                 [] \<Rightarrow> None
               | c # r2 \<Rightarrow>
                   if c \<noteq> CHR '':'' then None
                   else case p_value f d r2 of
                     None \<Rightarrow> None
                   | Some (v, r3) \<Rightarrow>
                       let s2 = skip_ws r2; raw = take (length s2 - length r3) s2
                       in case skip_ws r3 of
                            [] \<Rightarrow> None
                          | c3 # u \<Rightarrow>
                              if c3 = CHR '','' then
                                map_option (\<lambda>(ms, w). ((k, raw, v) # ms, w)) (p_members f d u)
                              else if c3 = CHR ''}'' then Some ([(k, raw, v)], u)
                              else None))"

definition fuel_for :: "bytes \<Rightarrow> nat" where
  "fuel_for s = 2 * length s + 2"

definition parse_json :: "bytes \<Rightarrow> json option" where
  "parse_json s =
     (case p_value (fuel_for s) 0 s of
        Some (v, r) \<Rightarrow> if skip_ws r = [] then Some v else None
      | None \<Rightarrow> None)"

subsection \<open>Printing\<close>

fun pr :: "json \<Rightarrow> bytes"
and pr_elems :: "json list \<Rightarrow> bytes"
and pr_members :: "(bytes \<times> json) list \<Rightarrow> bytes" where
  "pr JNull = ''null''"
| "pr (JBool b) = (if b then ''true'' else ''false'')"
| "pr (JNum t) = t"
| "pr (JStr t) = DQ # t @ [DQ]"
| "pr (JArr vs) = CHR ''['' # pr_elems vs @ [CHR '']'']"
| "pr (JObj ms) = CHR ''{'' # pr_members ms @ [CHR ''}'']"
| "pr_elems [] = []"
| "pr_elems (v # vs) = pr v @ (if vs = [] then [] else CHR '','' # pr_elems vs)"
| "pr_members [] = []"
| "pr_members ((k, v) # ms) =
     DQ # k @ [DQ, CHR '':''] @ pr v @ (if ms = [] then [] else CHR '','' # pr_members ms)"

text \<open>Raw tokens as the scanner accepts them, and trees within the depth limit.\<close>

definition wf_str :: "bytes \<Rightarrow> bool" where
  "wf_str t \<longleftrightarrow> scan_str (t @ [DQ]) = Some (t, [])"

definition wf_num :: "bytes \<Rightarrow> bool" where
  "wf_num t \<longleftrightarrow> scan_num t = Some (t, [])"

fun wf_json :: "nat \<Rightarrow> json \<Rightarrow> bool" where
  "wf_json d JNull = True"
| "wf_json d (JBool b) = True"
| "wf_json d (JNum t) = wf_num t"
| "wf_json d (JStr t) = wf_str t"
| "wf_json d (JArr vs) = (d < max_depth \<and> list_all (wf_json (Suc d)) vs)"
| "wf_json d (JObj ms) = (d < max_depth \<and> list_all (\<lambda>(k, v). wf_str k \<and> wf_json (Suc d) v) ms)"

subsection \<open>String tokens: scanning and well-formedness\<close>

lemma DQ_neq_BS [simp]: "DQ \<noteq> BS" "BS \<noteq> DQ"
  by (simp_all add: DQ_def BS_def)

lemma elem_len_iff:
  "elem_len s = Suc 0 \<longleftrightarrow> s \<noteq> [] \<and> s ! 0 \<noteq> DQ \<and> \<not> ord (s ! 0) < 32 \<and> s ! 0 \<noteq> BS"
  "elem_len s = 2 \<longleftrightarrow> 2 \<le> length s \<and> s ! 0 = BS \<and> simple_escape (s ! 1) \<noteq> None"
  "elem_len s = 6 \<longleftrightarrow> 6 \<le> length s \<and> s ! 0 = BS \<and> simple_escape (s ! 1) = None \<and> s ! 1 = CHR ''u''
     \<and> is_hex (s ! 2) \<and> is_hex (s ! 3) \<and> is_hex (s ! 4) \<and> is_hex (s ! 5)"
proof -
  have "\<not> ord BS < 32" by (simp add: BS_def)
  then show
    "elem_len s = Suc 0 \<longleftrightarrow> s \<noteq> [] \<and> s ! 0 \<noteq> DQ \<and> \<not> ord (s ! 0) < 32 \<and> s ! 0 \<noteq> BS"
    "elem_len s = 2 \<longleftrightarrow> 2 \<le> length s \<and> s ! 0 = BS \<and> simple_escape (s ! 1) \<noteq> None"
    "elem_len s = 6 \<longleftrightarrow> 6 \<le> length s \<and> s ! 0 = BS \<and> simple_escape (s ! 1) = None \<and> s ! 1 = CHR ''u''
     \<and> is_hex (s ! 2) \<and> is_hex (s ! 3) \<and> is_hex (s ! 4) \<and> is_hex (s ! 5)"
    by (simp add: elem_len_def; fastforce)+
qed

lemma elem_len_cases: "elem_len s = 0 \<or> elem_len s = Suc 0 \<or> elem_len s = 2 \<or> elem_len s = 6"
  by (simp add: elem_len_def)

lemma elem_len_prefix:
  assumes nz: "elem_len s \<noteq> 0" and eq: "take (elem_len s) t = take (elem_len s) s"
  shows "elem_len t = elem_len s"
proof -
  let ?n = "elem_len s"
  have nth: "i < ?n \<Longrightarrow> t ! i = s ! i" for i
    using arg_cong [OF eq, of "\<lambda>l. l ! i"] by simp
  have len: "?n \<le> length t"
    using arg_cong [OF eq, of length] elem_len_le [of s] by simp
  from elem_len_cases [of s] nz consider "?n = Suc 0" | "?n = 2" | "?n = 6" by blast
  then show ?thesis
  proof cases
    case 1
    with nth [of 0] len have "elem_len t = Suc 0" by (auto simp: elem_len_iff)
    with 1 show ?thesis by simp
  next
    case 2
    with nth [of 0] nth [of 1] len have "elem_len t = 2" by (simp add: elem_len_iff)
    with 2 show ?thesis by simp
  next
    case 3
    with nth [of 0] nth [of 1] nth [of 2] nth [of 3] nth [of 4] nth [of 5] len
    have "elem_len t = 6" by (auto simp: elem_len_iff)
    with 3 show ?thesis by simp
  qed
qed

lemma elem_len_append: "elem_len s \<noteq> 0 \<Longrightarrow> elem_len (s @ x) = elem_len s"
  using elem_len_le [of s] by (intro elem_len_prefix) simp_all

lemma scan_str_Nil [simp]: "scan_str [] = None"
  by (simp add: scan_str.simps)

lemma scan_str_DQ [simp]: "scan_str (DQ # r) = Some ([], r)"
  by (simp add: scan_str.simps [of "DQ # r"])

lemma elem_hd: "elem_len e \<noteq> 0 \<Longrightarrow> e \<noteq> [] \<and> hd e \<noteq> DQ"
  by (cases e) (auto simp: elem_len_def)

lemma scan_str_elem:
  assumes "elem_len e = length e" and "e \<noteq> []"
  shows "scan_str (e @ s) = map_option (\<lambda>(t, u). (e @ t, u)) (scan_str s)"
proof -
  have nz: "elem_len e \<noteq> 0" using assms by simp
  with assms have "elem_len (e @ s) = length e" by (simp add: elem_len_append)
  with nz assms elem_hd [OF nz] show ?thesis by (simp add: scan_str.simps [of "e @ s"])
qed

lemma elem_take: "elem_len s \<noteq> 0 \<Longrightarrow> elem_len (take (elem_len s) s) = length (take (elem_len s) s)"
  using elem_len_le [of s] elem_len_prefix [of s "take (elem_len s) s"] by simp

lemma scan_str_Some:
  "scan_str s = Some (t, u) \<Longrightarrow> s = t @ DQ # u \<and> (\<forall>x. scan_str (t @ DQ # x) = Some (t, x))"
proof (induction s arbitrary: t u rule: scan_str.induct)
  case (1 s)
  show ?case
  proof (cases "s = [] \<or> hd s = DQ \<or> elem_len s = 0")
    case True
    with "1.prems" have "s \<noteq> []" "hd s = DQ" "t = []" "u = tl s"
      by (auto simp: scan_str.simps [of s] split: if_splits)
    then show ?thesis by (cases s) auto
  next
    case False
    let ?e = "take (elem_len s) s"
    from False "1.prems" obtain t' where t': "scan_str (drop (elem_len s) s) = Some (t', u)" and t: "t = ?e @ t'"
      by (auto simp: scan_str.simps [of s])
    from "1.IH" [OF _ _ _ t'] False have IH: "drop (elem_len s) s = t' @ DQ # u"
      "\<And>x. scan_str (t' @ DQ # x) = Some (t', x)" by auto
    have "?e \<noteq> []" using False by simp
    from False have el: "elem_len ?e = length ?e" by (intro elem_take) simp
    have "scan_str ((?e @ t') @ DQ # x) = Some (?e @ t', x)" for x
      unfolding append.assoc scan_str_elem [OF el \<open>?e \<noteq> []\<close>] IH(2) by simp
    then have "scan_str (t @ DQ # x) = Some (t, x)" for x unfolding t [symmetric] .
    moreover have "s = t @ DQ # u" using IH(1) t by (metis append.assoc append_take_drop_id)
    ultimately show ?thesis by blast
  qed
qed

lemma scan_str_wf: "scan_str s = Some (t, u) \<Longrightarrow> wf_str t \<and> s = t @ DQ # u"
  by (simp add: wf_str_def scan_str_Some)

lemma scan_str_token [simp]: "wf_str t \<Longrightarrow> scan_str (t @ DQ # r) = Some (t, r)"
  by (simp add: wf_str_def scan_str_Some)

lemma wf_str_Nil [simp]: "wf_str []"
  by (simp add: wf_str_def)

lemma wf_str_elem: "elem_len e = length e \<Longrightarrow> e \<noteq> [] \<Longrightarrow> wf_str t \<Longrightarrow> wf_str (e @ t)"
  by (simp add: wf_str_def scan_str_elem)

text \<open>Induction over the elements of a token.\<close>

lemma wf_str_cases:
  assumes "wf_str t"
  shows "t = [] \<or> (\<exists>e t'. t = e @ t' \<and> e \<noteq> [] \<and> elem_len e = length e \<and> wf_str t')"
proof (cases "t = []")
  case False
  with assms have nz: "elem_len (t @ [DQ]) \<noteq> 0" and "hd t \<noteq> DQ"
    by (auto simp: wf_str_def scan_str.simps [of "t @ [DQ]"] split: if_splits)
  let ?e = "take (elem_len (t @ [DQ])) (t @ [DQ])"
  from assms nz False \<open>hd t \<noteq> DQ\<close> obtain t' where
      t': "scan_str (drop (elem_len (t @ [DQ])) (t @ [DQ])) = Some (t', [])" and t: "t = ?e @ t'"
    by (auto simp: wf_str_def scan_str.simps [of "t @ [DQ]"])
  have "length ?e = elem_len (t @ [DQ])" using elem_len_le [of "t @ [DQ]"] by (simp del: take_append)
  with nz have "?e \<noteq> []" by (metis length_0_conv)
  with t scan_str_wf [OF t'] elem_take [OF nz] show ?thesis by metis
qed simp

lemma wf_str_induct [consumes 1, case_names Nil Elem]:
  assumes "wf_str t" and "P []"
    and "\<And>e t. e \<noteq> [] \<Longrightarrow> elem_len e = length e \<Longrightarrow> wf_str t \<Longrightarrow> P t \<Longrightarrow> P (e @ t)"
  shows "P t"
  using assms(1)
proof (induction "length t" arbitrary: t rule: less_induct)
  case less
  from wf_str_cases [OF less.prems] show ?case
  proof (elim disjE exE conjE)
    assume "t = []"
    with assms(2) show ?thesis by simp
  next
    fix e t' assume *: "t = e @ t'" "e \<noteq> []" "elem_len e = length e" "wf_str t'"
    then have "length t' < length t" by simp
    from less.hyps [OF this \<open>wf_str t'\<close>] * assms(3) show ?thesis by simp
  qed
qed

lemma simple_escape_u [simp]: "simple_escape (CHR ''u'') = None"
  by (simp add: simple_escape_def BS_def DQ_def)

lemma elem_len_plain: "c \<noteq> DQ \<Longrightarrow> c \<noteq> BS \<Longrightarrow> \<not> ord c < 32 \<Longrightarrow> elem_len [c] = length [c]"
  by (simp add: elem_len_iff)

lemma ord_BS [simp]: "ord BS = 92" and ord_DQ [simp]: "ord DQ = 34"
  by (simp_all add: BS_def DQ_def)

lemma elem_len_escape: "simple_escape x \<noteq> None \<Longrightarrow> elem_len [BS, x] = length [BS, x]"
  by (simp add: elem_len_def)

lemma elem_len_u_escape: "elem_len (u_escape n) = length (u_escape n)"
  by (simp add: elem_len_def u_escape_def is_hex_def)

lemma u_escape_nonempty [simp]: "u_escape n \<noteq> []"
  by (simp add: u_escape_def)

lemma wf_str_u_escape: "wf_str t \<Longrightarrow> wf_str (u_escape n @ t)"
  by (simp add: wf_str_elem elem_len_u_escape)

lemma wf_str_plain: "c \<noteq> DQ \<Longrightarrow> c \<noteq> BS \<Longrightarrow> \<not> ord c < 32 \<Longrightarrow> wf_str t \<Longrightarrow> wf_str (c # t)"
  using wf_str_elem [OF elem_len_plain, of c t] by simp

lemma wf_str_plains:
  "(\<And>c. c \<in> set p \<Longrightarrow> 128 \<le> ord c) \<Longrightarrow> wf_str t \<Longrightarrow> wf_str (p @ t)"
proof (induction p)
  case (Cons c p)
  then have "128 \<le> ord c" and "wf_str (p @ t)" by simp_all
  then show ?case by (auto intro!: wf_str_plain)
qed simp

lemma rune_bytes_high:
  assumes "rune_len s \<noteq> 0" and "\<not> ord (hd s) < 128" and "c \<in> set (take (rune_len s) s)"
  shows "128 \<le> ord c"
proof -
  obtain i where i: "i < rune_len s" and c: "c = s ! i"
    using assms(3) by (auto simp: in_set_conv_nth)
  have "s \<noteq> []" using assms(1) by (simp add: rune_len_nonempty)
  with assms(2) have hd: "\<not> ord (s ! 0) < 128" by (simp add: hd_conv_nth)
  have low: "second_ok a b \<Longrightarrow> 128 \<le> ord b" "cont b \<Longrightarrow> 128 \<le> ord b" for a b
    by (auto simp: second_ok_def cont_def between_def split: if_splits)
  have "i = 0 \<or> i = 1 \<or> i = 2 \<or> i = 3" using i rune_len_cases [of s] by auto
  then show ?thesis using rune_len_cases [of s] assms(1) hd i c
    by (elim disjE) (auto simp: rune_len_iff dest: low)
qed

lemma wf_str_rune:
  "rune_len s \<noteq> 0 \<Longrightarrow> \<not> ord (hd s) < 128 \<Longrightarrow> wf_str t \<Longrightarrow> wf_str (take (rune_len s) s @ t)"
  by (intro wf_str_plains) (rule rune_bytes_high)

lemma wf_str_esc_ascii:
  assumes "wf_str t" and "ord c < 128"
  shows "wf_str (esc_ascii c @ t)"
proof -
  have e: "wf_str (BS # x # t)" if "simple_escape x \<noteq> None" for x
    using wf_str_elem [OF elem_len_escape, OF that _ assms(1)] by simp
  show ?thesis
    using assms by (auto simp: esc_ascii_def simple_escape_def intro!: e wf_str_u_escape wf_str_plain)
qed

lemma wf_str_quote_body [simp]: "wf_str (quote_body s)"
proof (induction s rule: quote_body.induct)
  case (1 s)
  show ?case
  proof (cases "s = []")
    case True
    then show ?thesis by (simp add: quote_body.simps)
  next
    case False
    with 1 show ?thesis
      by (auto simp: quote_body.simps [of s] intro!: wf_str_esc_ascii wf_str_u_escape wf_str_rune)
  qed
qed

text \<open>HTML-sensitive characters and the line separators, as \<open>compact\<close> escapes them.\<close>

function esc_html :: "bytes \<Rightarrow> bytes" where
  "esc_html s =
     (if s = [] then []
      else if hd s \<in> set ''<>&'' then u_escape (ord (hd s)) @ esc_html (tl s)
      else if is_2028_9 s then u_escape (if s ! 2 = CHR 0xA8 then 0x2028 else 0x2029) @ esc_html (drop 3 s)
      else hd s # esc_html (tl s))"
  by pat_completeness auto
termination
  by (relation "measure length") auto

declare esc_html.simps [simp del]

lemma esc_html_Nil [simp]: "esc_html [] = []"
  by (simp add: esc_html.simps)

lemma esc_html_plain: "c \<notin> set ''<>&'' \<Longrightarrow> c \<noteq> CHR 0xE2 \<Longrightarrow> esc_html (c # s) = c # esc_html s"
  by (simp add: esc_html.simps [of "c # s"] is_2028_9_def)

lemma esc_html_plains:
  "\<forall>c\<in>set p. c \<notin> set ''<>&'' \<and> c \<noteq> CHR 0xE2 \<Longrightarrow> esc_html (p @ s) = p @ esc_html s"
  by (induction p) (simp_all add: esc_html_plain)

lemma is_hex_plain: "is_hex c \<Longrightarrow> c \<notin> set ''<>&'' \<and> c \<noteq> CHR 0xE2"
  by (auto simp: is_hex_def hex_val_def between_def split: if_splits)

lemma simple_escape_plain: "simple_escape c \<noteq> None \<Longrightarrow> c \<notin> set ''<>&'' \<and> c \<noteq> CHR 0xE2"
  by (auto simp: simple_escape_def BS_def DQ_def split: if_splits)

lemma elem_long_plain:
  assumes "elem_len e = length e" and "length e \<noteq> Suc 0" and "e \<noteq> []"
  shows "\<forall>c\<in>set e. c \<notin> set ''<>&'' \<and> c \<noteq> CHR 0xE2"
proof -
  from assms elem_len_cases [of e] consider "length e = 2" "elem_len e = 2" | "length e = 6" "elem_len e = 6"
    by auto
  then show ?thesis
  proof cases
    case 1
    obtain b x where e: "e = [b, x]" using 1(1) by (auto simp: length_Suc_conv numeral_2_eq_2)
    with 1(2) have "b = BS" "simple_escape x \<noteq> None" by (simp_all add: elem_len_iff)
    with e simple_escape_plain [of x] show ?thesis by (auto simp: BS_def)
  next
    case 2
    obtain u v a b c d where e: "e = [u, v, a, b, c, d]"
      using 2(1) by (auto simp: length_Suc_conv eval_nat_numeral)
    with 2(2) have "u = BS" "v = CHR ''u''" "is_hex a" "is_hex b" "is_hex c" "is_hex d"
      by (simp_all add: elem_len_iff)
    with e is_hex_plain show ?thesis by (auto simp: BS_def)
  qed
qed

lemma wf_str_tl_plain: "wf_str (c # t) \<Longrightarrow> c \<noteq> BS \<Longrightarrow> wf_str t"
proof (drule wf_str_cases, elim disjE exE conjE)
  fix e t' assume c: "c \<noteq> BS" and *: "c # t = e @ t'" "e \<noteq> []" "elem_len e = length e" "wf_str t'"
  then obtain e' where e: "e = c # e'" by (cases e) auto
  with *(3) c have "e' = []" by (auto simp: elem_len_def split: if_splits)
  with * e show "wf_str t" by simp
qed simp

lemma wf_str_esc_html: "wf_str t \<Longrightarrow> wf_str (esc_html t)"
proof (induction "length t" arbitrary: t rule: less_induct)
  case less
  from wf_str_cases [OF less.prems] show ?case
  proof (elim disjE exE conjE)
    fix e t' assume *: "t = e @ t'" "e \<noteq> []" "elem_len e = length e" "wf_str t'"
    then have IH: "wf_str (esc_html t')" using less.hyps by simp
    show ?thesis
    proof (cases "length e = Suc 0")
      case False
      from esc_html_plains [OF elem_long_plain, OF *(3) False *(2)] *(1) IH * show ?thesis
        by (simp add: wf_str_elem)
    next
      case True
      then obtain c where c: "e = [c]" by (auto simp: length_Suc_conv)
      with *(3) have pl: "c \<noteq> DQ" "c \<noteq> BS" "\<not> ord c < 32" by (auto simp: elem_len_iff)
      show ?thesis
      proof (cases "c \<notin> set ''<>&'' \<and> is_2028_9 t")
        case False
        with *(1) c pl IH show ?thesis
          by (auto simp: esc_html.simps [of "c # t'"] intro!: wf_str_u_escape wf_str_plain)
      next
        case True
        with *(1) c obtain x y r where r: "t' = x # y # r" "x = CHR 0x80" "y = CHR 0xA8 \<or> y = CHR 0xA9"
          by (cases t'; cases "tl t'") (auto simp: is_2028_9_def)
        with *(4) have "wf_str r"
          by (auto dest!: wf_str_tl_plain simp: BS_def)
        then have "wf_str (esc_html r)" using less.hyps *(1) c r by simp
        moreover from True *(1) c r(1) have
          "esc_html t = u_escape (if y = CHR 0xA8 then 0x2028 else 0x2029) @ esc_html r"
          by (subst esc_html.simps) simp
        ultimately show ?thesis by (simp add: wf_str_u_escape)
      qed
    qed
  qed simp
qed

subsection \<open>Number tokens\<close>

text \<open>What can follow a value inside a text: nothing, a blank, a comma or a closing bracket.\<close>

definition delim :: "bytes \<Rightarrow> bool" where
  "delim r \<longleftrightarrow> (case r of [] \<Rightarrow> True | c # _ \<Rightarrow> is_space c \<or> c \<in> set '',]}'')"

definition not_num :: "bytes \<Rightarrow> bool" where
  "not_num r \<longleftrightarrow> (case r of [] \<Rightarrow> True
     | c # _ \<Rightarrow> \<not> is_digit c \<and> c \<notin> set ''.eE+-'')"

lemma delim_not_num: "delim r \<Longrightarrow> not_num r"
  by (auto simp: delim_def not_num_def is_space_def is_digit_def split: list.splits)

lemma scan_digits_append:
  "not_num r \<Longrightarrow> scan_digits (s @ r) = (fst (scan_digits s), snd (scan_digits s) @ r)"
  by (induction s) (auto simp: scan_digits_def not_num_def split: list.splits)

lemma scan_sign_append:
  "not_num r \<Longrightarrow> scan_sign (s @ r) = (fst (scan_sign s), snd (scan_sign s) @ r)"
  by (auto simp: scan_sign_def not_num_def split: list.splits)

lemma scan_frac_append:
  assumes "not_num r"
  shows "scan_frac (s @ r) = (fst (scan_frac s), snd (scan_frac s) @ r)"
proof (cases s)
  case Nil
  with assms show ?thesis by (auto simp: scan_frac_def not_num_def split: list.splits)
next
  case (Cons c s')
  show ?thesis
  proof (cases s')
    case Nil
    with Cons assms show ?thesis by (auto simp: scan_frac_def not_num_def split: list.splits)
  next
    case (Cons d s'')
    with \<open>s = c # s'\<close> scan_digits_append [OF assms, of "d # s''"] show ?thesis
      by (simp add: scan_frac_def)
  qed
qed

lemma scan_exp_append:
  assumes "not_num r"
  shows "scan_exp (s @ r) = (fst (scan_exp s), snd (scan_exp s) @ r)"
proof (cases s)
  case Nil
  with assms show ?thesis by (auto simp: scan_exp_def not_num_def split: list.splits)
next
  case (Cons c s')
  with scan_sign_append [OF assms, of s'] scan_digits_append [OF assms, of "snd (scan_sign s')"]
  show ?thesis by (simp add: scan_exp_def)
qed

lemma scan_int_append:
  assumes "not_num r" and "scan_int s = Some (i, u)"
  shows "scan_int (s @ r) = Some (i, u @ r)"
  using assms(2) scan_digits_append [OF assms(1), of s]
  by (cases s) (auto simp: scan_int_def split: if_splits)

definition num_minus :: "bytes \<Rightarrow> bytes \<times> bytes" where
  "num_minus s = (case s of c # r \<Rightarrow> if c = CHR ''-'' then ([c], r) else ([], s) | _ \<Rightarrow> ([], s))"

lemma scan_num_eq:
  "scan_num s =
     (case scan_int (snd (num_minus s)) of
        None \<Rightarrow> None
      | Some (i, s1) \<Rightarrow>
          Some (fst (num_minus s) @ i @ fst (scan_frac s1) @ fst (scan_exp (snd (scan_frac s1))),
                snd (scan_exp (snd (scan_frac s1)))))"
  by (simp add: scan_num_def num_minus_def Let_def case_prod_beta split: option.splits)

lemma scan_num_append:
  assumes "not_num r" and "scan_num s = Some (t, u)"
  shows "scan_num (s @ r) = Some (t, u @ r)"
proof -
  from assms(2) obtain i s1 where i: "scan_int (snd (num_minus s)) = Some (i, s1)"
    by (auto simp: scan_num_eq split: option.splits)
  then have "s \<noteq> []" by (auto simp: num_minus_def scan_int_def)
  then have "num_minus (s @ r) = (fst (num_minus s), snd (num_minus s) @ r)"
    by (cases s) (simp_all add: num_minus_def)
  with i assms show ?thesis
    by (auto simp: scan_num_eq scan_int_append scan_frac_append scan_exp_append)
qed

lemma scan_digits_split: "fst (scan_digits s) @ snd (scan_digits s) = s"
  by (simp add: scan_digits_def)

lemma scan_sign_split: "fst (scan_sign s) @ snd (scan_sign s) = s"
  by (auto simp: scan_sign_def split: list.splits)

lemma scan_frac_split: "fst (scan_frac s) @ snd (scan_frac s) = s"
  by (auto simp: scan_frac_def scan_digits_split split: list.splits)

lemma scan_exp_split: "fst (scan_exp s) @ snd (scan_exp s) = s"
  by (auto simp: scan_exp_def scan_digits_split scan_sign_split split: list.splits)

lemma scan_int_split: "scan_int s = Some (i, u) \<Longrightarrow> s = i @ u"
  using scan_digits_split [of s] by (auto simp: scan_int_def split: list.splits if_splits)

lemma scan_num_split: "scan_num s = Some (t, u) \<Longrightarrow> s = t @ u"
proof -
  assume a: "scan_num s = Some (t, u)"
  have "fst (num_minus s) @ snd (num_minus s) = s" by (auto simp: num_minus_def split: list.splits)
  with a show ?thesis
    by (auto simp: scan_num_eq scan_frac_split scan_exp_split dest!: scan_int_split split: option.splits)
qed

definition no_digit :: "bytes \<Rightarrow> bool" where
  "no_digit r \<longleftrightarrow> (case r of [] \<Rightarrow> True | c # _ \<Rightarrow> \<not> is_digit c)"

definition exp_or_end :: "bytes \<Rightarrow> bool" where
  "exp_or_end r \<longleftrightarrow> (case r of [] \<Rightarrow> True | c # _ \<Rightarrow> c = CHR ''e'' \<or> c = CHR ''E'')"

lemma exp_or_end_no_digit: "exp_or_end r \<Longrightarrow> no_digit r"
  by (auto simp: exp_or_end_def no_digit_def is_digit_def split: list.splits)

lemma scan_digits_app: "list_all is_digit p \<Longrightarrow> no_digit r \<Longrightarrow> scan_digits (p @ r) = (p, r)"
  by (induction p) (auto simp: scan_digits_def no_digit_def split: list.splits)

lemma scan_digits_all: "list_all is_digit (fst (scan_digits s))"
  by (auto simp: scan_digits_def list_all_iff dest: set_takeWhileD)

lemma scan_digits_again [simp]:
  "no_digit r \<Longrightarrow> scan_digits (fst (scan_digits s) @ r) = (fst (scan_digits s), r)"
  by (rule scan_digits_app) (rule scan_digits_all)

lemma scan_digits_again0 [simp]: "scan_digits (fst (scan_digits s)) = (fst (scan_digits s), [])"
  using scan_digits_again [of "[]" s] by (simp add: no_digit_def)

lemma scan_int_again:
  assumes "scan_int s = Some (i, u)" and "no_digit r"
  shows "scan_int (i @ r) = Some (i, r)"
proof -
  from assms(1) obtain c s' where s: "s = c # s'" by (cases s) (auto simp: scan_int_def)
  show ?thesis
  proof (cases "c = CHR ''0''")
    case True
    with assms(1) s show ?thesis by (auto simp: scan_int_def)
  next
    case False
    with assms(1) s have c: "is_digit c" and i: "i = fst (scan_digits s)"
      by (auto simp: scan_int_def split: if_splits)
    then obtain i' where i': "i = c # i'" using s by (simp add: scan_digits_def)
    have "scan_digits (i @ r) = (i, r)" using assms(2) i by simp
    with i' False c show ?thesis by (simp add: scan_int_def)
  qed
qed

lemma scan_frac_head: "fst (scan_frac s) = [] \<or> (\<exists>p. fst (scan_frac s) = CHR ''.'' # p \<and> list_all is_digit p \<and> p \<noteq> [])"
  by (auto simp: scan_frac_def scan_digits_all split: list.splits)
    (auto simp: scan_digits_def)

lemma scan_frac_again: "exp_or_end r \<Longrightarrow> scan_frac (fst (scan_frac s) @ r) = (fst (scan_frac s), r)"
proof (rule disjE [OF scan_frac_head [of s]])
  assume "exp_or_end r" and "fst (scan_frac s) = []"
  then show ?thesis by (auto simp: scan_frac_def exp_or_end_def split: list.splits)
next
  assume e: "exp_or_end r" and "\<exists>p. fst (scan_frac s) = CHR ''.'' # p \<and> list_all is_digit p \<and> p \<noteq> []"
  then obtain p where p: "fst (scan_frac s) = CHR ''.'' # p" "list_all is_digit p" "p \<noteq> []" by blast
  then obtain d q where q: "p = d # q" by (cases p) auto
  have "scan_digits (p @ r) = (p, r)" using p(2) e by (simp add: scan_digits_app exp_or_end_no_digit)
  with p q show ?thesis by (simp add: scan_frac_def)
qed

lemma scan_exp_head: "exp_or_end (fst (scan_exp s))"
  by (auto simp: scan_exp_def exp_or_end_def split: list.splits)

lemma scan_exp_again: "scan_exp (fst (scan_exp s)) = (fst (scan_exp s), [])"
proof (cases "fst (scan_exp s) = []")
  case True
  then show ?thesis by (simp add: scan_exp_def)
next
  case False
  then obtain c r where s: "s = c # r" and ce: "c = CHR ''e'' \<or> c = CHR ''E''"
    and d: "fst (scan_digits (snd (scan_sign r))) \<noteq> []"
    by (auto simp: scan_exp_def split: list.splits if_splits)
  let ?d = "fst (scan_digits (snd (scan_sign r)))"
  have "list_all is_digit ?d" by (rule scan_digits_all)
  then have "scan_sign (fst (scan_sign r) @ ?d) = (fst (scan_sign r), ?d)"
    using d by (cases ?d) (auto simp: scan_sign_def is_digit_def split: list.splits)
  with s ce d show ?thesis by (simp add: scan_exp_def)
qed

lemma scan_num_wf:
  assumes "scan_num s = Some (t, u)"
  shows "wf_num t"
proof -
  from assms obtain i s1 where i: "scan_int (snd (num_minus s)) = Some (i, s1)"
    and t: "t = fst (num_minus s) @ i @ fst (scan_frac s1) @ fst (scan_exp (snd (scan_frac s1)))"
    by (auto simp: scan_num_eq split: option.splits)
  let ?f = "fst (scan_frac s1)" and ?e = "fst (scan_exp (snd (scan_frac s1)))"
  have nd: "no_digit (?f @ ?e)"
    using scan_frac_head [of s1] exp_or_end_no_digit [OF scan_exp_head [of "snd (scan_frac s1)"]]
    by (auto simp: no_digit_def is_digit_def)
  have "i \<noteq> []" and "hd i \<noteq> CHR ''-''"
    using i by (auto simp: scan_int_def scan_digits_def is_digit_def split: list.splits if_splits)
  then have m: "num_minus t = (fst (num_minus s), i @ ?f @ ?e)"
    unfolding t by (cases i) (auto simp: num_minus_def split: list.splits)
  from scan_int_again [OF i nd] m show ?thesis
    by (simp add: wf_num_def scan_num_eq scan_frac_again scan_exp_head scan_exp_again) (simp add: t)
qed

lemma scan_num_token: "wf_num t \<Longrightarrow> not_num r \<Longrightarrow> scan_num (t @ r) = Some (t, r)"
  using scan_num_append [of r t t "[]"] by (simp add: wf_num_def)

lemma wf_num_hd: "wf_num t \<Longrightarrow> t \<noteq> [] \<and> (hd t = CHR ''-'' \<or> is_digit (hd t))"
  by (cases t) (auto simp: wf_num_def scan_num_eq num_minus_def scan_int_def is_digit_def
    split: list.splits if_splits option.splits)

lemma wf_num_chars: "wf_num t \<Longrightarrow> c \<in> set t \<Longrightarrow> is_digit c \<or> c \<in> set ''.eE+-''"
proof -
  assume w: "wf_num t" and c: "c \<in> set t"
  have d: "x \<in> set (fst (scan_digits s)) \<Longrightarrow> is_digit x" for x s
    using scan_digits_all [of s] by (auto simp: list_all_iff)
  have f: "x \<in> set (fst (scan_frac s)) \<Longrightarrow> is_digit x \<or> x = CHR ''.''" for x s
    using scan_frac_head [of s] by (auto simp: list_all_iff)
  have e: "x \<in> set (fst (scan_exp s)) \<Longrightarrow> is_digit x \<or> x \<in> set ''eE+-''" for x s
    by (auto simp: scan_exp_def scan_sign_def dest: d split: list.splits if_splits)
  have i: "scan_int s = Some (j, s') \<Longrightarrow> x \<in> set j \<Longrightarrow> is_digit x" for s j s' x
    using d [of x s] by (auto simp: scan_int_def is_digit_def split: list.splits if_splits)
  from w obtain j s1 where "scan_int (snd (num_minus t)) = Some (j, s1)"
    and "t = fst (num_minus t) @ j @ fst (scan_frac s1) @ fst (scan_exp (snd (scan_frac s1)))"
    by (auto simp: wf_num_def scan_num_eq split: option.splits)
  with c have "c \<in> set (fst (num_minus t)) \<or> c \<in> set j \<or> c \<in> set (fst (scan_frac s1)) \<or>
      c \<in> set (fst (scan_exp (snd (scan_frac s1))))" by (metis Un_iff set_append)
  with \<open>scan_int (snd (num_minus t)) = Some (j, s1)\<close> show ?thesis
    by (auto dest: f e i simp: num_minus_def split: list.splits if_splits)
qed

subsection \<open>Reading what was printed\<close>

fun need :: "json \<Rightarrow> nat" and need_elems :: "json list \<Rightarrow> nat"
and need_members :: "(bytes \<times> json) list \<Rightarrow> nat" where
  "need (JArr vs) = Suc (need_elems vs)"
| "need (JObj ms) = Suc (need_members ms)"
| "need v = 1"
| "need_elems [] = 0"
| "need_elems (v # vs) = Suc (max (need v) (need_elems vs))"
| "need_members [] = 0"
| "need_members ((k, v) # ms) = Suc (max (need v) (need_members ms))"

lemma need_length:
  "wf_json d v \<Longrightarrow> need v \<le> 2 * length (pr v)"
  "list_all (wf_json d) vs \<Longrightarrow> need_elems vs \<le> 2 * length (pr_elems vs) + 1"
  "list_all (\<lambda>(k, v). wf_str k \<and> wf_json d v) ms \<Longrightarrow> need_members ms \<le> 2 * length (pr_members ms) + 1"
proof (induction v and vs and ms arbitrary: d and d and d rule: pr_pr_elems_pr_members.induct)
  case (3 t)
  then show ?case by (cases t) (auto dest: wf_num_hd)
next
  case (5 vs)
  from "5.IH" [of "Suc d"] "5.prems" show ?case by simp
next
  case (6 ms)
  from "6.IH" [of "Suc d"] "6.prems" show ?case by simp
next
  case (8 v vs)
  from "8.IH"(1) [of d] "8.IH"(2) [of d] "8.prems" show ?case by (cases "vs = []") auto
next
  case (10 k v ms)
  from "10.IH"(1) [of d] "10.IH"(2) [of d] "10.prems" show ?case by (cases "ms = []") auto
qed simp_all

lemma need_pos: "0 < need v"
  by (cases v) simp_all

definition value_start :: "char \<Rightarrow> bool" where
  "value_start c \<longleftrightarrow> c = DQ \<or> c \<in> set ''[{tfn-'' \<or> is_digit c"

lemma pr_start: "wf_json d v \<Longrightarrow> pr v \<noteq> [] \<and> value_start (hd (pr v))"
  by (cases v) (auto simp: value_start_def dest: wf_num_hd)

lemma value_start_not: "value_start c \<Longrightarrow> \<not> is_space c \<and> c \<notin> set '',]}''"
  by (auto simp: value_start_def is_space_def is_digit_def DQ_def)

lemma skip_ws_id: "r = [] \<or> \<not> is_space (hd r) \<Longrightarrow> skip_ws r = r"
  by (cases r) (auto simp: skip_ws_def)

lemma skip_ws_Cons [simp]: "\<not> is_space c \<Longrightarrow> skip_ws (c # r) = c # r"
  by (simp add: skip_ws_def)

lemma skip_ws_pr: "wf_json d v \<Longrightarrow> skip_ws (pr v @ r) = pr v @ r"
  using pr_start [of d v] value_start_not by (cases "pr v") auto

lemma not_spaces [simp]: "\<not> is_space (CHR '','')" "\<not> is_space (CHR '']'')" "\<not> is_space (CHR ''}'')"
  "\<not> is_space (CHR ''['')" "\<not> is_space (CHR ''{'')" "\<not> is_space (CHR '':'')" "\<not> is_space DQ"
  "\<not> is_space (CHR ''t'')" "\<not> is_space (CHR ''f'')" "\<not> is_space (CHR ''n'')"
  by (simp_all add: is_space_def)

lemma not_DQ [simp]: "CHR '','' \<noteq> DQ" "CHR '']'' \<noteq> DQ" "CHR ''}'' \<noteq> DQ" "CHR ''['' \<noteq> DQ" "CHR ''{'' \<noteq> DQ"
  "CHR ''t'' \<noteq> DQ" "CHR ''f'' \<noteq> DQ" "CHR ''n'' \<noteq> DQ"
  by (simp_all add: DQ_def)

lemmas not_DQ_sym [simp] = not_DQ [symmetric]

lemma delim_Cons [simp]: "delim (CHR '','' # r)" "delim (CHR '']'' # r)" "delim (CHR ''}'' # r)" "delim []"
  by (simp_all add: delim_def)

lemma p_value_num:
  assumes "wf_num t" and "not_num r"
  shows "p_value (Suc f) d (t @ r) = Some (JNum t, r)"
proof -
  obtain c t' where t: "t = c # t'" and c: "c = CHR ''-'' \<or> is_digit c"
    using wf_num_hd [OF assms(1)] by (cases t) auto
  then have "\<not> is_space c" "c \<noteq> DQ" "c \<notin> set ''[{tfn''"
    by (auto simp: is_space_def is_digit_def DQ_def)
  with scan_num_token [OF assms] t show ?thesis by simp
qed

lemma p_value_print:
  "wf_json d v \<Longrightarrow> need v \<le> f \<Longrightarrow> delim r \<Longrightarrow> p_value f d (pr v @ r) = Some (v, r)"
  "list_all (wf_json d) vs \<Longrightarrow> need_elems vs \<le> f \<Longrightarrow> vs \<noteq> [] \<Longrightarrow>
     p_elems f d (pr_elems vs @ CHR '']'' # r) = Some (vs, r)"
  "list_all (\<lambda>(k, v). wf_str k \<and> wf_json d v) ms \<Longrightarrow> need_members ms \<le> f \<Longrightarrow> ms \<noteq> [] \<Longrightarrow>
     p_members f d (pr_members ms @ CHR ''}'' # r) = Some (map (\<lambda>(k, v). (k, pr v, v)) ms, r)"
proof (induction v and vs and ms arbitrary: d f r and d f r and d f r rule: pr_pr_elems_pr_members.induct)
  case 1
  then show ?case by (cases f) (simp_all add: scan_word_def HasPrefix_def)
next
  case (2 b)
  then show ?case by (cases f) (auto simp: scan_word_def HasPrefix_def)
next
  case (3 t)
  then show ?case by (cases f) (simp_all add: p_value_num delim_not_num del: p_value.simps)
next
  case (4 t)
  then show ?case by (cases f) simp_all
next
  case (5 vs)
  then obtain f' where f: "f = Suc f'" and n: "need_elems vs \<le> f'" by (cases f) auto
  show ?case
  proof (cases vs)
    case Nil
    with 5 f show ?thesis by simp
  next
    case (Cons v ws)
    with 5 have wf: "wf_json (Suc d) v" by simp
    then obtain c t where c: "pr v = c # t" "value_start c" using pr_start [OF wf] by (cases "pr v") auto
    from 5 n Cons have "p_elems f' (Suc d) (pr_elems vs @ CHR '']'' # r) = Some (vs, r)" by simp
    with 5 f Cons c value_start_not [OF c(2)] show ?thesis by auto
  qed
next
  case (6 ms)
  then obtain f' where f: "f = Suc f'" and n: "need_members ms \<le> f'" by (cases f) auto
  show ?case
  proof (cases ms)
    case Nil
    with 6 f show ?thesis by simp
  next
    case (Cons m ws)
    obtain k v where m: "m = (k, v)" by (cases m)
    from 6 n Cons have "p_members f' (Suc d) (pr_members ms @ CHR ''}'' # r) =
        Some (map (\<lambda>(k, v). (k, pr v, v)) ms, r)" by simp
    moreover have "map ((\<lambda>(k, raw, v). (k, v)) \<circ> (\<lambda>(k, v). (k, pr v, v))) ms = ms" for ms :: "(bytes \<times> json) list"
      by (induction ms) auto
    ultimately show ?thesis using "6.prems" f Cons m by auto
  qed
next
  case (8 v vs)
  then obtain f' where f: "f = Suc f'" and n: "need v \<le> f'" "need_elems vs \<le> f'" by (cases f) auto
  from 8 have wf: "wf_json d v" "list_all (wf_json d) vs" by simp_all
  show ?case
  proof (cases "vs = []")
    case True
    with 8(1) [OF wf(1) n(1), of "CHR '']'' # r"] f show ?thesis by simp
  next
    case False
    with 8(1) [OF wf(1) n(1), of "CHR '','' # pr_elems vs @ CHR '']'' # r"] 8(2) [OF _ wf(2) n(2), of r] f
    show ?thesis by simp
  qed
next
  case (10 k v ms)
  then obtain f' where f: "f = Suc f'" and n: "need v \<le> f'" "need_members ms \<le> f'" by (cases f) auto
  from 10 have wf: "wf_str k" "wf_json d v" "list_all (\<lambda>(k, v). wf_str k \<and> wf_json d v) ms" by simp_all
  show ?case
  proof (cases "ms = []")
    case True
    with 10(1) [OF wf(2) n(1), of "CHR ''}'' # r"] f wf(1) show ?thesis
      by (simp add: skip_ws_pr [OF wf(2)] Let_def)
  next
    case False
    with 10(1) [OF wf(2) n(1), of "CHR '','' # pr_members ms @ CHR ''}'' # r"] 10(2) [OF _ wf(3) n(2), of r] f wf(1)
    show ?thesis by (simp add: skip_ws_pr [OF wf(2)] Let_def)
  qed
qed simp_all

theorem parse_json_pr: "wf_json 0 v \<Longrightarrow> parse_json (pr v) = Some v"
  using p_value_print(1) [of 0 v "fuel_for (pr v)" "[]"] need_length(1) [of 0 v]
  by (simp add: parse_json_def fuel_for_def skip_ws_def)

subsection \<open>What the reader accepts is well formed\<close>

lemma p_value_wf:
  "p_value f d s = Some (v, r) \<Longrightarrow> wf_json d v"
  "p_elems f d s = Some (vs, r) \<Longrightarrow> list_all (wf_json d) vs"
  "p_members f d s = Some (ms, r) \<Longrightarrow> list_all (\<lambda>(k, raw, v). wf_str k \<and> wf_json d v) ms"
proof (induction f d s and f d s and f d s arbitrary: v r and vs r and ms r
       rule: p_value_p_elems_p_members.induct)
  case (2 f d s)
  show ?case
  proof (cases "skip_ws s")
    case Nil
    with "2.prems" show ?thesis by simp
  next
    case (Cons c u)
    note P = "2.prems" [simplified p_value.simps Cons list.case]
    consider "c = DQ" | "c = CHR ''[''" | "c = CHR ''{''" | "c \<noteq> DQ" "c \<noteq> CHR ''[''" "c \<noteq> CHR ''{''" by blast
    then show ?thesis
    proof cases
      case 1
      with P show ?thesis by (auto dest!: scan_str_wf)
    next
      case 2
      with "2.IH"(1) [OF Cons] have "p_elems f (Suc d) u = Some (vs, w) \<Longrightarrow> \<not> max_depth \<le> d \<Longrightarrow>
          skip_ws u = c2 # u2 \<Longrightarrow> c2 \<noteq> CHR '']'' \<Longrightarrow> list_all (wf_json (Suc d)) vs" for vs w c2 u2
        by (simp add: not_DQ)
      with 2 P show ?thesis by (auto simp: not_DQ split: if_splits list.splits)
    next
      case 3
      with "2.IH"(2) [OF Cons] have "p_members f (Suc d) u = Some (ms, w) \<Longrightarrow> \<not> max_depth \<le> d \<Longrightarrow>
          skip_ws u = c2 # u2 \<Longrightarrow> c2 \<noteq> CHR ''}'' \<Longrightarrow>
          list_all (\<lambda>(k, raw, v). wf_str k \<and> wf_json (Suc d) v) ms" for ms w c2 u2
        by (simp add: not_DQ)
      with 3 P show ?thesis by (fastforce simp: not_DQ list_all_iff split: if_splits list.splits)
    next
      case 4
      with P show ?thesis by (auto simp: scan_word_def split: if_splits dest!: scan_num_wf)
    qed
  qed
next
  case (4 f d s)
  then show ?case by (auto split: option.splits list.splits if_splits)
next
  case (6 f d s)
  then show ?case
    by (auto simp: Let_def dest!: scan_str_wf split: option.splits list.splits if_splits)
qed simp_all

lemma parse_json_wf: "parse_json s = Some v \<Longrightarrow> wf_json 0 v"
  by (auto simp: parse_json_def dest: p_value_wf(1) split: option.splits if_splits)

subsection \<open>Compaction\<close>

fun esc_json :: "json \<Rightarrow> json" where
  "esc_json (JStr t) = JStr (esc_html t)"
| "esc_json (JArr vs) = JArr (map esc_json vs)"
| "esc_json (JObj ms) = JObj (map (\<lambda>(k, v). (esc_html k, esc_json v)) ms)"
| "esc_json v = v"

definition compact :: "bytes \<Rightarrow> bytes option" where
  "compact s = map_option (\<lambda>v. pr (esc_json v)) (parse_json s)"

lemma wf_esc_json: "wf_json d v \<Longrightarrow> wf_json d (esc_json v)"
proof (induction v arbitrary: d rule: esc_json.induct)
  case (3 ms)
  then show ?case by (fastforce simp: list_all_iff wf_str_esc_html)
qed (auto simp: list_all_iff wf_str_esc_html)

subsection \<open>A printed tree has no control characters\<close>

lemma is_hex_control: "is_hex h \<Longrightarrow> \<not> ord h < 32"
  by (auto simp: is_hex_def hex_val_def between_def split: if_splits)

lemma simple_escape_control: "simple_escape x \<noteq> None \<Longrightarrow> \<not> ord x < 32"
  by (auto simp: simple_escape_def split: if_splits)

lemma elem_controls:
  assumes "elem_len e = length e" and "c \<in> set e"
  shows "\<not> ord c < 32"
proof -
  from assms(2) have "e \<noteq> []" by auto
  with assms(1) elem_len_cases [of e] consider "length e = Suc 0" | "length e = 2" | "length e = 6" by auto
  then show ?thesis
  proof cases
    case 1
    with assms show ?thesis by (auto simp: elem_len_iff length_Suc_conv)
  next
    case 2
    then obtain b x where e: "e = [b, x]" by (auto simp: length_Suc_conv numeral_2_eq_2)
    from assms(1) 2 have "elem_len e = 2" by simp
    then have "b = BS" "simple_escape x \<noteq> None" unfolding elem_len_iff using e by simp_all
    with e assms(2) simple_escape_control [of x] show ?thesis by auto
  next
    case 3
    then obtain u v h1 h2 h3 h4 where e: "e = [u, v, h1, h2, h3, h4]"
      by (auto simp: length_Suc_conv eval_nat_numeral)
    from assms(1) 3 have "elem_len e = 6" by simp
    then have "u = BS" "v = CHR ''u''" "is_hex h1" "is_hex h2" "is_hex h3" "is_hex h4"
      unfolding elem_len_iff using e by simp_all
    with e assms(2) is_hex_control show ?thesis by auto
  qed
qed

lemma wf_str_controls: "wf_str t \<Longrightarrow> c \<in> set t \<Longrightarrow> \<not> ord c < 32"
  by (induction rule: wf_str_induct) (auto dest: elem_controls)

lemma pr_controls:
  "wf_json d v \<Longrightarrow> c \<in> set (pr v) \<Longrightarrow> \<not> ord c < 32"
  "list_all (wf_json d) vs \<Longrightarrow> c \<in> set (pr_elems vs) \<Longrightarrow> \<not> ord c < 32"
  "list_all (\<lambda>(k, v). wf_str k \<and> wf_json d v) ms \<Longrightarrow> c \<in> set (pr_members ms) \<Longrightarrow> \<not> ord c < 32"
proof (induction v and vs and ms arbitrary: d and d and d rule: pr_pr_elems_pr_members.induct)
  case (3 t)
  then show ?case by (auto dest!: wf_num_chars simp: is_digit_def)
next
  case (4 t)
  then show ?case by (auto dest: wf_str_controls)
next
  case (10 k v ms)
  then show ?case by (auto dest: wf_str_controls split: if_splits)
qed (fastforce split: if_splits)+

end
