(* ===== verification/Gotime.thy ===== *)
theory Gotime
  imports Go_Strings "HOL-Library.Monad_Syntax"
begin

text \<open>
  \<open>time.Time\<close> as the gateway stores it in JSON: the calendar fields and the zone offset, which is
  what \<open>Time.MarshalJSON\<close> prints (RFC 3339 with a trimmed fraction) and \<open>Time.UnmarshalJSON\<close>
  reads back. The monotonic clock reading is not part of the model: marshalling drops it.
\<close>

record gotime =
  tm_year :: nat
  tm_month :: nat
  tm_day :: nat
  tm_hour :: nat
  tm_min :: nat
  tm_sec :: nat
  tm_nsec :: nat
  tm_zone :: int   \<comment> \<open>minutes east of UTC\<close>

text \<open>\<open>time.Time{}\<close>: January 1, year 1, 00:00:00 UTC.\<close>

definition zero_time :: gotime where
  "zero_time = \<lparr>tm_year = 1, tm_month = 1, tm_day = 1, tm_hour = 0, tm_min = 0, tm_sec = 0,
     tm_nsec = 0, tm_zone = 0\<rparr>"

definition leap :: "nat \<Rightarrow> bool" where
  "leap y \<longleftrightarrow> 4 dvd y \<and> (\<not> 100 dvd y \<or> 400 dvd y)"

definition days_in :: "nat \<Rightarrow> nat \<Rightarrow> nat" where
  "days_in m y =
     (if m = 2 then (if leap y then 29 else 28)
      else if m = 4 \<or> m = 6 \<or> m = 9 \<or> m = 11 then 30 else 31)"

text \<open>What holds of every time Go's clock and calendar produce.\<close>

definition civil :: "gotime \<Rightarrow> bool" where
  "civil t \<longleftrightarrow> 1 \<le> tm_month t \<and> tm_month t \<le> 12 \<and> 1 \<le> tm_day t \<and> tm_day t \<le> days_in (tm_month t) (tm_year t)
     \<and> tm_hour t < 24 \<and> tm_min t < 60 \<and> tm_sec t < 60 \<and> tm_nsec t < 10 ^ 9"

lemma civil_zero_time: "civil zero_time"
  by (simp add: civil_def zero_time_def days_in_def)

subsection \<open>Printing\<close>

definition pad :: "nat \<Rightarrow> nat \<Rightarrow> bytes" where
  "pad w n = zero_pad w (itoa n)"

definition trim_zeros :: "bytes \<Rightarrow> bytes" where
  "trim_zeros s = rev (dropWhile (\<lambda>c. c = CHR ''0'') (rev s))"

definition pr_frac :: "nat \<Rightarrow> bytes" where
  "pr_frac n = (if n = 0 then [] else CHR ''.'' # trim_zeros (pad 9 n))"

definition pr_zone :: "int \<Rightarrow> bytes" where
  "pr_zone z =
     (if z = 0 then ''Z''
      else (if z < 0 then CHR ''-'' else CHR ''+'') # pad 2 (nat \<bar>z\<bar> div 60) @ CHR '':'' # pad 2 (nat \<bar>z\<bar> mod 60))"

definition pr_time :: "gotime \<Rightarrow> bytes" where
  "pr_time t = pad 4 (tm_year t) @ CHR ''-'' # pad 2 (tm_month t) @ CHR ''-'' # pad 2 (tm_day t)
     @ CHR ''T'' # pad 2 (tm_hour t) @ CHR '':'' # pad 2 (tm_min t) @ CHR '':'' # pad 2 (tm_sec t)
     @ pr_frac (tm_nsec t) @ pr_zone (tm_zone t)"

text \<open>\<open>MarshalJSON\<close> rejects a year of five digits and a zone of a day or more.\<close>

definition marshal_time :: "gotime \<Rightarrow> bytes option" where
  "marshal_time t = (if tm_year t \<le> 9999 \<and> nat \<bar>tm_zone t\<bar> div 60 < 24 then Some (pr_time t) else None)"

subsection \<open>Reading\<close>

definition fixed :: "nat \<Rightarrow> nat \<Rightarrow> nat \<Rightarrow> bytes \<Rightarrow> (nat \<times> bytes) option" where
  "fixed w lo hi s =
     (let p = take w s
      in if length p = w \<and> list_all is_digit p \<and> lo \<le> digits_value p \<and> digits_value p \<le> hi
         then Some (digits_value p, drop w s) else None)"

definition lit :: "char \<Rightarrow> bytes \<Rightarrow> bytes option" where
  "lit c s = (case s of [] \<Rightarrow> None | x # r \<Rightarrow> if x = c then Some r else None)"

text \<open>The fraction: the digits beyond the ninth are read and dropped.\<close>

definition rd_frac :: "bytes \<Rightarrow> nat \<times> bytes" where
  "rd_frac s =
     (case s of
        c # d # r \<Rightarrow>
          if c = CHR ''.'' \<and> is_digit d
          then let p = takeWhile is_digit (d # r); q = take 9 p
               in (digits_value q * 10 ^ (9 - length q), dropWhile is_digit (d # r))
          else (0, s)
      | _ \<Rightarrow> (0, s))"

definition rd_zone :: "bytes \<Rightarrow> int option" where
  "rd_zone s =
     (if s = ''Z'' then Some 0
      else case s of
        [] \<Rightarrow> None
      | c # r \<Rightarrow>
          if c = CHR ''+'' \<or> c = CHR ''-'' then
            do { (h, s1) \<leftarrow> fixed 2 0 23 r;
                 s2 \<leftarrow> lit (CHR '':'') s1;
                 (m, s3) \<leftarrow> fixed 2 0 59 s2;
                 if s3 = [] then Some ((if c = CHR ''-'' then - 1 else 1) * int (60 * h + m)) else None }
          else None)"

definition rd_time :: "bytes \<Rightarrow> gotime option" where
  "rd_time s0 =
     do { (y, s1) \<leftarrow> fixed 4 0 9999 s0; s1 \<leftarrow> lit (CHR ''-'') s1;
          (mo, s2) \<leftarrow> fixed 2 1 12 s1; s2 \<leftarrow> lit (CHR ''-'') s2;
          (d, s3) \<leftarrow> fixed 2 1 (days_in mo y) s2; s3 \<leftarrow> lit (CHR ''T'') s3;
          (h, s4) \<leftarrow> fixed 2 0 23 s3; s4 \<leftarrow> lit (CHR '':'') s4;
          (mi, s5) \<leftarrow> fixed 2 0 59 s4; s5 \<leftarrow> lit (CHR '':'') s5;
          (sec, s6) \<leftarrow> fixed 2 0 59 s5;
          let (ns, s7) = rd_frac s6;
          z \<leftarrow> rd_zone s7;
          Some \<lparr>tm_year = y, tm_month = mo, tm_day = d, tm_hour = h, tm_min = mi, tm_sec = sec,
                tm_nsec = ns, tm_zone = z\<rparr> }"

subsection \<open>Round trip\<close>

lemma itoa_length: "0 < k \<Longrightarrow> n < 10 ^ k \<Longrightarrow> length (itoa n) \<le> k"
proof (induction n arbitrary: k rule: itoa.induct)
  case (1 n)
  show ?case
  proof (cases "n < 10")
    case True
    with 1 show ?thesis by (subst itoa.simps) simp
  next
    case False
    with 1 obtain j where k: "k = Suc j" "0 < j" by (cases k; cases "k - 1") auto
    with 1 False have "length (itoa (n div 10)) \<le> j" by simp
    with False k show ?thesis by (subst itoa.simps) simp
  qed
qed

lemma length_pad [simp]: "0 < w \<Longrightarrow> n < 10 ^ w \<Longrightarrow> length (pad w n) = w"
  using itoa_length [of w n] by (simp add: pad_def zero_pad_def)

lemma pad_digits [simp]: "list_all is_digit (pad w n)"
  by (simp add: pad_def zero_pad_digits itoa_digits)

lemma digits_value_pad [simp]: "digits_value (pad w n) = n"
  by (simp add: pad_def)

lemma fixed_pad [simp]:
  "0 < w \<Longrightarrow> n < 10 ^ w \<Longrightarrow> lo \<le> n \<Longrightarrow> n \<le> hi \<Longrightarrow> fixed w lo hi (pad w n @ r) = Some (n, r)"
  by (simp add: fixed_def Let_def)

lemma lit_Cons [simp]: "lit c (c # r) = Some r"
  by (simp add: lit_def)

lemma digits_value_zeros: "digits_value (s @ replicate k (CHR ''0'')) = digits_value s * 10 ^ k"
proof (induction k)
  case (Suc k)
  have "s @ replicate (Suc k) (CHR ''0'') = (s @ replicate k (CHR ''0'')) @ [CHR ''0'']"
    by (simp add: replicate_append_same)
  then show ?case using Suc by (simp only: digits_value_snoc) (simp add: digit_val_def)
qed simp

lemma trim_zeros_split: "\<exists>k. s = trim_zeros s @ replicate k (CHR ''0'')"
proof -
  let ?P = "\<lambda>c. c = CHR ''0''"
  have "takeWhile ?P (rev s) = replicate (length (takeWhile ?P (rev s))) (CHR ''0'')"
    by (rule replicate_length_same [symmetric]) (auto dest: set_takeWhileD)
  then have "rev s = replicate (length (takeWhile ?P (rev s))) (CHR ''0'') @ dropWhile ?P (rev s)"
    by (metis takeWhile_dropWhile_id)
  then have "s = trim_zeros s @ replicate (length (takeWhile ?P (rev s))) (CHR ''0'')"
    unfolding trim_zeros_def by (metis rev_append rev_replicate rev_rev_ident)
  then show ?thesis by blast
qed

lemma rd_frac_pr_frac:
  assumes "n < 10 ^ 9" and "r = [] \<or> \<not> is_digit (hd r) \<and> hd r \<noteq> CHR ''.''"
  shows "rd_frac (pr_frac n @ r) = (n, r)"
proof (cases "n = 0")
  case True
  with assms(2) show ?thesis by (cases r) (auto simp: rd_frac_def pr_frac_def split: list.splits)
next
  case False
  let ?t = "trim_zeros (pad 9 n)"
  obtain k where k: "pad 9 n = ?t @ replicate k (CHR ''0'')" using trim_zeros_split by blast
  have len: "length ?t + k = 9" using arg_cong [OF k, of length] assms(1) by simp
  have dig: "list_all is_digit ?t" using pad_digits [of 9 n] by (subst (asm) k) simp
  have val: "digits_value ?t * 10 ^ k = n" using arg_cong [OF k, of digits_value] by (simp add: digits_value_zeros)
  with False have "?t \<noteq> []" by (auto simp: digits_value_def)
  then obtain d u where t: "?t = d # u" by (cases ?t) auto
  have tw: "takeWhile is_digit (?t @ r) = ?t" "dropWhile is_digit (?t @ r) = r"
    using dig assms(2) by (cases r; simp add: takeWhile_append dropWhile_append list_all_iff)+
  have "9 - length ?t = k" using len by simp
  with False dig val len tw t show ?thesis by (simp add: rd_frac_def pr_frac_def Let_def)
qed

lemma rd_zone_pr_zone: "nat \<bar>z\<bar> div 60 < 24 \<Longrightarrow> rd_zone (pr_zone z) = Some z"
  using fixed_pad [of 2 "nat \<bar>z\<bar> mod 60" 0 59 "[]"]
  by (auto simp: rd_zone_def pr_zone_def mult.commute [of 60])

lemma pr_zone_hd: "pr_zone z \<noteq> [] \<and> \<not> is_digit (hd (pr_zone z)) \<and> hd (pr_zone z) \<noteq> CHR ''.''"
  by (simp add: pr_zone_def is_digit_def)

lemma rd_time_pr_time:
  assumes "civil t" and "marshal_time t = Some s"
  shows "rd_time s = Some t"
proof -
  from assms(2) have s: "s = pr_time t" and y: "tm_year t \<le> 9999" and z: "nat \<bar>tm_zone t\<bar> div 60 < 24"
    by (auto simp: marshal_time_def split: if_splits)
  have "days_in (tm_month t) (tm_year t) < 100" by (simp add: days_in_def)
  with assms(1) y z show ?thesis
    by (simp add: s pr_time_def rd_time_def civil_def rd_frac_pr_frac pr_zone_hd rd_zone_pr_zone)
qed

lemma pad_chars: "c \<in> set (pad w n) \<Longrightarrow> is_digit c"
  using pad_digits [of w n] by (simp add: list_all_iff)

lemma trim_zeros_chars: "c \<in> set (trim_zeros s) \<Longrightarrow> c \<in> set s"
  by (auto simp: trim_zeros_def dest: set_dropWhileD)

lemma pr_time_chars: "c \<in> set (pr_time t) \<Longrightarrow> is_digit c \<or> c \<in> set ''-T:.Z+''"
  by (auto simp: pr_time_def pr_frac_def pr_zone_def dest: pad_chars dest!: trim_zeros_chars split: if_splits)

end
