(* ===== verification/Decode.thy ===== *)
theory Decode
  imports Json Gotime
begin

text \<open>
  \<open>json.Unmarshal\<close> into a struct: the members of the object in order, each stored by the field
  its key names (an exact match first, then one under case folding, as \<open>foldName\<close> computes it),
  unknown keys skipped, the later of two equal keys winning. \<open>None\<close> stands for every error:
  no caller in the gateway looks at what was decoded before the error.
\<close>

type_synonym 'a field = "bytes \<times> ('a \<Rightarrow> bytes \<Rightarrow> json \<Rightarrow> 'a option)"

text \<open>
  Under \<open>foldName\<close> ASCII letters go to upper case; of the other code points only the long s
  (bytes C5 BF) and the Kelvin sign (bytes E2 84 AA) fold to ASCII, so that no other one can
  equal the ASCII name of a field.
\<close>

definition upper_char :: "char \<Rightarrow> char" where
  "upper_char c = (if between 97 c 122 then char_of (ord c - 32) else c)"

fun fold_name :: "bytes \<Rightarrow> bytes" where
  "fold_name (a # b # c # s) =
     (if a = CHR 0xE2 \<and> b = CHR 0x84 \<and> c = CHR 0xAA then CHR ''K'' # fold_name s
      else if a = CHR 0xC5 \<and> b = CHR 0xBF then CHR ''S'' # fold_name (c # s)
      else upper_char a # fold_name (b # c # s))"
| "fold_name [a, b] =
     (if a = CHR 0xC5 \<and> b = CHR 0xBF then [CHR ''S''] else [upper_char a, upper_char b])"
| "fold_name [a] = [upper_char a]"
| "fold_name [] = []"

definition find_field :: "'a field list \<Rightarrow> bytes \<Rightarrow> ('a \<Rightarrow> bytes \<Rightarrow> json \<Rightarrow> 'a option) option" where
  "find_field fs key =
     (case map_of fs key of
        Some store \<Rightarrow> Some store
      | None \<Rightarrow> map_option snd (find (\<lambda>f. fold_name (fst f) = fold_name key) fs))"

fun store_members :: "'a field list \<Rightarrow> (bytes \<times> bytes \<times> json) list \<Rightarrow> 'a \<Rightarrow> 'a option" where
  "store_members fs [] x = Some x"
| "store_members fs ((k, raw, v) # ms) x =
     (case find_field fs (unquote k) of
        None \<Rightarrow> store_members fs ms x
      | Some store \<Rightarrow> Option.bind (store x raw v) (store_members fs ms))"

text \<open>The members of a top-level object, each with its raw text.\<close>

definition top_members :: "bytes \<Rightarrow> (bytes \<times> bytes \<times> json) list option" where
  "top_members s =
     (case skip_ws s of
        [] \<Rightarrow> None
      | c # r \<Rightarrow>
          if c \<noteq> CHR ''{'' then None
          else case skip_ws r of
            [] \<Rightarrow> None
          | c2 # r2 \<Rightarrow> if c2 = CHR ''}'' then Some [] else map_option fst (p_members (fuel_for s - 1) 1 r))"

definition unmarshal_struct :: "'a field list \<Rightarrow> 'a \<Rightarrow> bytes \<Rightarrow> 'a option" where
  "unmarshal_struct fs x s =
     (case parse_json s of
        None \<Rightarrow> None
      | Some JNull \<Rightarrow> Some x
      | Some (JObj _) \<Rightarrow> Option.bind (top_members s) (\<lambda>ms. store_members fs ms x)
      | Some _ \<Rightarrow> None)"

subsection \<open>How each kind of field stores a value\<close>

definition str_field :: "(bytes \<Rightarrow> 'a \<Rightarrow> 'a) \<Rightarrow> 'a \<Rightarrow> bytes \<Rightarrow> json \<Rightarrow> 'a option" where
  "str_field set_f x raw v =
     (case v of JStr t \<Rightarrow> Some (set_f (unquote t) x) | JNull \<Rightarrow> Some x | _ \<Rightarrow> None)"

definition raw_field :: "(bytes option \<Rightarrow> 'a \<Rightarrow> 'a) \<Rightarrow> 'a \<Rightarrow> bytes \<Rightarrow> json \<Rightarrow> 'a option" where
  "raw_field set_f x raw v = Some (set_f (Some raw) x)"

definition uint64_field :: "(64 word \<Rightarrow> 'a \<Rightarrow> 'a) \<Rightarrow> 'a \<Rightarrow> bytes \<Rightarrow> json \<Rightarrow> 'a option" where
  "uint64_field set_f x raw v =
     (case v of
        JNum t \<Rightarrow> (case parse_digits t of
                     Some n \<Rightarrow> if n < 2 ^ 64 then Some (set_f (of_nat n) x) else None
                   | None \<Rightarrow> None)
      | JNull \<Rightarrow> Some x
      | _ \<Rightarrow> None)"

definition time_field :: "(gotime \<Rightarrow> 'a \<Rightarrow> 'a) \<Rightarrow> 'a \<Rightarrow> bytes \<Rightarrow> json \<Rightarrow> 'a option" where
  "time_field set_f x raw v =
     (case v of JStr t \<Rightarrow> map_option (\<lambda>tm. set_f tm x) (rd_time t) | JNull \<Rightarrow> Some x | _ \<Rightarrow> None)"

subsection \<open>Reading a printed object back\<close>

lemma top_members_pr:
  assumes "wf_json 0 (JObj ms)"
  shows "top_members (pr (JObj ms)) = Some (map (\<lambda>(k, v). (k, pr v, v)) ms)"
proof (cases ms)
  case Nil
  then show ?thesis by (simp add: top_members_def skip_ws_def is_space_def)
next
  case (Cons m ms')
  obtain k v where m: "m = (k, v)" by (cases m)
  let ?s = "pr (JObj ms)"
  from assms have wf: "list_all (\<lambda>(k, v). wf_str k \<and> wf_json (Suc 0) v) ms" by simp
  have "need (JObj ms) \<le> fuel_for ?s" using need_length(1) [OF assms] by (simp add: fuel_for_def)
  then have n: "need_members ms \<le> fuel_for ?s - 1" by simp
  have "p_members (fuel_for ?s - 1) (Suc 0) (pr_members ms @ CHR ''}'' # []) =
      Some (map (\<lambda>(k, v). (k, pr v, v)) ms, [])"
    by (rule p_value_print(3)) (use wf n Cons in simp_all)
  moreover have "skip_ws (pr_members ms @ [CHR ''}'']) = pr_members ms @ [CHR ''}'']"
    by (simp add: Cons m skip_ws_def is_space_def)
  ultimately show ?thesis by (simp add: top_members_def Cons m skip_ws_def is_space_def not_DQ)
qed

lemma unmarshal_struct_pr:
  "wf_json 0 (JObj ms) \<Longrightarrow>
   unmarshal_struct fs x (pr (JObj ms)) = store_members fs (map (\<lambda>(k, v). (k, pr v, v)) ms) x"
  unfolding unmarshal_struct_def parse_json_pr top_members_pr by simp

lemma uint64_field_itoa [simp]:
  "uint64_field set_f x raw (JNum (itoa (unat n))) = Some (set_f n x)"
  using unsigned_less [of n] by (simp add: uint64_field_def parse_digits_def itoa_digits)

lemma str_field_quote [simp]: "str_field set_f x raw (JStr (quote_body s)) = Some (set_f (to_valid s) x)"
  by (simp add: str_field_def unquote_quote_body)

lemma itoa_head: "0 < n \<Longrightarrow> hd (itoa n) \<noteq> CHR ''0''"
proof (induction n rule: itoa.induct)
  case (1 n)
  show ?case
  proof (cases "n < 10")
    case True
    have "digit_char n \<noteq> CHR ''0''"
      using True "1.prems" digit_val_digit_char [of n] by (auto simp: digit_val_def simp del: digit_val_digit_char)
    with True show ?thesis by (subst itoa.simps) simp
  next
    case False
    with 1 show ?thesis by (subst itoa.simps) simp
  qed
qed

lemma wf_num_itoa [simp]: "wf_num (itoa n)"
proof -
  obtain c r where cr: "itoa n = c # r" by (cases "itoa n") auto
  with itoa_digits [of n] have d: "is_digit c" "list_all is_digit r" by simp_all
  then have "c \<noteq> CHR ''-''" by (auto simp: is_digit_def)
  moreover have "c = CHR ''0'' \<Longrightarrow> r = []"
    using itoa_head [of n] cr by (cases "n = 0") (auto simp: itoa.simps [of 0])
  moreover have "scan_digits (c # r) = (c # r, [])"
    using d scan_digits_app [of "c # r" "[]"] by (simp add: no_digit_def)
  ultimately show ?thesis
    using d by (auto simp: wf_num_def cr scan_num_def scan_int_def scan_frac_def scan_exp_def)
qed

lemma wf_str_plain_list:
  "(\<And>c. c \<in> set t \<Longrightarrow> c \<noteq> DQ \<and> c \<noteq> BS \<and> \<not> ord c < 32) \<Longrightarrow> wf_str t"
  by (induction t) (auto intro!: wf_str_plain)

lemma wf_str_time [simp]: "wf_str (pr_time t)"
  by (rule wf_str_plain_list, drule pr_time_chars) (auto simp: is_digit_def DQ_def BS_def)

end
