(* ===== verification/Message.thy ===== *)
theory Message
  imports Decode
begin

text \<open>
  \<open>internal/message/message.go\<close>: the message, the upload request and response, the envelope of
  the sinks, and the two \<open>sync.Pool\<close>s. A \<open>*Message\<close> is an address; the heap maps the addresses
  in use to what they hold, and the pool is the list of addresses that were put back.
  \<open>Pool.Get\<close> may return any pooled object or a new one: which one is an argument of the model.
\<close>

subsection \<open>Data\<close>

record Message =
  msg_RequestID :: bytes
  msg_TraceID :: bytes
  msg_Project :: bytes
  msg_Router :: bytes
  msg_Data :: "bytes option"               \<comment> \<open>\<open>None\<close> is the nil slice\<close>
  msg_Env :: bytes
  msg_Headers :: "bytes \<rightharpoonup> bytes"
  msg_Timestamp :: gotime

record UploadRequest =
  req_Project :: bytes
  req_Router :: bytes
  req_Data :: "bytes option"

record UploadResponse =
  resp_Code :: int
  resp_Message :: bytes
  resp_RequestID :: bytes
  resp_TraceID :: bytes

record GatewayMeta =
  meta_RequestID :: bytes
  meta_TraceID :: bytes
  meta_ReceivedAt :: gotime
  meta_Env :: bytes

record Envelope =
  env_GatewayMeta :: GatewayMeta
  env_Project :: bytes
  env_Router :: bytes
  env_Data :: "bytes option"

definition empty_message :: Message where
  "empty_message = \<lparr>msg_RequestID = [], msg_TraceID = [], msg_Project = [], msg_Router = [],
     msg_Data = None, msg_Env = [], msg_Headers = Map.empty, msg_Timestamp = zero_time\<rparr>"

definition zero_meta :: GatewayMeta where
  "zero_meta = \<lparr>meta_RequestID = [], meta_TraceID = [], meta_ReceivedAt = zero_time, meta_Env = []\<rparr>"

definition empty_envelope :: Envelope where
  "empty_envelope = \<lparr>env_GatewayMeta = zero_meta, env_Project = [], env_Router = [], env_Data = None\<rparr>"

definition upload_fields :: "UploadRequest field list" where
  "upload_fields =
     [(''project'', str_field (\<lambda>s. req_Project_update (\<lambda>_. s))),
      (''router'', str_field (\<lambda>s. req_Router_update (\<lambda>_. s))),
      (''data'', raw_field (\<lambda>d. req_Data_update (\<lambda>_. d)))]"

definition unmarshal_upload :: "bytes \<Rightarrow> UploadRequest option" where
  "unmarshal_upload s =
     unmarshal_struct upload_fields \<lparr>req_Project = [], req_Router = [], req_Data = None\<rparr> s"

subsection \<open>The message pool\<close>

type_synonym addr = nat

record msg_heap =
  hp_mem :: "addr \<rightharpoonup> Message"
  hp_free :: "addr list"
  hp_next :: addr

definition empty_heap :: msg_heap where
  "empty_heap = \<lparr>hp_mem = Map.empty, hp_free = [], hp_next = 0\<rparr>"

text \<open>
  \<open>AcquireMessage\<close>: with \<open>pick = Some i\<close> and a pooled object at position \<open>i\<close> the pool hands that
  one out, otherwise its \<open>New\<close> function runs.
\<close>

definition AcquireMessage :: "nat option \<Rightarrow> msg_heap \<Rightarrow> addr \<times> msg_heap" where
  "AcquireMessage pick h =
     (case pick of
        Some i \<Rightarrow>
          if i < length (hp_free h)
          then (hp_free h ! i, h\<lparr>hp_free := take i (hp_free h) @ drop (Suc i) (hp_free h)\<rparr>)
          else (hp_next h, h\<lparr>hp_mem := (hp_mem h)(hp_next h \<mapsto> empty_message), hp_next := Suc (hp_next h)\<rparr>)
      | None \<Rightarrow> (hp_next h, h\<lparr>hp_mem := (hp_mem h)(hp_next h \<mapsto> empty_message), hp_next := Suc (hp_next h)\<rparr>))"

text \<open>\<open>ReleaseMessage\<close>: nil is ignored; every field is cleared before the object is pooled.\<close>

definition clear_message :: "Message \<Rightarrow> Message" where
  "clear_message m =
     m\<lparr>msg_RequestID := [], msg_TraceID := [], msg_Project := [], msg_Router := [], msg_Data := None,
       msg_Env := [], msg_Headers := (\<lambda>k. if k \<in> dom (msg_Headers m) then None else msg_Headers m k),
       msg_Timestamp := zero_time\<rparr>"

definition ReleaseMessage :: "addr option \<Rightarrow> msg_heap \<Rightarrow> msg_heap" where
  "ReleaseMessage p h =
     (case p of
        None \<Rightarrow> h
      | Some a \<Rightarrow>
          (case hp_mem h a of
             None \<Rightarrow> h
           | Some m \<Rightarrow> h\<lparr>hp_mem := (hp_mem h)(a \<mapsto> clear_message m), hp_free := a # hp_free h\<rparr>))"

lemma clear_message [simp]: "clear_message m = empty_message"
  by (cases m) (auto simp: clear_message_def empty_message_def)

text \<open>
  The pool's invariant: the pooled addresses are distinct and hold cleared messages, and new
  addresses are above those in use. \<open>live\<close> is the set of addresses somebody owns.
\<close>

definition live :: "msg_heap \<Rightarrow> addr set" where
  "live h = dom (hp_mem h) - set (hp_free h)"

definition heap_ok :: "msg_heap \<Rightarrow> bool" where
  "heap_ok h \<longleftrightarrow> distinct (hp_free h) \<and> (\<forall>a\<in>set (hp_free h). hp_mem h a = Some empty_message)
     \<and> (\<forall>a\<in>dom (hp_mem h). a < hp_next h)"

lemma heap_ok_empty: "heap_ok empty_heap"
  by (simp add: heap_ok_def empty_heap_def)

lemma live_empty [simp]: "live empty_heap = {}"
  by (simp add: live_def empty_heap_def)

text \<open>An acquired message is cleared, nobody else owns it, and what others own is unchanged.\<close>

lemma drop_nth_facts:
  assumes "distinct xs" and "i < length xs"
  shows "distinct (take i xs @ drop (Suc i) xs)" and "set (take i xs @ drop (Suc i) xs) = set xs - {xs ! i}"
proof -
  from assms(2) have x: "xs = take i xs @ xs ! i # drop (Suc i) xs" by (rule id_take_nth_drop)
  from assms(1) have d: "distinct (take i xs @ xs ! i # drop (Suc i) xs)" using x by simp
  then show "distinct (take i xs @ drop (Suc i) xs)" by simp
  have "set xs = set (take i xs @ xs ! i # drop (Suc i) xs)" using x by simp
  with d show "set (take i xs @ drop (Suc i) xs) = set xs - {xs ! i}" by auto
qed

lemma AcquireMessage_ok:
  assumes "heap_ok h" and "AcquireMessage pick h = (a, h')"
  shows "heap_ok h'" and "a \<notin> live h" and "live h' = insert a (live h)"
    and "hp_mem h' a = Some empty_message" and "\<And>b. b \<in> live h \<Longrightarrow> hp_mem h' b = hp_mem h b"
proof -
  have "heap_ok h' \<and> a \<notin> live h \<and> live h' = insert a (live h) \<and> hp_mem h' a = Some empty_message
      \<and> (\<forall>b\<in>live h. hp_mem h' b = hp_mem h b)"
  proof (cases "\<exists>i. pick = Some i \<and> i < length (hp_free h)")
    case True
    then obtain i where i: "pick = Some i" "i < length (hp_free h)" by blast
    with assms have a: "a = hp_free h ! i" and h': "h' = h\<lparr>hp_free := take i (hp_free h) @ drop (Suc i) (hp_free h)\<rparr>"
      by (auto simp: AcquireMessage_def)
    have "a \<in> set (hp_free h)" using a i by simp
    with assms(1) have "hp_mem h a = Some empty_message" by (simp add: heap_ok_def)
    with \<open>a \<in> set (hp_free h)\<close> assms(1) drop_nth_facts [of "hp_free h" i] i(2) show ?thesis
      by (auto simp: h' heap_ok_def live_def a)
  next
    case False
    with assms(2) have "a = hp_next h"
      and h': "h' = h\<lparr>hp_mem := (hp_mem h)(hp_next h \<mapsto> empty_message), hp_next := Suc (hp_next h)\<rparr>"
      by (auto simp: AcquireMessage_def split: option.splits if_splits)
    moreover from assms(1) have "hp_next h \<notin> dom (hp_mem h)" "hp_next h \<notin> set (hp_free h)"
      by (auto simp: heap_ok_def)
    ultimately show ?thesis using assms(1) by (auto simp: heap_ok_def live_def less_Suc_eq)
  qed
  then show "heap_ok h'" "a \<notin> live h" "live h' = insert a (live h)" "hp_mem h' a = Some empty_message"
    "\<And>b. b \<in> live h \<Longrightarrow> hp_mem h' b = hp_mem h b" by auto
qed

text \<open>
  A release by the owner gives the message up once and for all; a release of a message that is
  already pooled puts its address in the pool a second time, so that two later \<open>AcquireMessage\<close>
  calls may return the same object.
\<close>

lemma ReleaseMessage_ok:
  assumes "heap_ok h" and "a \<in> live h"
  shows "heap_ok (ReleaseMessage (Some a) h)" and "live (ReleaseMessage (Some a) h) = live h - {a}"
    and "\<And>b. b \<noteq> a \<Longrightarrow> hp_mem (ReleaseMessage (Some a) h) b = hp_mem h b"
  using assms by (auto simp: ReleaseMessage_def heap_ok_def live_def split: if_splits)

lemma ReleaseMessage_nil [simp]: "ReleaseMessage None h = h"
  by (simp add: ReleaseMessage_def)

lemma double_release_breaks_pool:
  "heap_ok h \<Longrightarrow> a \<in> live h \<Longrightarrow> \<not> heap_ok (ReleaseMessage (Some a) (ReleaseMessage (Some a) h))"
  by (auto simp: ReleaseMessage_def heap_ok_def live_def)

text \<open>The owner fills in the fields of a message it holds.\<close>

definition put_message :: "addr \<Rightarrow> Message \<Rightarrow> msg_heap \<Rightarrow> msg_heap" where
  "put_message a m h = h\<lparr>hp_mem := (hp_mem h)(a \<mapsto> m)\<rparr>"

lemma put_message_ok:
  assumes "heap_ok h" and "a \<in> live h"
  shows "heap_ok (put_message a m h)" and "live (put_message a m h) = live h"
    and "hp_mem (put_message a m h) a = Some m" and "\<And>b. b \<noteq> a \<Longrightarrow> hp_mem (put_message a m h) b = hp_mem h b"
  using assms by (auto simp: put_message_def heap_ok_def live_def)

subsection \<open>The envelope pool\<close>

text \<open>\<open>AcquireEnvelope\<close> and \<open>ReleaseEnvelope\<close>, on the list of pooled envelopes.\<close>

definition AcquireEnvelope :: "nat option \<Rightarrow> Envelope list \<Rightarrow> Envelope \<times> Envelope list" where
  "AcquireEnvelope pick fl =
     (case pick of
        Some i \<Rightarrow> if i < length fl then (fl ! i, take i fl @ drop (Suc i) fl) else (empty_envelope, fl)
      | None \<Rightarrow> (empty_envelope, fl))"

definition ReleaseEnvelope :: "Envelope \<Rightarrow> Envelope list \<Rightarrow> Envelope list" where
  "ReleaseEnvelope e fl =
     e\<lparr>env_GatewayMeta := zero_meta, env_Project := [], env_Router := [], env_Data := None\<rparr> # fl"

definition envelopes_ok :: "Envelope list \<Rightarrow> bool" where
  "envelopes_ok fl \<longleftrightarrow> (\<forall>e\<in>set fl. e = empty_envelope)"

lemma AcquireEnvelope_ok:
  assumes "envelopes_ok fl" and "AcquireEnvelope pick fl = (e, fl')"
  shows "envelopes_ok fl'" and "e = empty_envelope"
  using assms by (auto simp: envelopes_ok_def AcquireEnvelope_def split: option.splits if_splits
    dest!: in_set_takeD in_set_dropD)

lemma ReleaseEnvelope_ok: "envelopes_ok fl \<Longrightarrow> envelopes_ok (ReleaseEnvelope e fl)"
  by (cases e) (simp add: envelopes_ok_def ReleaseEnvelope_def empty_envelope_def)

end
