(* ===== verification/Wal_Entry.thy ===== *)
theory Wal_Entry
  imports Message
begin

text \<open>
  The record of the write-ahead log (\<open>Entry\<close> of \<open>internal/wal/wal.go\<close>) and its JSON text: what
  \<open>json.Marshal\<close> writes into a segment and what \<open>json.Unmarshal\<close> reads back at replay.
\<close>

record Entry =
  ent_Sequence :: "64 word"
  ent_Project :: bytes
  ent_Router :: bytes
  ent_Data :: "bytes option"
  ent_RequestID :: bytes
  ent_TraceID :: bytes
  ent_Timestamp :: gotime
  ent_Env :: bytes

definition zero_entry :: Entry where
  "zero_entry = \<lparr>ent_Sequence = 0, ent_Project = [], ent_Router = [], ent_Data = None,
     ent_RequestID = [], ent_TraceID = [], ent_Timestamp = zero_time, ent_Env = []\<rparr>"

definition entry_fields :: "Entry field list" where
  "entry_fields =
     [(''seq'', uint64_field (\<lambda>n. ent_Sequence_update (\<lambda>_. n))),
      (''project'', str_field (\<lambda>s. ent_Project_update (\<lambda>_. s))),
      (''router'', str_field (\<lambda>s. ent_Router_update (\<lambda>_. s))),
      (''data'', raw_field (\<lambda>d. ent_Data_update (\<lambda>_. d))),
      (''request_id'', str_field (\<lambda>s. ent_RequestID_update (\<lambda>_. s))),
      (''trace_id'', str_field (\<lambda>s. ent_TraceID_update (\<lambda>_. s))),
      (''timestamp'', time_field (\<lambda>t. ent_Timestamp_update (\<lambda>_. t))),
      (''env'', str_field (\<lambda>s. ent_Env_update (\<lambda>_. s)))]"

definition unmarshal_entry :: "bytes \<Rightarrow> Entry option" where
  "unmarshal_entry s = unmarshal_struct entry_fields zero_entry s"

text \<open>
  \<open>RawMessage.MarshalJSON\<close>: nil is \<open>null\<close>, everything else has to be one JSON value, which is
  compacted. The depth limit counts from the value itself.
\<close>

definition marshal_raw :: "bytes option \<Rightarrow> json option" where
  "marshal_raw r = (case r of None \<Rightarrow> Some JNull | Some s \<Rightarrow> map_option esc_json (parse_json s))"

definition jstr :: "bytes \<Rightarrow> json" where
  "jstr s = JStr (quote_body s)"

definition marshal_entry :: "Entry \<Rightarrow> bytes option" where
  "marshal_entry e =
     do { d \<leftarrow> marshal_raw (ent_Data e);
          t \<leftarrow> marshal_time (ent_Timestamp e);
          Some (pr (JObj ([(''seq'', JNum (itoa (unat (ent_Sequence e)))),
                           (''project'', jstr (ent_Project e)),
                           (''router'', jstr (ent_Router e)),
                           (''data'', d),
                           (''request_id'', jstr (ent_RequestID e)),
                           (''trace_id'', jstr (ent_TraceID e)),
                           (''timestamp'', JStr t)]
                          @ (if ent_Env e = [] then [] else [(''env'', jstr (ent_Env e))])))) }"

text \<open>
  What a trip through a segment leaves of an entry: strings become valid UTF-8, the payload is
  compacted, and a missing payload becomes the text \<open>null\<close>.
\<close>

definition entry_norm :: "Entry \<Rightarrow> Entry" where
  "entry_norm e =
     e\<lparr>ent_Project := to_valid (ent_Project e), ent_Router := to_valid (ent_Router e),
       ent_Data := map_option pr (marshal_raw (ent_Data e)),
       ent_RequestID := to_valid (ent_RequestID e), ent_TraceID := to_valid (ent_TraceID e),
       ent_Env := to_valid (ent_Env e)\<rparr>"

text \<open>The payload nests at most 9999 deep, as it does when it arrived inside an upload request.\<close>

definition payload_depth_ok :: "bytes option \<Rightarrow> bool" where
  "payload_depth_ok r = (case marshal_raw r of None \<Rightarrow> True | Some v \<Rightarrow> wf_json 1 v)"

lemma wf_json_jstr [simp]: "wf_json d (jstr s)"
  by (simp add: jstr_def)

lemma str_field_jstr [simp]: "str_field set_f x raw (jstr s) = Some (set_f (to_valid s) x)"
  by (simp add: jstr_def)

lemma wf_str_key [simp]:
  "wf_str ''seq''" "wf_str ''project''" "wf_str ''router''" "wf_str ''data''" "wf_str ''request_id''"
  "wf_str ''trace_id''" "wf_str ''timestamp''" "wf_str ''env''"
  by (rule wf_str_plain_list; auto simp: DQ_def BS_def)+

lemma unquote_key:
  "unquote ''seq'' = ''seq''" "unquote ''project'' = ''project''" "unquote ''router'' = ''router''"
  "unquote ''data'' = ''data''" "unquote ''request_id'' = ''request_id''"
  "unquote ''trace_id'' = ''trace_id''" "unquote ''timestamp'' = ''timestamp''" "unquote ''env'' = ''env''"
  by (simp_all add: unquote_ascii BS_def)

lemma find_entry_field:
  "find_field entry_fields ''seq'' = Some (uint64_field (\<lambda>n. ent_Sequence_update (\<lambda>_. n)))"
  "find_field entry_fields ''project'' = Some (str_field (\<lambda>s. ent_Project_update (\<lambda>_. s)))"
  "find_field entry_fields ''router'' = Some (str_field (\<lambda>s. ent_Router_update (\<lambda>_. s)))"
  "find_field entry_fields ''data'' = Some (raw_field (\<lambda>d. ent_Data_update (\<lambda>_. d)))"
  "find_field entry_fields ''request_id'' = Some (str_field (\<lambda>s. ent_RequestID_update (\<lambda>_. s)))"
  "find_field entry_fields ''trace_id'' = Some (str_field (\<lambda>s. ent_TraceID_update (\<lambda>_. s)))"
  "find_field entry_fields ''timestamp'' = Some (time_field (\<lambda>t. ent_Timestamp_update (\<lambda>_. t)))"
  "find_field entry_fields ''env'' = Some (str_field (\<lambda>s. ent_Env_update (\<lambda>_. s)))"
  by (simp_all add: find_field_def entry_fields_def)

lemma marshal_time_Some: "marshal_time t = Some s \<Longrightarrow> s = pr_time t"
  by (simp add: marshal_time_def split: if_splits)

lemma to_valid_Nil [simp]: "to_valid [] = []"
  by (simp add: to_valid.simps)

lemma marshal_entry_roundtrip:
  assumes m: "marshal_entry e = Some s" and c: "civil (ent_Timestamp e)"
    and d: "payload_depth_ok (ent_Data e)"
  shows "unmarshal_entry s = Some (entry_norm e)"
proof -
  from m obtain v t where v: "marshal_raw (ent_Data e) = Some v" and t: "marshal_time (ent_Timestamp e) = Some t"
    by (auto simp: marshal_entry_def bind_eq_Some_conv)
  have wv: "wf_json (Suc 0) v" using d v by (simp add: payload_depth_ok_def)
  have rt: "rd_time t = Some (ent_Timestamp e)" by (rule rd_time_pr_time [OF c t])
  have wt: "wf_str t" using marshal_time_Some [OF t] by simp
  show ?thesis
    using m wv wt rt v t
    by (cases e) (auto simp: marshal_entry_def unmarshal_entry_def unmarshal_struct_pr max_depth_def
        unquote_key find_entry_field raw_field_def time_field_def entry_norm_def zero_entry_def
        simp del: pr.simps)
qed

text \<open>The text of an entry never contains a line break, so that a segment is a sequence of lines.\<close>

lemma marshal_raw_wf: "marshal_raw r = Some v \<Longrightarrow> wf_json 0 v"
  by (auto simp: marshal_raw_def wf_esc_json dest: parse_json_wf split: option.splits)

lemma pr_no_control: "wf_json d v \<Longrightarrow> list_all (\<lambda>c. \<not> ord c < 32) (pr v)"
  using pr_controls(1) by (auto simp: list_all_iff)

lemma marshal_entry_no_control:
  assumes "marshal_entry e = Some s"
  shows "list_all (\<lambda>c. \<not> ord c < 32) s"
proof -
  from assms obtain v t where v: "marshal_raw (ent_Data e) = Some v" and t: "marshal_time (ent_Timestamp e) = Some t"
    by (auto simp: marshal_entry_def bind_eq_Some_conv)
  have *: "list_all (\<lambda>c. \<not> ord c < 32) (pr v)" "list_all (\<lambda>c. \<not> ord c < 32) (pr (JStr t))"
    "list_all (\<lambda>c. \<not> ord c < 32) (pr (jstr x))" "list_all (\<lambda>c. \<not> ord c < 32) (pr (JNum (itoa n)))" for x n
    by (rule pr_no_control [of 0], use marshal_raw_wf [OF v] marshal_time_Some [OF t] in simp)+
  show ?thesis
    using assms v t * by (auto simp: marshal_entry_def)
qed

end
