(* ===== verification/Disk.thy ===== *)
theory Disk
  imports Go_Strings "HOL-Library.List_Lexorder" "HOL-Library.Char_ord"
begin

text \<open>
  The file system as the write-ahead log sees it: one directory, the bytes of each file and how
  many of them have reached the disk, and the calls of package \<open>os\<close>. Every call may fail: the
  list of faults says which of the calls to come do, in the order they are made (a call without
  an entry succeeds; for a write the entry says how many bytes were written before the error).
  Then \<open>bufio.Writer\<close> over such a file.
\<close>

datatype node = NDir | NFile bytes nat   \<comment> \<open>the bytes, and how many of them are synced\<close>

record disk =
  dk_made :: bool                         \<comment> \<open>the directory exists\<close>
  dk_dir :: "(bytes \<times> node) list"
  dk_faults :: "nat option list"

datatype os_error = ErrNotExist | ErrClosed | ErrIO

definition next_fault :: "disk \<Rightarrow> nat option \<times> disk" where
  "next_fault d = (case dk_faults d of [] \<Rightarrow> (None, d) | f # fs \<Rightarrow> (f, d\<lparr>dk_faults := fs\<rparr>))"

definition MkdirAll :: "disk \<Rightarrow> (os_error + unit) \<times> disk" where
  "MkdirAll d = (case next_fault d of (Some _, d) \<Rightarrow> (Inl ErrIO, d) | (None, d) \<Rightarrow> (Inr (), d\<lparr>dk_made := True\<rparr>))"

text \<open>\<open>os.ReadDir\<close> returns the entries sorted by file name.\<close>

definition ReadDir :: "disk \<Rightarrow> (os_error + (bytes \<times> bool) list) \<times> disk" where
  "ReadDir d =
     (case next_fault d of
        (Some _, d) \<Rightarrow> (Inl ErrIO, d)
      | (None, d) \<Rightarrow> if \<not> dk_made d then (Inl ErrNotExist, d)
                     else (Inr (sort_key fst (map (\<lambda>(n, x). (n, x = NDir)) (dk_dir d))), d))"

definition set_file :: "bytes \<Rightarrow> node \<Rightarrow> (bytes \<times> node) list \<Rightarrow> (bytes \<times> node) list" where
  "set_file n x ds = map (\<lambda>(m, y). if m = n then (m, x) else (m, y)) ds"

text \<open>\<open>os.OpenFile\<close> for appending, with or without \<open>O_CREATE\<close>; a directory cannot be opened so.\<close>

definition OpenAppend :: "bool \<Rightarrow> bytes \<Rightarrow> disk \<Rightarrow> (os_error + unit) \<times> disk" where
  "OpenAppend create n d =
     (case next_fault d of
        (Some _, d) \<Rightarrow> (Inl ErrIO, d)
      | (None, d) \<Rightarrow>
          (case map_of (dk_dir d) n of
             Some NDir \<Rightarrow> (Inl ErrIO, d)
           | Some (NFile _ _) \<Rightarrow> (Inr (), d)
           | None \<Rightarrow> if create \<and> dk_made d then (Inr (), d\<lparr>dk_dir := dk_dir d @ [(n, NFile [] 0)]\<rparr>)
                     else (Inl ErrNotExist, d)))"

definition file_data :: "bytes \<Rightarrow> disk \<Rightarrow> bytes" where
  "file_data n d = (case map_of (dk_dir d) n of Some (NFile b _) \<Rightarrow> b | _ \<Rightarrow> [])"

definition file_synced :: "bytes \<Rightarrow> disk \<Rightarrow> bytes" where
  "file_synced n d = (case map_of (dk_dir d) n of Some (NFile b k) \<Rightarrow> take k b | _ \<Rightarrow> [])"

definition Stat :: "bytes \<Rightarrow> disk \<Rightarrow> (os_error + int) \<times> disk" where
  "Stat n d = (case next_fault d of (Some _, d) \<Rightarrow> (Inl ErrIO, d) | (None, d) \<Rightarrow> (Inr (int (length (file_data n d))), d))"

text \<open>
  \<open>os.Open\<close>, and reading an open file to its end: the bytes that arrived, and the error if the
  reading broke off.
\<close>

definition Open :: "bytes \<Rightarrow> disk \<Rightarrow> (os_error + unit) \<times> disk" where
  "Open n d =
     (case next_fault d of
        (Some _, d) \<Rightarrow> (Inl ErrIO, d)
      | (None, d) \<Rightarrow> if map_of (dk_dir d) n = None then (Inl ErrNotExist, d) else (Inr (), d))"

definition Read_rest :: "bytes \<Rightarrow> disk \<Rightarrow> (bytes \<times> os_error option) \<times> disk" where
  "Read_rest n d =
     (case next_fault d of
        (Some k, d) \<Rightarrow> ((take k (file_data n d), Some ErrIO), d)
      | (None, d) \<Rightarrow> if map_of (dk_dir d) n = Some NDir then (([], Some ErrIO), d)
                     else ((file_data n d, None), d))"

definition Remove :: "bytes \<Rightarrow> disk \<Rightarrow> (os_error + unit) \<times> disk" where
  "Remove n d =
     (case next_fault d of
        (Some _, d) \<Rightarrow> (Inl ErrIO, d)
      | (None, d) \<Rightarrow> if map_of (dk_dir d) n = None then (Inl ErrNotExist, d)
                     else (Inr (), d\<lparr>dk_dir := filter (\<lambda>(m, _). m \<noteq> n) (dk_dir d)\<rparr>))"

subsection \<open>Open files\<close>

text \<open>
  An \<open>*os.File\<close> of the log: its name and whether it is still open. A file that was removed can
  still be written to; what is written then is in no file of the directory.
\<close>

type_synonym os_file = "bytes \<times> bool"

definition append_file :: "bytes \<Rightarrow> bytes \<Rightarrow> disk \<Rightarrow> disk" where
  "append_file n p d =
     (case map_of (dk_dir d) n of
        Some (NFile b k) \<Rightarrow> d\<lparr>dk_dir := set_file n (NFile (b @ p) k) (dk_dir d)\<rparr>
      | _ \<Rightarrow> d)"

definition sync_file :: "bytes \<Rightarrow> disk \<Rightarrow> disk" where
  "sync_file n d =
     (case map_of (dk_dir d) n of
        Some (NFile b k) \<Rightarrow> d\<lparr>dk_dir := set_file n (NFile b (length b)) (dk_dir d)\<rparr>
      | _ \<Rightarrow> d)"

definition File_Write :: "os_file \<Rightarrow> bytes \<Rightarrow> disk \<Rightarrow> (nat \<times> os_error option) \<times> disk" where
  "File_Write f p d =
     (if \<not> snd f then ((0, Some ErrClosed), d)
      else case next_fault d of
        (Some k, d) \<Rightarrow> ((length (take k p), Some ErrIO), append_file (fst f) (take k p) d)
      | (None, d) \<Rightarrow> ((length p, None), append_file (fst f) p d))"

definition File_Sync :: "os_file \<Rightarrow> disk \<Rightarrow> (os_error + unit) \<times> disk" where
  "File_Sync f d =
     (if \<not> snd f then (Inl ErrClosed, d)
      else case next_fault d of
        (Some _, d) \<Rightarrow> (Inl ErrIO, d)
      | (None, d) \<Rightarrow> (Inr (), sync_file (fst f) d))"

text \<open>The descriptor is gone after \<open>Close\<close>, whether it reports an error or not.\<close>

definition File_Close :: "os_file \<Rightarrow> disk \<Rightarrow> (os_error + unit) \<times> os_file \<times> disk" where
  "File_Close f d =
     (if \<not> snd f then (Inl ErrClosed, f, d)
      else case next_fault d of
        (Some _, d) \<Rightarrow> (Inl ErrIO, (fst f, False), d)
      | (None, d) \<Rightarrow> (Inr (), (fst f, False), d))"

subsection \<open>bufio.Writer\<close>

record bufw =
  bw_buf :: bytes
  bw_err :: "os_error option"

definition buf_size :: nat where "buf_size = 65536"

definition new_bufw :: bufw where "new_bufw = \<lparr>bw_buf = [], bw_err = None\<rparr>"

definition bw_Flush :: "os_file \<Rightarrow> bufw \<Rightarrow> disk \<Rightarrow> os_error option \<times> bufw \<times> disk" where
  "bw_Flush f b d =
     (case bw_err b of
        Some e \<Rightarrow> (Some e, b, d)
      | None \<Rightarrow>
          if bw_buf b = [] then (None, b, d)
          else case File_Write f (bw_buf b) d of
            ((n, Some e), d) \<Rightarrow> (Some e, b\<lparr>bw_buf := drop n (bw_buf b), bw_err := Some e\<rparr>, d)
          | ((n, None), d) \<Rightarrow> (None, b\<lparr>bw_buf := []\<rparr>, d))"

text \<open>
  \<open>Write\<close>: while the data does not fit, an empty buffer is bypassed and a partly filled one is
  filled and flushed. Since a file write that reports no error takes all of its data, the loop
  of the library runs at most twice; the two rounds are \<open>bw_top_up\<close> and \<open>bw_direct\<close>.
  The result is the number of bytes taken and the error.
\<close>

definition bw_put :: "bytes \<Rightarrow> bufw \<Rightarrow> bufw" where
  "bw_put p b = b\<lparr>bw_buf := bw_buf b @ p\<rparr>"

definition bw_direct :: "os_file \<Rightarrow> bytes \<Rightarrow> bufw \<Rightarrow> disk \<Rightarrow> (nat \<times> os_error option) \<times> bufw \<times> disk" where
  "bw_direct f p b d =
     (if length p \<le> buf_size then ((length p, None), bw_put p b, d)
      else case File_Write f p d of ((n, e), d) \<Rightarrow> ((n, e), b\<lparr>bw_err := e\<rparr>, d))"

definition bw_top_up :: "os_file \<Rightarrow> bytes \<Rightarrow> bufw \<Rightarrow> disk \<Rightarrow> (nat \<times> os_error option) \<times> bufw \<times> disk" where
  "bw_top_up f p b d =
     (let k = buf_size - length (bw_buf b)
      in case bw_Flush f (bw_put (take k p) b) d of
           (Some e, b, d) \<Rightarrow> ((k, Some e), b, d)
         | (None, b, d) \<Rightarrow>
             (case bw_direct f (drop k p) b d of ((n, e), r) \<Rightarrow> ((k + n, e), r)))"

definition bw_Write :: "os_file \<Rightarrow> bytes \<Rightarrow> bufw \<Rightarrow> disk \<Rightarrow> (nat \<times> os_error option) \<times> bufw \<times> disk" where
  "bw_Write f p b d =
     (case bw_err b of
        Some e \<Rightarrow> ((0, Some e), b, d)
      | None \<Rightarrow>
          if length p \<le> buf_size - length (bw_buf b) then ((length p, None), bw_put p b, d)
          else if bw_buf b = [] then bw_direct f p b d
          else bw_top_up f p b d)"

subsection \<open>What the calls change\<close>

definition has_file :: "bytes \<Rightarrow> disk \<Rightarrow> bool" where
  "has_file n d \<longleftrightarrow> (\<exists>b k. map_of (dk_dir d) n = Some (NFile b k))"

text \<open>Only the file \<open>n\<close> may differ, and it only grew.\<close>

definition grows :: "bytes \<Rightarrow> disk \<Rightarrow> disk \<Rightarrow> bool" where
  "grows n d d' \<longleftrightarrow> map fst (dk_dir d') = map fst (dk_dir d) \<and> dk_made d' = dk_made d
     \<and> (\<forall>m. m \<noteq> n \<longrightarrow> map_of (dk_dir d') m = map_of (dk_dir d) m)
     \<and> has_file n d' = has_file n d \<and> prefix (file_data n d) (file_data n d')
     \<and> prefix (file_synced n d) (file_synced n d')
     \<and> (map_of (dk_dir d) n = Some NDir \<longleftrightarrow> map_of (dk_dir d') n = Some NDir)"

lemma grows_refl [simp]: "grows n d d"
  by (simp add: grows_def)

lemma grows_trans [trans]: "grows n d d' \<Longrightarrow> grows n d' d'' \<Longrightarrow> grows n d d''"
  by (auto simp: grows_def intro: prefix_order.trans)

lemma map_of_set_file: "map_of (set_file n x ds) m = (if m = n \<and> map_of ds n \<noteq> None then Some x else map_of ds m)"
  by (induction ds) (auto simp: set_file_def)

lemma fst_set_file [simp]: "map fst (set_file n x ds) = map fst ds"
  by (induction ds) (auto simp: set_file_def)

lemma next_fault_frame:
  "next_fault d = (f, d') \<Longrightarrow> dk_dir d' = dk_dir d \<and> dk_made d' = dk_made d"
  by (auto simp: next_fault_def split: list.splits)

lemma same_dir:
  assumes "dk_dir d' = dk_dir d"
  shows "file_data n d' = file_data n d" "file_synced n d' = file_synced n d" "has_file n d' = has_file n d"
  using assms by (simp_all add: file_data_def file_synced_def has_file_def)

lemma next_fault_grows: "next_fault d = (f, d') \<Longrightarrow> grows n d d'"
  by (drule next_fault_frame) (simp add: grows_def file_data_def file_synced_def has_file_def)

lemma next_fault_data:
  assumes "next_fault d = (f, d')"
  shows "file_data n d' = file_data n d" and "has_file n d' = has_file n d"
  using next_fault_frame [OF assms] by (simp_all add: file_data_def has_file_def)

lemma append_file_data: "has_file n d \<Longrightarrow> file_data n (append_file n p d) = file_data n d @ p"
  by (auto simp: append_file_def has_file_def file_data_def map_of_set_file)

lemma append_file_grows: "grows n d (append_file n p d)"
  by (auto simp: append_file_def grows_def has_file_def file_data_def file_synced_def map_of_set_file
      take_append split: option.splits node.splits)

lemma sync_file_data [simp]: "file_data m (sync_file n d) = file_data m d"
  by (auto simp: sync_file_def file_data_def map_of_set_file split: option.splits node.splits)

lemma sync_file_synced: "file_synced n (sync_file n d) = file_data n d"
  by (auto simp: sync_file_def file_data_def file_synced_def map_of_set_file split: option.splits node.splits)

lemma sync_file_grows: "grows n d (sync_file n d)"
  by (auto simp: sync_file_def grows_def has_file_def file_data_def file_synced_def map_of_set_file
      take_is_prefix split: option.splits node.splits)

lemma take_min_length: "take (min k (length p)) p = take k p"
  by (metis take_all_iff take_take order_refl)

lemma File_Write_frame:
  assumes "File_Write f p d = ((k, e), d')"
  shows "grows (fst f) d d'" and "has_file (fst f) d \<Longrightarrow> file_data (fst f) d' = file_data (fst f) d @ take k p"
    and "e = None \<Longrightarrow> k = length p"
  using assms
  by (auto simp: File_Write_def append_file_data next_fault_data min.commute take_min_length
      split: if_splits prod.splits option.splits intro: grows_trans next_fault_grows append_file_grows)

lemma File_Sync_frame:
  assumes "File_Sync f d = (r, d')"
  shows "grows (fst f) d d'" and "file_data n d' = file_data n d"
    and "r = Inr () \<Longrightarrow> file_synced (fst f) d' = file_data (fst f) d'"
  using assms
  by (auto simp: File_Sync_def sync_file_synced next_fault_data split: if_splits prod.splits option.splits
      intro: grows_trans next_fault_grows sync_file_grows)

lemma File_Close_frame:
  assumes "File_Close f d = (r, f', d')"
  shows "dk_dir d' = dk_dir d" and "dk_made d' = dk_made d" and "f' = (fst f, False)"
  using assms
  by (cases f; auto simp: File_Close_def split: if_splits prod.splits option.splits dest: next_fault_frame)+

text \<open>
  The stream of a buffered file is what is in the file followed by what is buffered. A flush
  never changes it, whether it succeeds or not, and a write that succeeds appends to it.
\<close>

definition stream :: "bytes \<Rightarrow> bufw \<Rightarrow> disk \<Rightarrow> bytes" where
  "stream n b d = file_data n d @ bw_buf b"

lemma bw_Flush_frame:
  assumes "bw_Flush f b d = (e, b', d')"
  shows "grows (fst f) d d'" and "has_file (fst f) d \<Longrightarrow> stream (fst f) b' d' = stream (fst f) b d"
    and "e = None \<longleftrightarrow> bw_err b' = None" and "e = None \<Longrightarrow> bw_buf b' = []" and "length (bw_buf b') \<le> length (bw_buf b)"
  using assms File_Write_frame [of f "bw_buf b" d]
  by (auto simp: bw_Flush_def stream_def split: if_splits prod.splits option.splits)

lemma bw_direct_frame:
  assumes "bw_direct f p b d = ((k, e), b', d')" and "bw_err b = None" and "bw_buf b = []"
  shows "grows (fst f) d d'" and "has_file (fst f) d \<Longrightarrow> stream (fst f) b' d' = stream (fst f) b d @ take k p"
    and "e = None \<longleftrightarrow> bw_err b' = None" and "e = None \<Longrightarrow> k = length p" and "length (bw_buf b') \<le> buf_size"
  using assms File_Write_frame [of f p d]
  by (auto simp: bw_direct_def stream_def bw_put_def split: if_splits prod.splits)

lemma bw_top_up_frame:
  assumes "bw_top_up f p b d = ((k, e), b', d')" and "bw_err b = None" and "buf_size - length (bw_buf b) < length p"
    and "length (bw_buf b) \<le> buf_size"
  shows "grows (fst f) d d' \<and> (has_file (fst f) d \<longrightarrow> stream (fst f) b' d' = stream (fst f) b d @ take k p)
    \<and> (e = None \<longleftrightarrow> bw_err b' = None) \<and> (e = None \<longrightarrow> k = length p) \<and> length (bw_buf b') \<le> buf_size"
proof -
  let ?k = "buf_size - length (bw_buf b)" and ?b0 = "bw_put (take (buf_size - length (bw_buf b)) p) b"
  obtain e1 b1 d1 where F: "bw_Flush f ?b0 d = (e1, b1, d1)" by (cases "bw_Flush f ?b0 d") auto
  have s0: "stream (fst f) ?b0 d = stream (fst f) b d @ take ?k p" and l0: "length (bw_buf ?b0) = buf_size"
    using assms(3,4) by (simp_all add: stream_def bw_put_def)
  note ff = bw_Flush_frame [OF F]
  show ?thesis
  proof (cases e1)
    case (Some x)
    with assms(1) F have "k = ?k" "e = Some x" "b' = b1" "d' = d1" by (auto simp: bw_top_up_def Let_def)
    with Some ff s0 l0 show ?thesis by simp
  next
    case None
    obtain n e2 b2 d2 where D: "bw_direct f (drop ?k p) b1 d1 = ((n, e2), b2, d2)"
      by (cases "bw_direct f (drop ?k p) b1 d1") auto
    from None assms(1) F D have r: "k = ?k + n" "e = e2" "b' = b2" "d' = d2" by (auto simp: bw_top_up_def Let_def)
    from None ff have "bw_err b1 = None" "bw_buf b1 = []" by auto
    note df = bw_direct_frame [OF D this]
    have "take k p = take ?k p @ take n (drop ?k p)" by (simp add: r take_add)
    moreover have "has_file (fst f) d1 = has_file (fst f) d" using ff(1) by (simp add: grows_def)
    ultimately show ?thesis using ff df s0 assms(3) by (auto simp: r intro: grows_trans)
  qed
qed

lemma bw_Write_frame:
  assumes "bw_Write f p b d = ((k, e), b', d')" and "length (bw_buf b) \<le> buf_size"
  shows "grows (fst f) d d'" and "has_file (fst f) d \<Longrightarrow> stream (fst f) b' d' = stream (fst f) b d @ take k p"
    and "e = None \<longleftrightarrow> bw_err b' = None" and "e = None \<Longrightarrow> k = length p" and "length (bw_buf b') \<le> buf_size"
proof -
  consider (err) x where "bw_err b = Some x"
    | (fit) "bw_err b = None" "length p \<le> buf_size - length (bw_buf b)"
    | (direct) "bw_err b = None" "\<not> length p \<le> buf_size - length (bw_buf b)" "bw_buf b = []"
    | (top) "bw_err b = None" "\<not> length p \<le> buf_size - length (bw_buf b)" "bw_buf b \<noteq> []"
    by (cases "bw_err b"; cases "length p \<le> buf_size - length (bw_buf b)"; cases "bw_buf b = []") blast+
  then have "grows (fst f) d d' \<and> (has_file (fst f) d \<longrightarrow> stream (fst f) b' d' = stream (fst f) b d @ take k p)
    \<and> (e = None \<longleftrightarrow> bw_err b' = None) \<and> (e = None \<longrightarrow> k = length p) \<and> length (bw_buf b') \<le> buf_size"
  proof cases
    case direct
    with assms bw_direct_frame [of f p b d k e b' d'] show ?thesis by (simp add: bw_Write_def)
  next
    case top
    with assms bw_top_up_frame [of f p b d k e b' d'] show ?thesis by (simp add: bw_Write_def)
  qed (use assms in \<open>auto simp: bw_Write_def bw_put_def stream_def\<close>)
  then show "grows (fst f) d d'" "has_file (fst f) d \<Longrightarrow> stream (fst f) b' d' = stream (fst f) b d @ take k p"
    "e = None \<longleftrightarrow> bw_err b' = None" "e = None \<Longrightarrow> k = length p" "length (bw_buf b') \<le> buf_size" by auto
qed

end
