(* ===== verification/Wal.thy ===== *)
theory Wal
  imports Wal_Entry Disk
begin

text \<open>
  The writer of \<open>internal/wal/wal.go\<close>: opening and sealing, appending, rotation, the periodic
  flush, closing. Each operation runs under the writer's mutex and is one function from the
  writer and the disk to the result, the writer and the disk.
\<close>

subsection \<open>Data\<close>

record WalConfig =
  cfg_Dir :: bytes
  cfg_MaxSegmentBytes :: int
  cfg_MaxSegments :: int
  cfg_SyncInterval :: duration

definition DefaultConfig :: WalConfig where
  "DefaultConfig = \<lparr>cfg_Dir = ''data/wal'', cfg_MaxSegmentBytes = 64 * 2 ^ 20, cfg_MaxSegments = 10,
     cfg_SyncInterval = 100 * Millisecond\<rparr>"

text \<open>
  \<open>w_closed\<close> and \<open>w_replaying\<close> say whether the functions of \<open>closeOnce\<close> and \<open>replayOnce\<close> have
  run. The buffered writer always writes to the file \<open>w_activeSeg\<close>: both are set together.
\<close>

record Writer =
  w_cfg :: WalConfig
  w_seq :: "64 word"
  w_activeSeg :: "os_file option"
  w_activeBuf :: "bufw option"
  w_activeSize :: int
  w_activeName :: bytes
  w_ticking :: bool
  w_closed :: bool
  w_replaying :: bool

datatype wal_error =
    EMkdir os_error
  | EReadDir os_error
  | EOpenSegment bytes os_error
  | EStat os_error
  | EFlush os_error
  | ESync os_error
  | EClose os_error
  | ECreate bytes os_error
  | EMarshal
  | EWrite os_error
  | EOpen wal_error
  | ESeal wal_error
  | ERotate wal_error
  | EInitialRotate wal_error

subsection \<open>Segment names\<close>

definition is_segment :: "bytes \<times> bool \<Rightarrow> bool" where
  "is_segment e \<longleftrightarrow> \<not> snd e \<and> HasPrefix (fst e) ''wal-'' \<and> HasSuffix (fst e) ''.log''"

definition seg_atoi :: "bytes \<Rightarrow> int option" where
  "seg_atoi n = Atoi (TrimSuffix (TrimPrefix n ''wal-'') ''.log'')"

definition seg_name :: "int \<Rightarrow> bytes" where
  "seg_name k = ''wal-'' @ Sprintf_06d k @ ''.log''"

definition max_segment :: "(bytes \<times> bool) list \<Rightarrow> int" where
  "max_segment es =
     foldl (\<lambda>m e. if is_segment e
                  then (case seg_atoi (fst e) of Some n \<Rightarrow> if m < n then n else m | None \<Rightarrow> m) else m) 0 es"

definition nextSegmentNum :: "disk \<Rightarrow> int \<times> disk" where
  "nextSegmentNum d =
     (case ReadDir d of
        (Inl _, d) \<Rightarrow> (1, d)
      | (Inr es, d) \<Rightarrow> (wrap64 (max_segment es + 1), d))"

text \<open>The warning about too many segments: their number and the excess.\<close>

definition purgeOldSegments :: "Writer \<Rightarrow> disk \<Rightarrow> (int \<times> int) option \<times> disk" where
  "purgeOldSegments w d =
     (case ReadDir d of
        (Inl _, d) \<Rightarrow> (None, d)
      | (Inr es, d) \<Rightarrow>
          (let n = int (length (filter is_segment es))
           in if n \<le> cfg_MaxSegments (w_cfg w) then (None, d)
              else (Some (n, n - cfg_MaxSegments (w_cfg w)), d)))"

subsection \<open>Rotation\<close>

text \<open>\<open>rotate\<close>, first part: flush, sync and close the active segment, if there is one.\<close>

definition seal_active :: "Writer \<Rightarrow> disk \<Rightarrow> (wal_error + unit) \<times> Writer \<times> disk" where
  "seal_active w d =
     (case (w_activeSeg w, w_activeBuf w) of
        (Some f, Some b) \<Rightarrow>
          (case bw_Flush f b d of
             (Some e, b, d) \<Rightarrow> (Inl (EFlush e), w\<lparr>w_activeBuf := Some b\<rparr>, d)
           | (None, b, d) \<Rightarrow>
               (case File_Sync f d of
                  (Inl e, d) \<Rightarrow> (Inl (ESync e), w\<lparr>w_activeBuf := Some b\<rparr>, d)
                | (Inr _, d) \<Rightarrow>
                    (case File_Close f d of
                       (Inl e, f, d) \<Rightarrow> (Inl (EClose e), w\<lparr>w_activeBuf := Some b, w_activeSeg := Some f\<rparr>, d)
                     | (Inr _, f, d) \<Rightarrow> (Inr (), w\<lparr>w_activeBuf := Some b, w_activeSeg := Some f\<rparr>, d))))
      | _ \<Rightarrow> (Inr (), w, d))"

definition open_next :: "Writer \<Rightarrow> disk \<Rightarrow> (wal_error + unit) \<times> Writer \<times> disk" where
  "open_next w d =
     (case nextSegmentNum d of
        (k, d) \<Rightarrow>
          (let name = seg_name k
           in case OpenAppend True name d of
                (Inl e, d) \<Rightarrow> (Inl (ECreate name e), w, d)
              | (Inr _, d) \<Rightarrow>
                  (let w = w\<lparr>w_activeSeg := Some (name, True), w_activeBuf := Some new_bufw,
                             w_activeSize := 0, w_activeName := name\<rparr>
                   in (Inr (), w, snd (purgeOldSegments w d)))))"

definition rotate_wal :: "Writer \<Rightarrow> disk \<Rightarrow> (wal_error + unit) \<times> Writer \<times> disk" where
  "rotate_wal w d =
     (case seal_active w d of
        (Inl e, w, d) \<Rightarrow> (Inl e, w, d)
      | (Inr _, w, d) \<Rightarrow> open_next w d)"

subsection \<open>Opening\<close>

definition latest_segment :: "(bytes \<times> bool) list \<Rightarrow> bytes \<times> int" where
  "latest_segment es =
     foldl (\<lambda>(l, m) e. if is_segment e
                       then (case seg_atoi (fst e) of
                               Some n \<Rightarrow> if m < n then (fst e, n) else (l, m)
                             | None \<Rightarrow> (l, m))
                       else (l, m)) ([], 0) es"

definition openLatest :: "Writer \<Rightarrow> disk \<Rightarrow> (wal_error + unit) \<times> Writer \<times> disk" where
  "openLatest w d =
     (case ReadDir d of
        (Inl e, d) \<Rightarrow> (Inl (EReadDir e), w, d)
      | (Inr es, d) \<Rightarrow>
          (let latest = fst (latest_segment es)
           in if latest = [] then (Inr (), w, d)
              else case OpenAppend False latest d of
                (Inl e, d) \<Rightarrow> (Inl (EOpenSegment latest e), w, d)
              | (Inr _, d) \<Rightarrow>
                  (case Stat latest d of
                     (Inl e, d) \<Rightarrow> (Inl (EStat e), w, snd (snd (File_Close (latest, True) d)))
                   | (Inr sz, d) \<Rightarrow>
                       (Inr (), w\<lparr>w_activeSeg := Some (latest, True), w_activeBuf := Some new_bufw,
                                  w_activeSize := sz, w_activeName := latest\<rparr>, d))))"

definition norm_config :: "WalConfig \<Rightarrow> WalConfig" where
  "norm_config c =
     c\<lparr>cfg_Dir := (if cfg_Dir c = [] then ''data/wal'' else cfg_Dir c),
       cfg_MaxSegmentBytes := (if cfg_MaxSegmentBytes c \<le> 0 then 64 * 2 ^ 20 else cfg_MaxSegmentBytes c),
       cfg_MaxSegments := (if cfg_MaxSegments c \<le> 0 then 10 else cfg_MaxSegments c)\<rparr>"

definition blank_writer :: "WalConfig \<Rightarrow> Writer" where
  "blank_writer cfg = \<lparr>w_cfg = cfg, w_seq = 0, w_activeSeg = None, w_activeBuf = None, w_activeSize = 0,
     w_activeName = [], w_ticking = False, w_closed = False, w_replaying = False\<rparr>"

definition NewWriter :: "WalConfig \<Rightarrow> disk \<Rightarrow> (wal_error + Writer) \<times> disk" where
  "NewWriter cfg0 d =
     (let cfg = norm_config cfg0
      in case MkdirAll d of
           (Inl e, d) \<Rightarrow> (Inl (EMkdir e), d)
         | (Inr _, d) \<Rightarrow>
             (case openLatest (blank_writer cfg) d of
                (Inl e, _, d) \<Rightarrow> (Inl (EOpen e), d)
              | (Inr _, w, d) \<Rightarrow>
                  (case (if w_activeSeg w \<noteq> None \<and> w_activeSize w > 0 then rotate_wal w d else (Inr (), w, d)) of
                     (Inl e, _, d) \<Rightarrow> (Inl (ESeal e), d)
                   | (Inr _, w, d) \<Rightarrow> (Inr (w\<lparr>w_ticking := (cfg_SyncInterval cfg > 0)\<rparr>), d))))"

subsection \<open>Appending\<close>

text \<open>The two rotations \<open>Write\<close> may do before it appends.\<close>

definition make_room :: "nat \<Rightarrow> Writer \<Rightarrow> disk \<Rightarrow> (wal_error + unit) \<times> Writer \<times> disk" where
  "make_room len w d =
     (case (if w_activeSeg w \<noteq> None \<and> w_activeSize w + int len > cfg_MaxSegmentBytes (w_cfg w)
            then rotate_wal w d else (Inr (), w, d)) of
        (Inl e, w, d) \<Rightarrow> (Inl (ERotate e), w, d)
      | (Inr _, w, d) \<Rightarrow>
          if w_activeSeg w = None
          then (case rotate_wal w d of
                  (Inl e, w, d) \<Rightarrow> (Inl (EInitialRotate e), w, d)
                | (Inr _, w, d) \<Rightarrow> (Inr (), w, d))
          else (Inr (), w, d))"

text \<open>The append itself, and the flush and sync of every write when there is no interval.\<close>

definition append_active :: "bytes \<Rightarrow> Writer \<Rightarrow> disk \<Rightarrow> (wal_error + unit) \<times> Writer \<times> disk" where
  "append_active p w d =
     (case (w_activeSeg w, w_activeBuf w) of
        (Some f, Some b) \<Rightarrow>
          (case bw_Write f p b d of
             ((n, Some e), b, d) \<Rightarrow> (Inl (EWrite e), w\<lparr>w_activeBuf := Some b\<rparr>, d)
           | ((n, None), b, d) \<Rightarrow>
               (let w = w\<lparr>w_activeBuf := Some b, w_activeSize := w_activeSize w + int n, w_seq := w_seq w + 1\<rparr>
                in if cfg_SyncInterval (w_cfg w) = 0
                   then (case bw_Flush f b d of
                           (Some e, b, d) \<Rightarrow> (Inl (EFlush e), w\<lparr>w_activeBuf := Some b\<rparr>, d)
                         | (None, b, d) \<Rightarrow>
                             (case File_Sync f d of
                                (Inl e, d) \<Rightarrow> (Inl (ESync e), w\<lparr>w_activeBuf := Some b\<rparr>, d)
                              | (Inr _, d) \<Rightarrow> (Inr (), w\<lparr>w_activeBuf := Some b\<rparr>, d)))
                   else (Inr (), w, d)))
      | _ \<Rightarrow> (Inl (EWrite ErrClosed), w, d))"

definition newline :: char where "newline = CHR 10"

definition Write :: "Entry \<Rightarrow> Writer \<Rightarrow> disk \<Rightarrow> (wal_error + unit) \<times> Writer \<times> disk" where
  "Write entry w d =
     (case marshal_entry entry of
        None \<Rightarrow> (Inl EMarshal, w, d)
      | Some s \<Rightarrow>
          (let data = s @ [newline]
           in case make_room (length data) w d of
                (Inl e, w, d) \<Rightarrow> (Inl e, w, d)
              | (Inr _, w, d) \<Rightarrow> append_active data w d))"

definition entry_of_message :: "Message \<Rightarrow> Entry" where
  "entry_of_message m = \<lparr>ent_Sequence = 0, ent_Project = msg_Project m, ent_Router = msg_Router m,
     ent_Data = msg_Data m, ent_RequestID = msg_RequestID m, ent_TraceID = msg_TraceID m,
     ent_Timestamp = msg_Timestamp m, ent_Env = msg_Env m\<rparr>"

definition WriteMessage :: "Message \<Rightarrow> Writer \<Rightarrow> disk \<Rightarrow> (wal_error + unit) \<times> Writer \<times> disk" where
  "WriteMessage m w d = Write (entry_of_message m) w d"

subsection \<open>Background flush, closing, queries\<close>

text \<open>One tick of \<open>syncLoop\<close>; both errors are only logged.\<close>

definition sync_tick :: "Writer \<Rightarrow> disk \<Rightarrow> Writer \<times> disk" where
  "sync_tick w d =
     (case (w_activeSeg w, w_activeBuf w) of
        (Some f, Some b) \<Rightarrow>
          (case bw_Flush f b d of
             (_, b, d) \<Rightarrow> (w\<lparr>w_activeBuf := Some b\<rparr>, snd (File_Sync f d)))
      | _ \<Rightarrow> (w, d))"

definition Close :: "Writer \<Rightarrow> disk \<Rightarrow> Writer \<times> disk" where
  "Close w d =
     (if w_closed w then (w, d)
      else
        (let w = w\<lparr>w_closed := True, w_ticking := False\<rparr>
         in case (w_activeSeg w, w_activeBuf w) of
              (Some f, Some b) \<Rightarrow>
                (case bw_Flush f b d of
                   (_, _, d) \<Rightarrow>
                     (w\<lparr>w_activeSeg := None, w_activeBuf := None\<rparr>,
                      snd (snd (File_Close f (snd (File_Sync f d))))))
            | _ \<Rightarrow> (w, d)))"

definition SegmentCount :: "disk \<Rightarrow> nat \<times> disk" where
  "SegmentCount d =
     (case ReadDir d of (Inl _, d) \<Rightarrow> (0, d) | (Inr es, d) \<Rightarrow> (length (filter is_segment es), d))"

definition ActiveSegmentName :: "Writer \<Rightarrow> bytes" where
  "ActiveSegmentName w = w_activeName w"

definition ActiveSegmentSize :: "Writer \<Rightarrow> int" where
  "ActiveSegmentSize w = w_activeSize w"

end
