(* ===== verification/Wal_Laws.thy ===== *)
theory Wal_Laws
  imports Wal
begin

text \<open>
  What the writer of the write-ahead log guarantees. With no failing call the log, read as one
  sequence of bytes over all segments in replay order, is append only (\<open>Write_appends\<close>) and
  survives rotation, reopening and closing. With failing calls in any order, nothing that was
  logged is lost, and a write that reports success has put its entry at the end of the active
  stream. The two places where an error leads to a loss are stated as theorems as well.
\<close>

subsection \<open>Segment numbers\<close>

text \<open>The number of a directory entry that is a segment with a readable number.\<close>

definition seg_num :: "bytes \<times> bool \<Rightarrow> int option" where
  "seg_num e = (if is_segment e then seg_atoi (fst e) else None)"

lemma max_segment_eq:
  "max_segment es = foldl (max_step (\<lambda>e. case seg_num e of Some n \<Rightarrow> n | None \<Rightarrow> 0)) 0 es"
proof -
  have "foldl (\<lambda>m e. if is_segment e
      then (case seg_atoi (fst e) of Some n \<Rightarrow> if m < n then n else m | None \<Rightarrow> m) else m) m es
    = foldl (max_step (\<lambda>e. case seg_num e of Some n \<Rightarrow> n | None \<Rightarrow> 0)) m es" if "0 \<le> m" for m
    using that by (induction es arbitrary: m) (auto simp: seg_num_def split: option.splits)
  then show ?thesis by (simp add: max_segment_def)
qed

lemma max_segment_nonneg: "0 \<le> max_segment es"
  unfolding max_segment_eq by (rule foldl_max_base)

lemma max_segment_ge: "e \<in> set es \<Longrightarrow> seg_num e = Some n \<Longrightarrow> n \<le> max_segment es"
  using foldl_max_mem [of e es "\<lambda>e. case seg_num e of Some n \<Rightarrow> n | None \<Rightarrow> 0" 0]
  by (simp add: max_segment_eq)

lemma max_segment_in:
  "max_segment es = 0 \<or> (\<exists>e\<in>set es. seg_num e = Some (max_segment es))"
  using foldl_max_cases [of "\<lambda>e. case seg_num e of Some n \<Rightarrow> n | None \<Rightarrow> 0" 0 es]
  unfolding max_segment_eq by (fastforce split: option.splits)

lemma seg_atoi_seg_name: "0 \<le> k \<Longrightarrow> k < 2 ^ 63 \<Longrightarrow> seg_atoi (seg_name k) = Some k"
  using TrimPrefix_append [of "''wal-''" "Sprintf_06d k @ ''.log''"]
  by (simp add: seg_atoi_def seg_name_def Atoi_Sprintf_06d)

lemma is_segment_seg_name [simp]: "is_segment (seg_name k, False)"
  using HasPrefix_append [of "''wal-''" "Sprintf_06d k @ ''.log''"]
    HasSuffix_append [of "''wal-'' @ Sprintf_06d k" "''.log''"]
  by (simp add: is_segment_def seg_name_def)

lemma seg_num_seg_name: "0 \<le> k \<Longrightarrow> k < 2 ^ 63 \<Longrightarrow> seg_num (seg_name k, False) = Some k"
  by (simp add: seg_num_def seg_atoi_seg_name)

lemma max_segment_snoc:
  "max_segment (es @ [e]) = (case seg_num e of Some n \<Rightarrow> max (max_segment es) n | None \<Rightarrow> max_segment es)"
  by (simp add: max_segment_def seg_num_def max_def split: option.splits)

lemma latest_segment_spec:
  "snd (latest_segment es) = max_segment es
   \<and> (fst (latest_segment es) = [] \<longleftrightarrow> max_segment es = 0)
   \<and> (fst (latest_segment es) \<noteq> [] \<longrightarrow> (fst (latest_segment es), False) \<in> set es
       \<and> seg_num (fst (latest_segment es), False) = Some (max_segment es))"
proof (induction es rule: rev_induct)
  case Nil
  then show ?case by (simp add: latest_segment_def max_segment_def)
next
  case (snoc e es)
  obtain l m where lm: "latest_segment es = (l, m)" by (cases "latest_segment es")
  have step: "latest_segment (es @ [e]) =
      (case seg_num e of Some n \<Rightarrow> if m < n then (fst e, n) else (l, m) | None \<Rightarrow> (l, m))"
    using lm by (simp add: latest_segment_def seg_num_def split: option.splits)
  have e: "fst e \<noteq> [] \<and> e = (fst e, False)" if "seg_num e = Some n" for n
    using that by (cases e) (auto simp: seg_num_def is_segment_def HasPrefix_def split: if_splits)
  from snoc lm max_segment_nonneg [of es] step show ?case
    by (cases "seg_num e") (use e in \<open>auto simp: max_segment_snoc\<close>)
qed

subsection \<open>The disk when no call fails\<close>

definition quiet :: "disk \<Rightarrow> bool" where
  "quiet d \<longleftrightarrow> dk_faults d = []"

lemma quiet_next_fault [simp]: "quiet d \<Longrightarrow> next_fault d = (None, d)"
  by (simp add: quiet_def next_fault_def)

definition entries :: "disk \<Rightarrow> (bytes \<times> bool) list" where
  "entries d = sort_key fst (map (\<lambda>(n, x). (n, x = NDir)) (dk_dir d))"

lemma ReadDir_quiet [simp]: "quiet d \<Longrightarrow> dk_made d \<Longrightarrow> ReadDir d = (Inr (entries d), d)"
  by (simp add: ReadDir_def entries_def)

lemma set_entries: "set (entries d) = (\<lambda>(n, x). (n, x = NDir)) ` set (dk_dir d)"
  by (simp add: entries_def)

definition dir_ok :: "disk \<Rightarrow> bool" where
  "dir_ok d \<longleftrightarrow> dk_made d \<and> distinct (map fst (dk_dir d))"

lemma entries_file: "dir_ok d \<Longrightarrow> (n, False) \<in> set (entries d) \<longleftrightarrow> has_file n d"
proof -
  assume "dir_ok d"
  then have "(n, x) \<in> set (dk_dir d) \<longleftrightarrow> map_of (dk_dir d) n = Some x" for x
    unfolding dir_ok_def by (blast intro: map_of_is_SomeI map_of_SomeD)
  then have "(\<exists>b k. (n, NFile b k) \<in> set (dk_dir d)) \<longleftrightarrow> has_file n d"
    unfolding has_file_def by blast
  moreover have "(n, False) \<in> set (entries d) \<longleftrightarrow> (\<exists>x. (n, x) \<in> set (dk_dir d) \<and> x \<noteq> NDir)"
  proof
    assume "\<exists>x. (n, x) \<in> set (dk_dir d) \<and> x \<noteq> NDir"
    then obtain x where x: "(n, x) \<in> set (dk_dir d)" "x \<noteq> NDir" by blast
    from x(1) have "(\<lambda>(n, x). (n, x = NDir)) (n, x) \<in> set (entries d)" unfolding set_entries by (rule imageI)
    with x(2) show "(n, False) \<in> set (entries d)" by simp
  qed (auto simp: set_entries)
  moreover have "(\<exists>x. (n, x) \<in> set (dk_dir d) \<and> x \<noteq> NDir) \<longleftrightarrow> (\<exists>b k. (n, NFile b k) \<in> set (dk_dir d))"
    by (metis node.distinct(1) node.exhaust)
  ultimately show ?thesis by simp
qed

definition seg_max :: "disk \<Rightarrow> int" where
  "seg_max d = max_segment (entries d)"

subsection \<open>The log as one sequence of bytes\<close>

text \<open>
  The segments in the order replay takes them: by number, names breaking ties.
  \<open>skip\<close> leaves out the segments whose name it accepts.
\<close>

definition segment_list :: "(bytes \<Rightarrow> bool) \<Rightarrow> (bytes \<times> bool) list \<Rightarrow> (bytes \<times> int) list" where
  "segment_list skip es =
     sort_key snd (map (\<lambda>e. (fst e, the (seg_atoi (fst e))))
       (filter (\<lambda>e. is_segment e \<and> \<not> skip (fst e) \<and> seg_atoi (fst e) \<noteq> None) es))"

definition wal_segs :: "disk \<Rightarrow> bytes list" where
  "wal_segs d = map fst (segment_list (\<lambda>_. False) (entries d))"

definition buffered :: "Writer \<Rightarrow> bytes \<Rightarrow> bytes" where
  "buffered w n =
     (case (w_activeSeg w, w_activeBuf w) of
        (Some f, Some b) \<Rightarrow> if fst f = n then bw_buf b else []
      | _ \<Rightarrow> [])"

text \<open>The contents of the segments in this order, what is still buffered included.\<close>

definition wal_parts :: "Writer \<Rightarrow> disk \<Rightarrow> bytes list" where
  "wal_parts w d = map (\<lambda>n. file_data n d @ buffered w n) (wal_segs d)"

definition wal_log :: "Writer \<Rightarrow> disk \<Rightarrow> bytes" where
  "wal_log w d = concat (wal_parts w d)"

definition disk_parts :: "disk \<Rightarrow> bytes list" where
  "disk_parts d = map (\<lambda>n. file_data n d) (wal_segs d)"

text \<open>
  The abstract log: a list of segments. A line goes to the last segment when there is an active
  one and the line fits, otherwise to a new segment.
\<close>

definition abs_append :: "int \<Rightarrow> bool \<Rightarrow> bytes \<Rightarrow> bytes list \<Rightarrow> bytes list" where
  "abs_append max_bytes active p parts =
     (if active \<and> int (length (last parts)) + int (length p) \<le> max_bytes
      then butlast parts @ [last parts @ p] else parts @ [p])"

lemma concat_abs_append:
  "(active \<Longrightarrow> parts \<noteq> []) \<Longrightarrow> concat (abs_append m active p parts) = concat parts @ p"
proof -
  assume "active \<Longrightarrow> parts \<noteq> []"
  moreover have "parts \<noteq> [] \<Longrightarrow> concat (butlast parts) @ last parts = concat parts"
    by (induction parts) auto
  ultimately show ?thesis by (auto simp: abs_append_def)
qed

definition on_disk :: "disk \<Rightarrow> bytes" where
  "on_disk d = concat (map (\<lambda>n. file_synced n d) (wal_segs d))"

text \<open>
  Names are the writer's own: a number has one segment, and no directory is named like one.
\<close>

definition canonical :: "disk \<Rightarrow> bool" where
  "canonical d \<longleftrightarrow> (\<forall>e\<in>set (entries d). (HasPrefix (fst e) ''wal-'' \<longrightarrow> \<not> snd e)
     \<and> (\<forall>k. seg_num e = Some k \<longrightarrow> 0 < k \<and> fst e = seg_name k))"

definition wal_inv :: "Writer \<Rightarrow> disk \<Rightarrow> bool" where
  "wal_inv w d \<longleftrightarrow> dir_ok d \<and> canonical d
     \<and> (case (w_activeSeg w, w_activeBuf w) of
           (None, None) \<Rightarrow> True
         | (Some f, Some b) \<Rightarrow>
             snd f \<and> fst f = w_activeName w \<and> has_file (fst f) d \<and> seg_num (fst f, False) = Some (seg_max d)
             \<and> bw_err b = None \<and> length (bw_buf b) \<le> buf_size
             \<and> w_activeSize w = int (length (stream (fst f) b d))
         | _ \<Rightarrow> False)"

lemma sort_key_max_last:
  fixes f :: "'a \<Rightarrow> 'b::linorder"
  assumes "distinct ys" and "x \<in> set ys" and "\<And>y. y \<in> set ys \<Longrightarrow> y \<noteq> x \<Longrightarrow> f y < f x"
  shows "sort_key f ys = sort_key f (filter (\<lambda>y. y \<noteq> x) ys) @ [x]"
proof (rule properties_for_sort_key)
  have one: "filter (\<lambda>y. y = x) ys = [x]"
    using assms(1,2) by (induction ys) (auto simp: filter_empty_conv)
  have "mset ys = mset (filter (\<lambda>y. y \<noteq> x) ys) + mset (filter (\<lambda>y. y = x) ys)"
    by (induction ys) auto
  with one show "mset (sort_key f (filter (\<lambda>y. y \<noteq> x) ys) @ [x]) = mset ys" by simp
  fix k assume "k \<in> set (sort_key f (filter (\<lambda>y. y \<noteq> x) ys) @ [x])"
  then have k: "k \<in> set ys" using assms(2) by auto
  show "filter (\<lambda>y. f k = f y) (sort_key f (filter (\<lambda>y. y \<noteq> x) ys) @ [x]) = filter (\<lambda>y. f k = f y) ys"
  proof (cases "k = x")
    case True
    have "filter (\<lambda>y. f x = f y) ys = filter (\<lambda>y. y = x) ys"
      using assms(3) by (intro filter_cong) fastforce+
    moreover have "filter (\<lambda>y. f x = f y) (filter (\<lambda>y. y \<noteq> x) ys) = []"
      using assms(3) by (fastforce simp: filter_empty_conv)
    ultimately show ?thesis using True one by (simp add: filter_sort)
  next
    case False
    with assms(3) k have "f k < f x" by blast
    moreover from this have "filter (\<lambda>y. f k = f y) (filter (\<lambda>y. y \<noteq> x) ys) = filter (\<lambda>y. f k = f y) ys"
      by (auto simp: filter_filter intro!: filter_cong)
    moreover have "filter (\<lambda>y. f k = f y) (sort_key f zs) = filter (\<lambda>y. f k = f y) zs" for zs
      using sort_key_stable [of f "f k" zs] by (simp add: eq_commute [of "f k"])
    ultimately show ?thesis by auto
  qed
next
  show "sorted (map f (sort_key f (filter (\<lambda>y. y \<noteq> x) ys) @ [x]))"
    using assms(3) by (auto simp: sorted_append intro: less_imp_le)
qed

subsection \<open>Growing a file keeps the directory\<close>

lemma map_ndir:
  "distinct (map fst ds) \<Longrightarrow>
   map (\<lambda>(n, x). (n, x = NDir)) ds = map (\<lambda>n. (n, map_of ds n = Some NDir)) (map fst ds)"
proof -
  assume "distinct (map fst ds)"
  then have *: "x = NDir \<longleftrightarrow> map_of ds n = Some NDir" if "(n, x) \<in> set ds" for n x
    using that map_of_is_SomeI by fastforce
  have "(case p of (n, x) \<Rightarrow> (n, x = NDir)) = (fst p, map_of ds (fst p) = Some NDir)" if "p \<in> set ds" for p
    using that * [of "fst p" "snd p"] by (simp add: case_prod_unfold)
  then show ?thesis by (simp only: map_map comp_def cong: map_cong)
qed

lemma grows_entries: "dir_ok d \<Longrightarrow> grows n d d' \<Longrightarrow> entries d' = entries d"
proof -
  assume d: "dir_ok d" and g: "grows n d d'"
  have "map_of (dk_dir d') m = Some NDir \<longleftrightarrow> map_of (dk_dir d) m = Some NDir" for m
    using g by (cases "m = n") (auto simp: grows_def)
  moreover have "map fst (dk_dir d') = map fst (dk_dir d)" using g by (simp add: grows_def)
  ultimately have "map (\<lambda>(n, x). (n, x = NDir)) (dk_dir d') = map (\<lambda>(n, x). (n, x = NDir)) (dk_dir d)"
    using d by (simp only: map_ndir dir_ok_def)
  then show ?thesis by (simp add: entries_def)
qed

lemma grows_keeps:
  assumes "dir_ok d" and "grows n d d'"
  shows "dir_ok d'" and "wal_segs d' = wal_segs d" and "seg_max d' = seg_max d" and "canonical d' = canonical d"
    and "\<And>m. has_file m d' = has_file m d" and "\<And>m. m \<noteq> n \<Longrightarrow> file_data m d' = file_data m d"
proof -
  have e: "entries d' = entries d" by (rule grows_entries [OF assms])
  show "dir_ok d'" using assms by (simp add: dir_ok_def grows_def)
  show "wal_segs d' = wal_segs d" "seg_max d' = seg_max d" "canonical d' = canonical d"
    by (simp_all add: e wal_segs_def seg_max_def canonical_def)
  have m: "map_of (dk_dir d') m = map_of (dk_dir d) m" if "m \<noteq> n" for m
    using assms(2) that unfolding grows_def by blast
  show "m \<noteq> n \<Longrightarrow> file_data m d' = file_data m d" for m unfolding file_data_def using m [of m] by simp
  show "has_file m d' = has_file m d" for m
  proof (cases "m = n")
    case True
    with assms(2) show ?thesis by (simp add: grows_def)
  next
    case False
    from m [OF False] show ?thesis unfolding has_file_def by simp
  qed
qed

text \<open>The active segment is the last one of the log.\<close>

lemma set_wal_segs: "set (wal_segs d) = {fst e |e. e \<in> set (entries d) \<and> seg_num e \<noteq> None}"
proof -
  have "set (wal_segs d) = fst ` {e \<in> set (entries d). is_segment e \<and> seg_atoi (fst e) \<noteq> None}"
    by (simp add: wal_segs_def segment_list_def image_image)
  then show ?thesis by (auto simp: seg_num_def image_def split: if_splits)
qed

lemma wal_parts_cong:
  assumes "wal_segs d' = wal_segs d"
    and "\<And>n. n \<in> set (wal_segs d) \<Longrightarrow> file_data n d' @ buffered w' n = file_data n d @ buffered w n"
  shows "wal_parts w' d' = wal_parts w d"
  using assms by (simp add: wal_parts_def cong: map_cong)

lemma distinct_entries: "dir_ok d \<Longrightarrow> distinct (map fst (entries d))"
proof -
  assume "dir_ok d"
  then have "distinct (map fst (map (\<lambda>(n, x). (n, x = NDir)) (dk_dir d)))"
    by (simp add: dir_ok_def comp_def case_prod_unfold)
  moreover have "mset (map fst (entries d)) = mset (map fst (map (\<lambda>(n, x). (n, x = NDir)) (dk_dir d)))"
    unfolding entries_def mset_map mset_sort ..
  ultimately show ?thesis by (metis mset_eq_imp_distinct_iff)
qed

lemma distinct_wal_segs: "dir_ok d \<Longrightarrow> distinct (wal_segs d)"
proof -
  assume "dir_ok d"
  then have "distinct (map fst (map (\<lambda>e. (fst e, the (seg_atoi (fst e)))) (entries d)))"
    using distinct_entries by (simp add: comp_def)
  then show ?thesis
    unfolding wal_segs_def segment_list_def by (simp add: distinct_map) (auto simp: inj_on_def)
qed

lemma segment_list_last:
  assumes "distinct (map fst es)" and "e \<in> set es" and "seg_num e = Some k" and "\<not> skip (fst e)"
    and "\<And>e' k'. e' \<in> set es \<Longrightarrow> seg_num e' = Some k' \<Longrightarrow> e' \<noteq> e \<Longrightarrow> k' < k"
  shows "segment_list skip es = segment_list skip (filter (\<lambda>x. x \<noteq> e) es) @ [(fst e, k)]"
proof -
  let ?P = "\<lambda>e. is_segment e \<and> \<not> skip (fst e) \<and> seg_atoi (fst e) \<noteq> None"
  let ?g = "\<lambda>e. (fst e, the (seg_atoi (fst e)))"
  let ?ys = "map ?g (filter ?P es)"
  have k: "?g e = (fst e, k)" "?P e" using assms(3,4) by (auto simp: seg_num_def split: if_splits)
  have inj: "inj_on fst (set es)" using assms(1) by (simp add: distinct_map)
  have "distinct ?ys"
    using assms(1) by (rule_tac distinct_map [THEN iffD2]) (auto simp: distinct_map inj_on_def)
  moreover have "(fst e, k) \<in> set ?ys"
    unfolding k(1) [symmetric] using k(2) assms(2) by (intro set_map [THEN equalityD2, THEN subsetD] imageI) simp
  moreover have "snd y < k" if y: "y \<in> set ?ys" "y \<noteq> (fst e, k)" for y
  proof -
    from y(1) obtain e' where e': "e' \<in> set es" "?P e'" "y = ?g e'" by auto
    with y(2) k have "e' \<noteq> e" by auto
    with assms(5) [OF e'(1)] e' show ?thesis by (auto simp: seg_num_def)
  qed
  ultimately have "sort_key snd ?ys = sort_key snd (filter (\<lambda>y. y \<noteq> (fst e, k)) ?ys) @ [(fst e, k)]"
    by (intro sort_key_max_last) auto
  moreover have "filter (\<lambda>y. y \<noteq> (fst e, k)) ?ys = map ?g (filter ?P (filter (\<lambda>x. x \<noteq> e) es))"
  proof -
    have "filter (\<lambda>y. y \<noteq> (fst e, k)) ?ys = map ?g (filter (\<lambda>x. ?g x \<noteq> (fst e, k)) (filter ?P es))"
      by (simp add: filter_map comp_def)
    also have "filter (\<lambda>x. ?g x \<noteq> (fst e, k)) (filter ?P es) = filter (\<lambda>x. x \<noteq> e) (filter ?P es)"
    proof (rule filter_cong [OF refl])
      fix x assume "x \<in> set (filter ?P es)"
      then have "x \<in> set es" by simp
      then have "fst x = fst e \<longleftrightarrow> x = e" using inj assms(2) by (meson inj_on_eq_iff)
      with k(1) show "?g x \<noteq> (fst e, k) \<longleftrightarrow> x \<noteq> e" by auto
    qed
    also have "filter (\<lambda>x. x \<noteq> e) (filter ?P es) = filter ?P (filter (\<lambda>x. x \<noteq> e) es)"
      unfolding filter_filter by (rule filter_cong) auto
    finally show ?thesis .
  qed
  ultimately show ?thesis by (simp add: segment_list_def)
qed

subsection \<open>Opening the next segment\<close>

lemma seg_max_nonneg: "0 \<le> seg_max d"
  by (simp add: seg_max_def max_segment_nonneg)

lemma seg_max_ge: "e \<in> set (entries d) \<Longrightarrow> seg_num e = Some k \<Longrightarrow> k \<le> seg_max d"
  by (simp add: seg_max_def max_segment_ge)

definition add_file :: "bytes \<Rightarrow> disk \<Rightarrow> disk" where
  "add_file n d = d\<lparr>dk_dir := dk_dir d @ [(n, NFile [] 0)]\<rparr>"

lemma set_entries_add: "set (entries (add_file n d)) = insert (n, False) (set (entries d))"
  by (simp add: set_entries add_file_def)

lemma entries_add_filter:
  assumes "map_of (dk_dir d) n = None"
  shows "filter (\<lambda>x. x \<noteq> (n, False)) (entries (add_file n d)) = entries d"
proof -
  have "filter (\<lambda>x. x \<noteq> (n, False)) (map (\<lambda>(n, x). (n, x = NDir)) (dk_dir d)) = map (\<lambda>(n, x). (n, x = NDir)) (dk_dir d)"
    using assms by (intro filter_True) (auto simp: map_of_eq_None_iff image_iff)
  then show ?thesis by (simp add: entries_def add_file_def filter_sort)
qed

text \<open>The facts about adding a segment whose number is above all others.\<close>

definition next_seg :: "disk \<Rightarrow> int \<Rightarrow> bool" where
  "next_seg d k \<longleftrightarrow> dir_ok d \<and> canonical d \<and> seg_max d < k \<and> k < 2 ^ 63"

lemma next_segD:
  assumes "next_seg d k"
  shows "dir_ok d" and "canonical d" and "seg_max d < k" and "k < 2 ^ 63"
  using assms by (simp_all add: next_seg_def)

lemma next_pos:
  assumes F: "next_seg d k"
  shows "0 < k"
  using next_segD(3) [OF F] seg_max_nonneg [of d] by linarith

lemma next_num:
  assumes F: "next_seg d k"
  shows "seg_num (seg_name k, False) = Some k"
  using next_pos [OF F] next_segD(4) [OF F] by (simp add: seg_num_seg_name)

lemma next_not_entry:
  assumes F: "next_seg d k"
  shows "(seg_name k, b) \<notin> set (entries d)"
proof
  assume *: "(seg_name k, b) \<in> set (entries d)"
  have "HasPrefix (seg_name k) ''wal-''" by (simp add: seg_name_def HasPrefix_def)
  with * next_segD(2) [OF F] have "\<not> b" unfolding canonical_def by fastforce
  with * next_num [OF F] seg_max_ge [of "(seg_name k, b)" d k] next_segD(3) [OF F] show False by simp
qed

lemma next_not_key:
  assumes F: "next_seg d k"
  shows "seg_name k \<notin> fst ` set (dk_dir d)"
proof
  assume "seg_name k \<in> fst ` set (dk_dir d)"
  then obtain x where "(seg_name k, x) \<in> set (dk_dir d)" by auto
  then have "(\<lambda>(n, x). (n, x = NDir)) (seg_name k, x) \<in> set (entries d)" unfolding set_entries by (rule imageI)
  with next_not_entry [OF F] show False by simp
qed

lemma next_unmapped:
  assumes F: "next_seg d k"
  shows "map_of (dk_dir d) (seg_name k) = None"
  using next_not_key [OF F] by (simp add: map_of_eq_None_iff)

lemma next_dir_ok:
  assumes F: "next_seg d k"
  shows "dir_ok (add_file (seg_name k) d)"
  using next_segD(1) [OF F] next_not_key [OF F] by (simp add: dir_ok_def add_file_def)

lemma next_canonical:
  assumes F: "next_seg d k"
  shows "canonical (add_file (seg_name k) d)"
  using next_segD(2) [OF F] next_num [OF F] next_pos [OF F] unfolding canonical_def set_entries_add by auto

lemma next_others:
  assumes F: "next_seg d k"
  shows "e \<in> set (entries (add_file (seg_name k) d)) \<Longrightarrow> seg_num e = Some j \<Longrightarrow> e \<noteq> (seg_name k, False) \<Longrightarrow> j < k"
  using seg_max_ge [of e d j] next_segD(3) [OF F] unfolding set_entries_add by auto

lemma next_max:
  assumes F: "next_seg d k"
  shows "seg_max (add_file (seg_name k) d) = k"
proof -
  let ?d = "add_file (seg_name k) d"
  have "k \<le> seg_max ?d" by (rule seg_max_ge [OF _ next_num [OF F]]) (simp add: set_entries_add)
  moreover have "seg_max ?d \<le> k"
    using max_segment_in [of "entries ?d"] next_others [OF F, of _ "seg_max ?d"] next_pos [OF F] next_num [OF F]
    unfolding seg_max_def by (fastforce simp: less_imp_le)
  ultimately show ?thesis by simp
qed

lemma next_segs:
  assumes F: "next_seg d k"
  shows "wal_segs (add_file (seg_name k) d) = wal_segs d @ [seg_name k]"
proof -
  let ?d = "add_file (seg_name k) d" and ?e = "(seg_name k, False)"
  have "segment_list (\<lambda>_. False) (entries ?d)
      = segment_list (\<lambda>_. False) (filter (\<lambda>x. x \<noteq> ?e) (entries ?d)) @ [(fst ?e, k)]"
    by (rule segment_list_last [OF distinct_entries [OF next_dir_ok [OF F]]])
      (use next_num [OF F] next_others [OF F] in \<open>auto simp: set_entries_add\<close>)
  then show ?thesis by (simp add: wal_segs_def entries_add_filter [OF next_unmapped [OF F]])
qed

lemma next_not_seg:
  assumes F: "next_seg d k"
  shows "seg_name k \<notin> set (wal_segs d)"
  using next_not_entry [OF F] by (auto simp: set_wal_segs)

lemma next_data:
  assumes F: "next_seg d k"
  shows "file_data n (add_file (seg_name k) d) = file_data n d"
  using next_unmapped [OF F] by (auto simp: file_data_def add_file_def map_add_def split: option.splits)

lemma next_has:
  assumes F: "next_seg d k"
  shows "has_file (seg_name k) (add_file (seg_name k) d)"
  using next_unmapped [OF F] by (simp add: has_file_def add_file_def map_add_def)

subsection \<open>The operations when no call fails\<close>

lemma quiet_update [simp]:
  "quiet (append_file n p d) = quiet d" "quiet (sync_file n d) = quiet d" "quiet (add_file n d) = quiet d"
  by (auto simp: quiet_def append_file_def sync_file_def add_file_def split: option.splits node.splits)

lemma File_quiet [simp]:
  "quiet d \<Longrightarrow> File_Write (n, True) p d = ((length p, None), append_file n p d)"
  "quiet d \<Longrightarrow> File_Sync (n, True) d = (Inr (), sync_file n d)"
  "quiet d \<Longrightarrow> File_Close (n, True) d = (Inr (), (n, False), d)"
  by (simp_all add: File_Write_def File_Sync_def File_Close_def)

lemma bw_Flush_quiet:
  assumes "quiet d" and "bw_err b = None"
  obtains d' where "bw_Flush (n, True) b d = (None, b\<lparr>bw_buf := []\<rparr>, d')" and "quiet d'" and "grows n d d'"
    and "has_file n d \<Longrightarrow> file_data n d' = stream n b d"
proof -
  obtain e b' d' where F: "bw_Flush (n, True) b d = (e, b', d')" by (cases "bw_Flush (n, True) b d")
  with assms have "e = None" "b' = b\<lparr>bw_buf := []\<rparr>" "quiet d'" by (auto simp: bw_Flush_def split: if_splits)
  moreover from this have "has_file n d \<Longrightarrow> file_data n d' = stream n b d"
    using bw_Flush_frame(2) [OF F] by (simp add: stream_def)
  ultimately show ?thesis using that F bw_Flush_frame(1) [OF F] by auto
qed

lemma bw_direct_quiet:
  assumes "quiet d" and "bw_err b = None"
  shows "\<exists>b' d'. bw_direct (n, True) p b d = ((length p, None), b', d') \<and> quiet d'"
  using assms by (simp add: bw_direct_def)

lemma bw_Write_quiet:
  assumes "quiet d" and "bw_err b = None" and "length (bw_buf b) \<le> buf_size" and "has_file n d"
  obtains b' d' where "bw_Write (n, True) p b d = ((length p, None), b', d')" and "quiet d'" and "grows n d d'"
    and "stream n b' d' = stream n b d @ p" and "bw_err b' = None" and "length (bw_buf b') \<le> buf_size"
proof -
  have "\<exists>b' d'. bw_Write (n, True) p b d = ((length p, None), b', d') \<and> quiet d'"
  proof (cases "length p \<le> buf_size - length (bw_buf b) \<or> bw_buf b = []")
    case True
    with assms bw_direct_quiet [of d b n p] show ?thesis by (auto simp: bw_Write_def)
  next
    case False
    let ?k = "buf_size - length (bw_buf b)"
    let ?b = "bw_put (take ?k p) b"
    have e: "bw_err ?b = None" "bw_err (?b\<lparr>bw_buf := []\<rparr>) = None" using assms(2) by (simp_all add: bw_put_def)
    obtain d1 where d1: "bw_Flush (n, True) ?b d = (None, ?b\<lparr>bw_buf := []\<rparr>, d1)" "quiet d1"
      using bw_Flush_quiet [OF assms(1) e(1), of n] by metis
    obtain b' d' where D: "bw_direct (n, True) (drop ?k p) (?b\<lparr>bw_buf := []\<rparr>) d1 = ((length (drop ?k p), None), b', d')" "quiet d'"
      using bw_direct_quiet [OF d1(2) e(2)] by blast
    have "bw_Write (n, True) p b d = bw_top_up (n, True) p b d" using False assms(2) by (simp add: bw_Write_def)
    also have "\<dots> = ((length p, None), b', d')"
      using False unfolding bw_top_up_def Let_def d1(1) by (simp add: D(1) del: bufw.simps length_drop) simp
    finally show ?thesis using D(2) by blast
  qed
  then obtain b' d' where W: "bw_Write (n, True) p b d = ((length p, None), b', d')" "quiet d'" by blast
  with bw_Write_frame [OF W(1) assms(3)] assms(4) that show ?thesis by simp
qed

text \<open>A stretch of time in which only the active file grew keeps the rest of the log.\<close>

lemma wal_parts_active:
  assumes "dir_ok d" and "grows n d d'" and "w_activeSeg w = Some (n, x)" and "w_activeBuf w = Some b"
    and "w_activeSeg w' = Some (n, x')" and "w_activeBuf w' = Some b'" and "stream n b' d' = stream n b d"
  shows "wal_parts w' d' = wal_parts w d"
  using assms grows_keeps [OF assms(1,2)] by (intro wal_parts_cong) (auto simp: buffered_def stream_def)

lemma seal_active_ok:
  assumes inv: "wal_inv w d" and q: "quiet d"
  obtains w' d' where "seal_active w d = (Inr (), w', d')" and "quiet d'" and "dir_ok d'" and "canonical d'"
    and "seg_max d' = seg_max d" and "wal_parts w' d' = wal_parts w d" and "w_cfg w' = w_cfg w"
    and "\<And>n. buffered w' n = []" and "wal_segs d' = wal_segs d"
    and "w_activeSeg w = Some (n, x) \<Longrightarrow> file_synced n d' = file_data n d'"
proof (cases "w_activeSeg w")
  case None
  with inv have "w_activeBuf w = None" by (auto simp: wal_inv_def split: option.splits)
  with None inv q that [of w d] show ?thesis by (simp add: seal_active_def wal_inv_def buffered_def)
next
  case (Some f)
  with inv obtain b n where f: "f = (n, True)" and b: "w_activeBuf w = Some b" "bw_err b = None"
    and n: "has_file n d" and d: "dir_ok d" "canonical d"
    by (cases f) (auto simp: wal_inv_def split: option.splits)
  from q b(2) obtain d1 where F: "bw_Flush (n, True) b d = (None, b\<lparr>bw_buf := []\<rparr>, d1)" "quiet d1" "grows n d d1"
    "file_data n d1 = stream n b d" using bw_Flush_quiet n by metis
  let ?w = "w\<lparr>w_activeBuf := Some (b\<lparr>bw_buf := []\<rparr>), w_activeSeg := Some (n, False)\<rparr>" and ?d = "sync_file n d1"
  have g: "grows n d ?d" using F(3) sync_file_grows grows_trans by blast
  have "seal_active w d = (Inr (), ?w, ?d)" using Some f b F by (simp add: seal_active_def)
  moreover have "stream n (b\<lparr>bw_buf := []\<rparr>) ?d = stream n b d" using F(4) by (simp add: stream_def)
  then have "wal_parts ?w ?d = wal_parts w d"
    using Some f b by (intro wal_parts_active [OF d(1) g, where x = True and x' = False]) simp_all
  ultimately show ?thesis
    using that [of ?w ?d] F grows_keeps [OF d(1) g] d f Some by (auto simp: buffered_def sync_file_synced)
qed

lemma open_next_ok:
  assumes q: "quiet d" and d: "dir_ok d" "canonical d" and k: "seg_max d + 1 < 2 ^ 63" and b: "\<And>n. buffered w n = []"
  defines "name \<equiv> seg_name (seg_max d + 1)"
  defines "w' \<equiv> w\<lparr>w_activeSeg := Some (name, True), w_activeBuf := Some new_bufw, w_activeSize := 0, w_activeName := name\<rparr>"
  shows "open_next w d = (Inr (), w', add_file name d)" and "wal_inv w' (add_file name d)"
    and "wal_parts w' (add_file name d) = wal_parts w d @ [[]]"
proof -
  have ns: "next_seg d (seg_max d + 1)" using d k by (simp add: next_seg_def)
  have made: "dk_made d" using d by (simp add: dir_ok_def)
  have "wrap64 (seg_max d + 1) = seg_max d + 1" using k seg_max_nonneg [of d] by (simp add: in_int64_def)
  then have "nextSegmentNum d = (seg_max d + 1, d)" using q made by (simp add: nextSegmentNum_def seg_max_def)
  moreover have "OpenAppend True name d = (Inr (), add_file name d)"
    using q made next_unmapped [OF ns] by (simp add: OpenAppend_def name_def add_file_def)
  moreover have "snd (purgeOldSegments w0 (add_file name d)) = add_file name d" for w0
    using q next_dir_ok [OF ns] by (simp add: purgeOldSegments_def name_def dir_ok_def Let_def)
  ultimately show "open_next w d = (Inr (), w', add_file name d)"
    by (simp add: open_next_def name_def w'_def Let_def)
  show "wal_inv w' (add_file name d)"
    using next_dir_ok [OF ns] next_canonical [OF ns] next_has [OF ns] next_max [OF ns] next_num [OF ns]
      next_data [OF ns] next_unmapped [OF ns]
    by (simp add: wal_inv_def w'_def name_def new_bufw_def stream_def file_data_def)
  show "wal_parts w' (add_file name d) = wal_parts w d @ [[]]"
  proof -
    have "file_data (seg_name (seg_max d + 1)) d = []" using next_unmapped [OF ns] by (simp add: file_data_def)
    moreover have "buffered w' n = []" for n by (simp add: buffered_def w'_def new_bufw_def)
    ultimately show ?thesis using next_segs [OF ns] next_data [OF ns] b by (simp add: wal_parts_def name_def)
  qed
qed

lemma rotate_ok:
  assumes inv: "wal_inv w d" and q: "quiet d" and k: "seg_max d + 1 < 2 ^ 63"
  obtains w' d' where "rotate_wal w d = (Inr (), w', d')" and "quiet d'" and "wal_inv w' d'"
    and "wal_parts w' d' = wal_parts w d @ [[]]" and "w_activeSize w' = 0" and "w_cfg w' = w_cfg w"
    and "w_activeSeg w' = Some (seg_name (seg_max d + 1), True)" and "seg_max d' = seg_max d + 1"
    and "wal_segs d' = wal_segs d @ [seg_name (seg_max d + 1)]"
proof -
  obtain w1 d1 where S: "seal_active w d = (Inr (), w1, d1)" "quiet d1" "dir_ok d1" "canonical d1"
    "seg_max d1 = seg_max d" "wal_parts w1 d1 = wal_parts w d" "w_cfg w1 = w_cfg w" "\<And>n. buffered w1 n = []"
    "wal_segs d1 = wal_segs d"
    by (rule seal_active_ok [OF inv q]) blast
  have ns: "next_seg d1 (seg_max d + 1)" using S k by (simp add: next_seg_def)
  show ?thesis
    using open_next_ok [OF S(2,3,4) _ S(8)] S k next_max [OF ns] next_segs [OF ns]
    by (intro that [OF _ _ open_next_ok(2) [OF S(2,3,4) _ S(8)]]) (simp_all add: rotate_wal_def)
qed

lemma wal_inv_active:
  assumes "wal_inv w d" and "w_activeSeg w = Some f"
  obtains b n where "f = (n, True)" and "w_activeBuf w = Some b" and "bw_err b = None"
    and "length (bw_buf b) \<le> buf_size" and "has_file n d" and "w_activeName w = n"
    and "w_activeSize w = int (length (stream n b d))" and "seg_num (n, False) = Some (seg_max d)"
proof -
  obtain n x where f: "f = (n, x)" by (cases f)
  show ?thesis
  proof (cases "w_activeBuf w")
    case None
    with assms show ?thesis by (simp add: wal_inv_def)
  next
    case (Some b)
    with assms f have "x \<and> n = w_activeName w \<and> has_file n d \<and> seg_num (n, False) = Some (seg_max d)
      \<and> bw_err b = None \<and> length (bw_buf b) \<le> buf_size \<and> w_activeSize w = int (length (stream n b d))"
      by (auto simp: wal_inv_def)
    with f Some show ?thesis by (intro that [of n b]) auto
  qed
qed

text \<open>When the active file only grew, the invariant is a matter of its buffer and size.\<close>

lemma wal_inv_grow:
  assumes "wal_inv w d" and "w_activeSeg w = Some (n, True)" and "grows n d d'"
    and "w_activeSeg w' = Some (n, True)" and "w_activeBuf w' = Some b'" and "w_activeName w' = w_activeName w"
    and "bw_err b' = None" and "length (bw_buf b') \<le> buf_size" and "w_activeSize w' = int (length (stream n b' d'))"
  shows "wal_inv w' d'"
proof -
  from assms(1) have d: "dir_ok d" "canonical d" by (simp_all add: wal_inv_def)
  from assms(1,2) obtain "has_file n d" "w_activeName w = n" "seg_num (n, False) = Some (seg_max d)"
    by (elim wal_inv_active) auto
  with assms grows_keeps [OF d(1) assms(3)] d show ?thesis by (simp add: wal_inv_def)
qed

lemma make_room_ok:
  assumes inv: "wal_inv w d" and q: "quiet d" and k: "seg_max d + 1 < 2 ^ 63"
  obtains w' d' where "make_room len w d = (Inr (), w', d')" and "quiet d'" and "wal_inv w' d'"
    and "wal_parts w' d' = (if w_activeSeg w = None \<or> w_activeSize w + int len > cfg_MaxSegmentBytes (w_cfg w)
           then wal_parts w d @ [[]] else wal_parts w d)" and "w_cfg w' = w_cfg w" and "w_activeSeg w' \<noteq> None"
    and "w_activeSize w' = 0 \<or> w_activeSize w' + int len \<le> cfg_MaxSegmentBytes (w_cfg w)"
    and "seg_max d \<le> seg_max d'" and "seg_max d' \<le> seg_max d + 1"
proof -
  obtain w1 d1 where R: "rotate_wal w d = (Inr (), w1, d1)" "quiet d1" "wal_inv w1 d1" "wal_parts w1 d1 = wal_parts w d @ [[]]"
    "w_activeSize w1 = 0" "w_cfg w1 = w_cfg w" "w_activeSeg w1 = Some (seg_name (seg_max d + 1), True)"
    "seg_max d1 = seg_max d + 1"
    by (rule rotate_ok [OF inv q k]) blast
  show ?thesis
  proof (cases "w_activeSeg w = None \<or> w_activeSize w + int len > cfg_MaxSegmentBytes (w_cfg w)")
    case True
    then have "make_room len w d = (Inr (), w1, d1)" using R(1,7) by (auto simp: make_room_def)
    with R True show ?thesis by (intro that [of w1 d1]) simp_all
  next
    case False
    with inv q show ?thesis by (intro that [of w d]) (auto simp: make_room_def)
  qed
qed

lemma wal_segs_active:
  assumes inv: "wal_inv w d" and a: "w_activeSeg w = Some (n, True)"
  obtains ss where "wal_segs d = ss @ [n]" and "n \<notin> set ss"
proof -
  have d: "dir_ok d" "canonical d" using inv by (simp_all add: wal_inv_def)
  from inv a have n: "has_file n d" "seg_num (n, False) = Some (seg_max d)" by (auto elim!: wal_inv_active)
  have "segment_list (\<lambda>_. False) (entries d)
      = segment_list (\<lambda>_. False) (filter (\<lambda>x. x \<noteq> (n, False)) (entries d)) @ [(fst (n, False), seg_max d)]"
  proof (rule segment_list_last [OF distinct_entries [OF d(1)]])
    show "(n, False) \<in> set (entries d)" using entries_file [OF d(1)] n(1) by simp
    fix e' k' assume e': "e' \<in> set (entries d)" "seg_num e' = Some k'" "e' \<noteq> (n, False)"
    then have k': "k' \<le> seg_max d" "fst e' = seg_name k'" "\<not> snd e'"
      using d(2) seg_max_ge [OF e'(1,2)] by (auto simp: canonical_def seg_num_def is_segment_def split: if_splits)
    moreover have "n = seg_name (seg_max d)"
      using d(2) n entries_file [OF d(1)] unfolding canonical_def by fastforce
    ultimately show "k' < seg_max d" using e'(3) by (cases e') (auto simp: order.order_iff_strict)
  qed (use n in simp_all)
  then obtain ss where segs: "wal_segs d = ss @ [n]" by (auto simp: wal_segs_def)
  have "distinct (wal_segs d)" by (rule distinct_wal_segs [OF d(1)])
  with segs that show ?thesis by simp
qed

lemma wal_parts_size:
  assumes "wal_inv w d" and "w_activeSeg w \<noteq> None"
  shows "w_activeSize w = int (length (last (wal_parts w d)))" and "wal_parts w d \<noteq> []"
proof -
  obtain f where f: "w_activeSeg w = Some f" using assms(2) by blast
  obtain b n where n: "f = (n, True)" "w_activeBuf w = Some b" "w_activeSize w = int (length (stream n b d))"
    using assms(1) f by (rule wal_inv_active)
  obtain ss where "wal_segs d = ss @ [n]" using f n(1) by (auto intro: wal_segs_active [OF assms(1)])
  with f n show "w_activeSize w = int (length (last (wal_parts w d)))" "wal_parts w d \<noteq> []"
    by (simp_all add: wal_parts_def buffered_def stream_def)
qed

lemma wal_parts_snoc:
  assumes inv: "wal_inv w d" and a: "w_activeSeg w = Some (n, True)" "w_activeBuf w = Some b"
    and g: "grows n d d'" and a': "w_activeSeg w' = Some (n, x)" "w_activeBuf w' = Some b'"
    and s: "stream n b' d' = stream n b d @ p"
  shows "wal_parts w' d' = butlast (wal_parts w d) @ [last (wal_parts w d) @ p]"
proof -
  have d: "dir_ok d" using inv by (simp add: wal_inv_def)
  obtain ss where "wal_segs d = ss @ [n]" "n \<notin> set ss" by (rule wal_segs_active [OF inv a(1)])
  then show ?thesis
    using s grows_keeps [OF d g] a a' by (auto simp: wal_parts_def buffered_def stream_def intro!: map_cong)
qed

lemma append_active_ok:
  assumes inv: "wal_inv w d" and q: "quiet d" and a: "w_activeSeg w \<noteq> None"
  obtains w' d' where "append_active p w d = (Inr (), w', d')" and "quiet d'" and "wal_inv w' d'"
    and "wal_parts w' d' = butlast (wal_parts w d) @ [last (wal_parts w d) @ p]" and "w_cfg w' = w_cfg w" and "w_activeSeg w' = w_activeSeg w"
    and "w_activeSize w' = w_activeSize w + int (length p)" and "w_seq w' = w_seq w + 1" and "seg_max d' = seg_max d"
    and "cfg_SyncInterval (w_cfg w) = 0 \<Longrightarrow> \<forall>n. w_activeSeg w = Some (n, True) \<longrightarrow> file_synced n d' = file_data n d @ buffered w n @ p"
proof -
  from a obtain f where "w_activeSeg w = Some f" by blast
  with inv obtain b n where f: "w_activeSeg w = Some (n, True)" and b: "w_activeBuf w = Some b" "bw_err b = None"
    "length (bw_buf b) \<le> buf_size" and n: "has_file n d" "w_activeName w = n"
    and sz: "w_activeSize w = int (length (stream n b d))" by (elim wal_inv_active) auto
  have d: "dir_ok d" using inv by (simp add: wal_inv_def)
  obtain b1 d1 where W: "bw_Write (n, True) p b d = ((length p, None), b1, d1)" "quiet d1" "grows n d d1"
    "stream n b1 d1 = stream n b d @ p" "bw_err b1 = None" "length (bw_buf b1) \<le> buf_size"
    using bw_Write_quiet [OF q b(2,3) n(1)] by metis
  let ?w1 = "w\<lparr>w_activeBuf := Some b1, w_activeSize := w_activeSize w + int (length p), w_seq := w_seq w + 1\<rparr>"
  have n1: "has_file n d1" and m1: "seg_max d1 = seg_max d" using grows_keeps [OF d W(3)] n by simp_all
  show ?thesis
  proof (cases "cfg_SyncInterval (w_cfg w) = 0")
    case False
    then have "append_active p w d = (Inr (), ?w1, d1)" using f b W(1) by (simp add: append_active_def Let_def)
    moreover have "wal_inv ?w1 d1"
      by (rule wal_inv_grow [OF inv f W(3) _ _ _ W(5,6)]) (simp_all add: f sz W(4))
    moreover have "wal_parts ?w1 d1 = butlast (wal_parts w d) @ [last (wal_parts w d) @ p]"
      by (rule wal_parts_snoc [OF inv f b(1) W(3), where x = True]) (use f W in simp_all)
    ultimately show ?thesis using False W(2) m1 by (intro that [of ?w1 d1]) simp_all
  next
    case True
    obtain d2 where F: "bw_Flush (n, True) b1 d1 = (None, b1\<lparr>bw_buf := []\<rparr>, d2)" "quiet d2" "grows n d1 d2"
      "file_data n d2 = stream n b1 d1" using bw_Flush_quiet [OF W(2,5)] n1 by metis
    let ?w2 = "?w1\<lparr>w_activeBuf := Some (b1\<lparr>bw_buf := []\<rparr>)\<rparr>" and ?d2 = "sync_file n d2"
    have g: "grows n d ?d2" using W(3) F(3) sync_file_grows grows_trans by blast
    have s: "stream n (b1\<lparr>bw_buf := []\<rparr>) ?d2 = stream n b d @ p" using F(4) W(4) by (simp add: stream_def)
    have "append_active p w d = (Inr (), ?w2, ?d2)" using True f b W(1,2) F(1,2) by (simp add: append_active_def Let_def)
    moreover have "wal_inv ?w2 ?d2"
      by (rule wal_inv_grow [OF inv f g, where b' = "b1\<lparr>bw_buf := []\<rparr>"]) (simp_all add: f sz s W(5))
    moreover have "wal_parts ?w2 ?d2 = butlast (wal_parts w d) @ [last (wal_parts w d) @ p]"
      by (rule wal_parts_snoc [OF inv f b(1) g, where x = True]) (use f s in simp_all)
    moreover have "file_synced n ?d2 = file_data n d @ buffered w n @ p"
      using F(4) W(4) f b by (simp add: sync_file_synced stream_def buffered_def)
    ultimately show ?thesis using F(2) grows_keeps(3) [OF d g] f by (intro that [of ?w2 ?d2]) simp_all
  qed
qed

lemma Write_ok:
  assumes inv: "wal_inv w d" and q: "quiet d" and k: "seg_max d + 1 < 2 ^ 63" and m: "marshal_entry e = Some s"
  obtains w' d' where "Write e w d = (Inr (), w', d')" and "quiet d'" and "wal_inv w' d'"
    and "wal_parts w' d' = abs_append (cfg_MaxSegmentBytes (w_cfg w)) (w_activeSeg w \<noteq> None) (s @ [newline]) (wal_parts w d)" and "w_cfg w' = w_cfg w"
    and "seg_max d' \<le> seg_max d + 1"
    and "w_activeSize w' \<le> max (cfg_MaxSegmentBytes (w_cfg w)) (int (length s) + 1)"
    and "cfg_SyncInterval (w_cfg w) = 0 \<Longrightarrow>
           \<forall>n. w_activeSeg w' = Some (n, True) \<longrightarrow> suffix (s @ [newline]) (file_synced n d')"
proof -
  let ?p = "s @ [newline]"
  obtain w1 d1 where R: "make_room (length ?p) w d = (Inr (), w1, d1)" "quiet d1" "wal_inv w1 d1"
    "wal_parts w1 d1 = (if w_activeSeg w = None \<or> w_activeSize w + int (length ?p) > cfg_MaxSegmentBytes (w_cfg w)
       then wal_parts w d @ [[]] else wal_parts w d)" "w_cfg w1 = w_cfg w" "w_activeSeg w1 \<noteq> None"
    "w_activeSize w1 = 0 \<or> w_activeSize w1 + int (length ?p) \<le> cfg_MaxSegmentBytes (w_cfg w)"
    "seg_max d1 \<le> seg_max d + 1"
    by (rule make_room_ok [OF inv q k]) blast
  obtain w2 d2 where A: "append_active ?p w1 d1 = (Inr (), w2, d2)" "quiet d2" "wal_inv w2 d2"
    "wal_parts w2 d2 = butlast (wal_parts w1 d1) @ [last (wal_parts w1 d1) @ ?p]" "w_cfg w2 = w_cfg w1" "w_activeSeg w2 = w_activeSeg w1"
    "w_activeSize w2 = w_activeSize w1 + int (length ?p)" "seg_max d2 = seg_max d1"
    "cfg_SyncInterval (w_cfg w1) = 0 \<Longrightarrow>
       \<forall>n. w_activeSeg w1 = Some (n, True) \<longrightarrow> file_synced n d2 = file_data n d1 @ buffered w1 n @ ?p"
    by (rule append_active_ok [OF R(3,2,6)]) blast
  have size: "w_activeSeg w \<noteq> None \<Longrightarrow> w_activeSize w = int (length (last (wal_parts w d)))"
    by (rule wal_parts_size(1) [OF inv])
  show ?thesis
  proof (rule that)
    show "wal_parts w2 d2 = abs_append (cfg_MaxSegmentBytes (w_cfg w)) (w_activeSeg w \<noteq> None) ?p (wal_parts w d)"
      using A(4) R(4) size by (auto simp: abs_append_def)
    show "Write e w d = (Inr (), w2, d2)" using m R(1) A(1) by (simp add: Write_def Let_def)
    show "cfg_SyncInterval (w_cfg w) = 0 \<Longrightarrow>
        \<forall>n. w_activeSeg w2 = Some (n, True) \<longrightarrow> suffix ?p (file_synced n d2)"
      using A(9) R(5) A(6) by (auto simp: suffix_def)
  qed (use A R in auto)
qed

subsection \<open>Whatever fails, nothing that was logged is lost\<close>

definition keeps_files :: "disk \<Rightarrow> disk \<Rightarrow> bool" where
  "keeps_files d d' \<longleftrightarrow> (\<forall>n. has_file n d \<longrightarrow> has_file n d' \<and> prefix (file_data n d) (file_data n d')
     \<and> prefix (file_synced n d) (file_synced n d'))"

lemma keeps_refl [simp]: "keeps_files d d"
  by (simp add: keeps_files_def)

lemma keeps_trans [trans]: "keeps_files d d' \<Longrightarrow> keeps_files d' d'' \<Longrightarrow> keeps_files d d''"
  unfolding keeps_files_def by (blast intro: prefix_order.trans)

lemma keeps_same_dir: "dk_dir d' = dk_dir d \<Longrightarrow> keeps_files d d'"
  by (simp add: keeps_files_def has_file_def file_data_def file_synced_def)

lemma grows_keeps_files: "grows n d d' \<Longrightarrow> keeps_files d d'"
proof -
  assume g: "grows n d d'"
  have "map_of (dk_dir d') m = map_of (dk_dir d) m" if "m \<noteq> n" for m
    using g that by (simp add: grows_def)
  then have "m \<noteq> n \<Longrightarrow> has_file m d' = has_file m d \<and> file_data m d' = file_data m d \<and> file_synced m d' = file_synced m d" for m
    by (simp add: has_file_def file_data_def file_synced_def)
  with g show ?thesis unfolding keeps_files_def grows_def by (metis prefix_order.refl)
qed

lemma ReadDir_same: "ReadDir d = (r, d') \<Longrightarrow> dk_dir d' = dk_dir d \<and> dk_made d' = dk_made d"
  by (auto simp: ReadDir_def split: prod.splits option.splits if_splits dest: next_fault_frame)

lemma nextSegmentNum_same: "nextSegmentNum d = (k, d') \<Longrightarrow> dk_dir d' = dk_dir d"
  by (auto simp: nextSegmentNum_def split: prod.splits sum.splits dest: ReadDir_same)

lemma purgeOldSegments_same: "purgeOldSegments w d = (r, d') \<Longrightarrow> dk_dir d' = dk_dir d"
  by (auto simp: purgeOldSegments_def Let_def split: prod.splits sum.splits if_splits dest: ReadDir_same)

lemma purge_dir: "dk_dir (snd (purgeOldSegments w d)) = dk_dir d"
  by (cases "purgeOldSegments w d") (simp add: purgeOldSegments_same)

lemma OpenAppend_keeps: "OpenAppend c n d = (r, d') \<Longrightarrow> keeps_files d d' \<and> (r = Inr () \<longrightarrow> has_file n d')"
proof -
  assume O: "OpenAppend c n d = (r, d')"
  obtain f d1 where N: "next_fault d = (f, d1)" by (cases "next_fault d")
  have dir: "dk_dir d1 = dk_dir d" using next_fault_frame [OF N] by simp
  show ?thesis
  proof (cases "f = None \<and> map_of (dk_dir d1) n = None \<and> c \<and> dk_made d1")
    case True
    with O N have "d' = d1\<lparr>dk_dir := dk_dir d1 @ [(n, NFile [] 0)]\<rparr>" by (simp add: OpenAppend_def)
    moreover have "keeps_files d d'"
      unfolding keeps_files_def has_file_def file_data_def file_synced_def \<open>d' = _\<close>
      by (auto simp: dir map_add_def split: option.splits)
    ultimately show ?thesis using True by (simp add: has_file_def map_add_def)
  next
    case False
    with O N have "d' = d1" and "r = Inr () \<longrightarrow> has_file n d1"
      by (auto simp: OpenAppend_def has_file_def split: option.splits node.splits if_splits)
    then show ?thesis using keeps_same_dir [OF dir] by simp
  qed
qed

lemma seal_active_keeps:
  assumes "seal_active w d = (r, w', d')"
  shows "keeps_files d d'"
proof (cases "(w_activeSeg w, w_activeBuf w)")
  case (Pair s t)
  show ?thesis
  proof (cases "s = None \<or> t = None")
    case True
    with assms Pair show ?thesis by (auto simp: seal_active_def split: option.splits)
  next
    case False
    then obtain f b where fb: "w_activeSeg w = Some f" "w_activeBuf w = Some b" using Pair by auto
    obtain e b1 d1 where F: "bw_Flush f b d = (e, b1, d1)" by (cases "bw_Flush f b d")
    obtain r2 d2 where S: "File_Sync f d1 = (r2, d2)" by (cases "File_Sync f d1")
    obtain r3 f3 d3 where C: "File_Close f d2 = (r3, f3, d3)" by (cases "File_Close f d2")
    have "keeps_files d d1" "keeps_files d1 d2" "keeps_files d2 d3"
      using bw_Flush_frame(1) [OF F] File_Sync_frame(1) [OF S] File_Close_frame(1) [OF C]
      by (auto intro: grows_keeps_files keeps_same_dir)
    moreover have "d' = d1 \<or> d' = d2 \<or> d' = d3"
      using assms fb F S C by (auto simp: seal_active_def split: option.splits sum.splits)
    ultimately show ?thesis by (blast intro: keeps_trans)
  qed
qed

lemma open_next_keeps:
  assumes "open_next w d = (r, w', d')"
  shows "keeps_files d d'"
proof -
  obtain k d1 where K: "nextSegmentNum d = (k, d1)" by (cases "nextSegmentNum d")
  obtain r2 d2 where O: "OpenAppend True (seg_name k) d1 = (r2, d2)" by (cases "OpenAppend True (seg_name k) d1")
  have "keeps_files d d2" using nextSegmentNum_same [OF K] OpenAppend_keeps [OF O] by (blast intro: keeps_same_dir keeps_trans)
  moreover have "dk_dir d' = dk_dir d2"
    using assms K O by (auto simp: open_next_def Let_def purge_dir split: sum.splits)
  ultimately show ?thesis by (blast intro: keeps_same_dir keeps_trans)
qed

lemma rotate_keeps: "rotate_wal w d = (r, w', d') \<Longrightarrow> keeps_files d d'"
  by (auto simp: rotate_wal_def split: prod.splits sum.splits
      dest!: seal_active_keeps open_next_keeps intro: keeps_trans)

lemma make_room_keeps: "make_room len w d = (r, w', d') \<Longrightarrow> keeps_files d d'"
  by (auto simp: make_room_def split: prod.splits sum.splits if_splits dest!: rotate_keeps intro: keeps_trans)

lemma append_active_keeps:
  assumes A: "append_active p w d = (r, w', d')" and b: "\<And>b. w_activeBuf w = Some b \<Longrightarrow> length (bw_buf b) \<le> buf_size"
  shows "keeps_files d d'"
proof (cases "w_activeSeg w = None \<or> w_activeBuf w = None")
  case True
  with A show ?thesis by (auto simp: append_active_def split: option.splits)
next
  case False
  then obtain f b0 where fb: "w_activeSeg w = Some f" "w_activeBuf w = Some b0" by auto
  obtain k e b1 d1 where W: "bw_Write f p b0 d = ((k, e), b1, d1)" by (cases "bw_Write f p b0 d") auto
  obtain e2 b2 d2 where F: "bw_Flush f b1 d1 = (e2, b2, d2)" by (cases "bw_Flush f b1 d1")
  obtain r3 d3 where S: "File_Sync f d2 = (r3, d3)" by (cases "File_Sync f d2")
  have "keeps_files d d1" "keeps_files d1 d2" "keeps_files d2 d3"
    using bw_Write_frame(1) [OF W b [OF fb(2)]] bw_Flush_frame(1) [OF F] File_Sync_frame(1) [OF S]
    by (auto intro: grows_keeps_files)
  moreover have "d' = d1 \<or> d' = d2 \<or> d' = d3"
    using A fb W F S by (auto simp: append_active_def Let_def split: option.splits sum.splits if_splits)
  ultimately show ?thesis by (blast intro: keeps_trans)
qed

text \<open>What holds of a writer in every state, also after errors.\<close>

definition writer_ok :: "Writer \<Rightarrow> disk \<Rightarrow> bool" where
  "writer_ok w d \<longleftrightarrow>
     (case (w_activeSeg w, w_activeBuf w) of
        (None, None) \<Rightarrow> True
      | (Some f, Some b) \<Rightarrow> has_file (fst f) d \<and> length (bw_buf b) \<le> buf_size
      | _ \<Rightarrow> False)"

lemma writer_ok_cases:
  assumes "writer_ok w d"
  obtains "w_activeSeg w = None" and "w_activeBuf w = None"
    | f b where "w_activeSeg w = Some f" and "w_activeBuf w = Some b" and "has_file (fst f) d"
        and "length (bw_buf b) \<le> buf_size"
  using assms by (cases "w_activeSeg w"; cases "w_activeBuf w") (simp_all add: writer_ok_def)

lemma keeps_has: "keeps_files d d' \<Longrightarrow> has_file n d \<Longrightarrow> has_file n d'"
  by (simp add: keeps_files_def)

lemma seal_active_writer:
  assumes W: "writer_ok w d" and S: "seal_active w d = (r, w', d')"
  shows "writer_ok w' d'"
  using W
proof (cases rule: writer_ok_cases)
  case 1
  with S show ?thesis by (auto simp: seal_active_def writer_ok_def)
next
  case (2 f b)
  obtain e b1 d1 where F: "bw_Flush f b d = (e, b1, d1)" by (cases "bw_Flush f b d")
  have "length (bw_buf b1) \<le> buf_size" using bw_Flush_frame(5) [OF F] 2 by simp
  moreover have "w_activeBuf w' = Some b1 \<and> (\<exists>x. w_activeSeg w' = Some (fst f, x))"
    using S 2 F by (cases f) (auto simp: seal_active_def split: option.splits sum.splits prod.splits dest!: File_Close_frame(3))
  ultimately show ?thesis using keeps_has [OF seal_active_keeps [OF S] 2(3)] by (auto simp: writer_ok_def)
qed

lemma open_next_writer:
  assumes W: "writer_ok w d" and S: "open_next w d = (r, w', d')"
  shows "writer_ok w' d'" and "r = Inr () \<Longrightarrow> w_activeSeg w' \<noteq> None"
proof -
  obtain k d1 where K: "nextSegmentNum d = (k, d1)" by (cases "nextSegmentNum d")
  obtain r2 d2 where O: "OpenAppend True (seg_name k) d1 = (r2, d2)" by (cases "OpenAppend True (seg_name k) d1")
  have keep: "keeps_files d d'" by (rule open_next_keeps [OF S])
  have "writer_ok w' d' \<and> (r = Inr () \<longrightarrow> w_activeSeg w' \<noteq> None)"
  proof (cases r2)
    case (Inl e)
    with S K O have "w' = w" "r \<noteq> Inr ()" by (auto simp: open_next_def Let_def)
    with W keep show ?thesis by (auto simp: writer_ok_def keeps_has split: option.splits)
  next
    case (Inr u)
    then have "has_file (seg_name k) d2" using OpenAppend_keeps [OF O] by simp
    moreover have "dk_dir d' = dk_dir d2" using S K O Inr by (auto simp: open_next_def Let_def purge_dir)
    ultimately have "has_file (seg_name k) d'" by (simp add: has_file_def)
    with S K O Inr show ?thesis by (auto simp: open_next_def Let_def writer_ok_def new_bufw_def)
  qed
  then show "writer_ok w' d'" "r = Inr () \<Longrightarrow> w_activeSeg w' \<noteq> None" by auto
qed

lemma rotate_writer:
  assumes W: "writer_ok w d" and R: "rotate_wal w d = (r, w', d')"
  shows "writer_ok w' d'" and "r = Inr () \<Longrightarrow> w_activeSeg w' \<noteq> None"
proof -
  obtain r1 w1 d1 where S: "seal_active w d = (r1, w1, d1)" by (cases "seal_active w d")
  note w1 = seal_active_writer [OF W S]
  have "r1 = Inr () \<and> open_next w1 d1 = (r, w', d') \<or> r \<noteq> Inr () \<and> w' = w1 \<and> d' = d1"
    using R S by (cases r1) (auto simp: rotate_wal_def)
  then show "writer_ok w' d'" "r = Inr () \<Longrightarrow> w_activeSeg w' \<noteq> None"
    using open_next_writer [OF w1] w1 by metis+
qed

lemma make_room_writer:
  assumes "writer_ok w d" and "make_room len w d = (r, w', d')"
  shows "writer_ok w' d'" and "r = Inr () \<Longrightarrow> w_activeSeg w' \<noteq> None"
  using assms
  by (auto simp: make_room_def split: prod.splits sum.splits if_splits dest: rotate_writer(1) rotate_writer(2) [OF _ _ refl])

lemma append_active_writer:
  assumes W: "writer_ok w d" and A: "append_active p w d = (r, w', d')"
  shows "writer_ok w' d'"
    and "r = Inr () \<Longrightarrow> \<exists>f b. w_activeSeg w' = Some f \<and> w_activeBuf w' = Some b \<and> suffix p (stream (fst f) b d')"
proof -
  have keep: "keeps_files d d'"
    by (rule append_active_keeps [OF A]) (use W in \<open>auto elim!: writer_ok_cases\<close>)
  from W have "writer_ok w' d' \<and> (r = Inr () \<longrightarrow>
      (\<exists>f b. w_activeSeg w' = Some f \<and> w_activeBuf w' = Some b \<and> suffix p (stream (fst f) b d')))"
  proof (cases rule: writer_ok_cases)
    case 1
    with A show ?thesis by (auto simp: append_active_def writer_ok_def)
  next
    case (2 f b0)
    obtain k e b1 d1 where B: "bw_Write f p b0 d = ((k, e), b1, d1)" by (cases "bw_Write f p b0 d") auto
    obtain e2 b2 d2 where F: "bw_Flush f b1 d1 = (e2, b2, d2)" by (cases "bw_Flush f b1 d1")
    obtain r3 d3 where S: "File_Sync f d2 = (r3, d3)" by (cases "File_Sync f d2")
    note wf = bw_Write_frame [OF B 2(4)] and ff = bw_Flush_frame [OF F] and sf = File_Sync_frame [OF S]
    have n: "has_file (fst f) d1" using wf(1) 2(3) by (simp add: grows_def)
    have res: "w_activeSeg w' = Some f \<and> (w_activeBuf w' = Some b1 \<and> d' = d1
        \<or> w_activeBuf w' = Some b2 \<and> d' \<in> {d2, d3}) \<and> (r = Inr () \<longrightarrow> e = None)"
      using A 2 B F S by (auto simp: append_active_def Let_def split: option.splits sum.splits if_splits)
    have "stream (fst f) b2 d2 = stream (fst f) b1 d1" "stream (fst f) b2 d3 = stream (fst f) b1 d1"
      using ff(2) n sf(2) by (simp_all add: stream_def)
    moreover have "e = None \<Longrightarrow> suffix p (stream (fst f) b1 d1)"
      using wf(2,4) 2(3) by (auto simp: suffix_def)
    ultimately show ?thesis
      using res wf(5) ff(5) keeps_has [OF keep 2(3)] by (auto simp: writer_ok_def)
  qed
  then show "writer_ok w' d'"
    "r = Inr () \<Longrightarrow> \<exists>f b. w_activeSeg w' = Some f \<and> w_activeBuf w' = Some b \<and> suffix p (stream (fst f) b d')" by auto
qed

lemma Write_writer:
  assumes W: "writer_ok w d" and S: "Write e w d = (r, w', d')"
  shows "writer_ok w' d'" and "keeps_files d d'"
    and "r = Inr () \<Longrightarrow> \<exists>s f b. marshal_entry e = Some s \<and> w_activeSeg w' = Some f \<and> w_activeBuf w' = Some b
       \<and> suffix (s @ [newline]) (stream (fst f) b d')"
proof -
  have "writer_ok w' d' \<and> keeps_files d d' \<and> (r = Inr () \<longrightarrow>
      (\<exists>s f b. marshal_entry e = Some s \<and> w_activeSeg w' = Some f \<and> w_activeBuf w' = Some b
       \<and> suffix (s @ [newline]) (stream (fst f) b d')))"
  proof (cases "marshal_entry e")
    case None
    with W S show ?thesis by (auto simp: Write_def)
  next
    case (Some s)
    let ?p = "s @ [newline]"
    obtain r1 w1 d1 where R: "make_room (length ?p) w d = (r1, w1, d1)" by (cases "make_room (length ?p) w d")
    have w1: "writer_ok w1 d1" and k1: "keeps_files d d1"
      using make_room_writer [OF W R] make_room_keeps [OF R] by simp_all
    show ?thesis
    proof (cases r1)
      case (Inl x)
      with S Some R w1 k1 show ?thesis by (auto simp: Write_def Let_def)
    next
      case (Inr u)
      with S Some R have A: "append_active ?p w1 d1 = (r, w', d')" by (simp add: Write_def Let_def)
      have "keeps_files d1 d'"
        by (rule append_active_keeps [OF A]) (use w1 in \<open>auto elim!: writer_ok_cases\<close>)
      with k1 append_active_writer [OF w1 A] Some show ?thesis by (auto intro: keeps_trans)
    qed
  qed
  then show "writer_ok w' d'" "keeps_files d d'" "r = Inr () \<Longrightarrow> \<exists>s f b. marshal_entry e = Some s
     \<and> w_activeSeg w' = Some f \<and> w_activeBuf w' = Some b \<and> suffix (s @ [newline]) (stream (fst f) b d')" by auto
qed

subsection \<open>Opening, flushing and closing when no call fails\<close>

lemma wal_parts_unbuffered: "(\<And>n. buffered w n = []) \<Longrightarrow> wal_parts w d = disk_parts d"
  by (simp add: wal_parts_def disk_parts_def)

lemma openLatest_ok:
  assumes q: "quiet d" and d: "dir_ok d" "canonical d" and w: "w_activeSeg w = None" "w_activeBuf w = None"
  obtains w' where "openLatest w d = (Inr (), w', d)" and "wal_inv w' d" and "wal_parts w' d = disk_parts d"
    and "w_cfg w' = w_cfg w" and "w_closed w' = w_closed w" and "w_activeSeg w' = None \<longrightarrow> w' = w"
proof -
  have made: "dk_made d" using d by (simp add: dir_ok_def)
  let ?l = "fst (latest_segment (entries d))"
  note spec = latest_segment_spec [of "entries d", folded seg_max_def]
  show ?thesis
  proof (cases "?l = []")
    case True
    then have max0: "seg_max d = 0" using spec by simp
    have "seg_num e = None" if "e \<in> set (entries d)" for e
      using that d(2) seg_max_ge [OF that] max0 unfolding canonical_def by (cases "seg_num e") fastforce+
    then have "set (wal_segs d) = {}" by (auto simp: set_wal_segs)
    with True q made d w show ?thesis
      by (intro that [of w]) (simp_all add: openLatest_def Let_def wal_inv_def wal_parts_unbuffered buffered_def)
  next
    case False
    then have l: "(?l, False) \<in> set (entries d)" "seg_num (?l, False) = Some (seg_max d)" using spec by simp_all
    then have h: "has_file ?l d" using entries_file [OF d(1)] by simp
    then obtain b k where m: "map_of (dk_dir d) ?l = Some (NFile b k)" by (auto simp: has_file_def)
    let ?w = "w\<lparr>w_activeSeg := Some (?l, True), w_activeBuf := Some new_bufw,
        w_activeSize := int (length (file_data ?l d)), w_activeName := ?l\<rparr>"
    have "openLatest w d = (Inr (), ?w, d)"
      using False q made m by (simp add: openLatest_def Let_def OpenAppend_def Stat_def)
    moreover have "wal_inv ?w d" using d h l(2) by (simp add: wal_inv_def new_bufw_def stream_def)
    moreover have "buffered ?w n = []" for n by (simp add: buffered_def new_bufw_def)
    ultimately show ?thesis by (intro that [of ?w]) (simp_all add: wal_parts_unbuffered)
  qed
qed

lemma rotate_closed: "rotate_wal w d = (r, w', d') \<Longrightarrow> w_closed w' = w_closed w"
  by (auto simp: rotate_wal_def seal_active_def open_next_def Let_def
      split: prod.splits sum.splits option.splits)

lemma NewWriter_ok:
  assumes q: "quiet d" and u: "distinct (map fst (dk_dir d))" and c: "canonical d" and k: "seg_max d + 1 < 2 ^ 63"
  obtains w d' where "NewWriter cfg d = (Inr w, d')" and "quiet d'" and "wal_inv w d'"
    and "concat (wal_parts w d') = concat (disk_parts d)" and "wal_parts w d' \<in> {disk_parts d, disk_parts d @ [[]]}" and "w_cfg w = norm_config cfg" and "w_activeSize w = 0"
    and "\<not> w_closed w" and "seg_max d' \<le> seg_max d + 1" and "w_activeSeg w = None \<longrightarrow> w_activeName w = []"
proof -
  let ?d = "d\<lparr>dk_made := True\<rparr>"
  let ?w0 = "blank_writer (norm_config cfg)"
  have e: "entries ?d = entries d" by (simp add: entries_def)
  have dd: "quiet ?d" "dir_ok ?d" "canonical ?d" "seg_max ?d = seg_max d" "disk_parts ?d = disk_parts d"
    using q u c by (simp_all add: quiet_def dir_ok_def canonical_def e seg_max_def disk_parts_def wal_segs_def file_data_def)
  obtain w1 where O: "openLatest ?w0 ?d = (Inr (), w1, ?d)" "wal_inv w1 ?d" "wal_parts w1 ?d = disk_parts ?d"
    "w_cfg w1 = w_cfg ?w0" "w_closed w1 = w_closed ?w0" "w_activeSeg w1 = None \<longrightarrow> w1 = ?w0"
    by (rule openLatest_ok [OF dd(1-3), of ?w0]) (auto simp: blank_writer_def)
  have N: "NewWriter cfg d =
      (case (if w_activeSeg w1 \<noteq> None \<and> w_activeSize w1 > 0 then rotate_wal w1 ?d else (Inr (), w1, ?d)) of
         (Inl e, _, d) \<Rightarrow> (Inl (ESeal e), d)
       | (Inr _, w, d) \<Rightarrow> (Inr (w\<lparr>w_ticking := (cfg_SyncInterval (norm_config cfg) > 0)\<rparr>), d))"
    using O(1) q by (simp add: NewWriter_def MkdirAll_def Let_def)
  have tick: "wal_inv (w\<lparr>w_ticking := x\<rparr>) d' = wal_inv w d'" "wal_parts (w\<lparr>w_ticking := x\<rparr>) d' = wal_parts w d'" for w x d'
    by (simp_all add: wal_inv_def wal_parts_def buffered_def split: option.split)
  show ?thesis
  proof (cases "w_activeSeg w1 \<noteq> None \<and> w_activeSize w1 > 0")
    case True
    obtain w2 d2 where R: "rotate_wal w1 ?d = (Inr (), w2, d2)" "quiet d2" "wal_inv w2 d2" "wal_parts w2 d2 = wal_parts w1 ?d @ [[]]"
      "w_activeSize w2 = 0" "w_cfg w2 = w_cfg w1" "seg_max d2 = seg_max ?d + 1"
      "w_activeSeg w2 = Some (seg_name (seg_max ?d + 1), True)"
      by (rule rotate_ok [OF O(2) dd(1)]) (use k dd(4) in auto)
    with True N O dd(4,5) rotate_closed [OF R(1)] show ?thesis
      by (intro that [of "w2\<lparr>w_ticking := (cfg_SyncInterval (norm_config cfg) > 0)\<rparr>" d2])
        (simp_all add: tick blank_writer_def)
  next
    case False
    have "w_activeSize w1 = 0"
    proof (cases "w_activeSeg w1")
      case None
      with O(6) show ?thesis by (simp add: blank_writer_def)
    next
      case (Some f)
      with O(2) False show ?thesis by (elim wal_inv_active [where w = w1]) auto
    qed
    with False N O dd show ?thesis
      by (intro that [of "w1\<lparr>w_ticking := (cfg_SyncInterval (norm_config cfg) > 0)\<rparr>" ?d]) (auto simp: tick blank_writer_def)
  qed
qed

lemma sync_tick_ok:
  assumes inv: "wal_inv w d" and q: "quiet d"
  obtains w' d' where "sync_tick w d = (w', d')" and "quiet d'" and "wal_inv w' d'"
    and "wal_parts w' d' = wal_parts w d" and "\<And>n. buffered w' n = []"
    and "\<And>n x. w_activeSeg w = Some (n, x) \<Longrightarrow> file_synced n d' = file_data n d'"
proof (cases "w_activeSeg w")
  case None
  with inv have "w_activeBuf w = None" by (auto simp: wal_inv_def split: option.splits)
  with None inv q show ?thesis by (intro that [of w d]) (simp_all add: sync_tick_def buffered_def)
next
  case (Some f)
  with inv obtain b n where f: "w_activeSeg w = Some (n, True)" and b: "w_activeBuf w = Some b" "bw_err b = None"
    and n: "has_file n d" and sz: "w_activeSize w = int (length (stream n b d))" by (elim wal_inv_active) auto
  have d: "dir_ok d" using inv by (simp add: wal_inv_def)
  obtain d1 where F: "bw_Flush (n, True) b d = (None, b\<lparr>bw_buf := []\<rparr>, d1)" "quiet d1" "grows n d d1"
    "file_data n d1 = stream n b d" using bw_Flush_quiet [OF q b(2)] n by metis
  let ?w = "w\<lparr>w_activeBuf := Some (b\<lparr>bw_buf := []\<rparr>)\<rparr>" and ?d = "sync_file n d1"
  have g: "grows n d ?d" using F(3) sync_file_grows grows_trans by blast
  have s: "stream n (b\<lparr>bw_buf := []\<rparr>) ?d = stream n b d" using F(4) by (simp add: stream_def)
  have "sync_tick w d = (?w, ?d)" using f b F by (simp add: sync_tick_def)
  moreover have "wal_inv ?w ?d"
    by (rule wal_inv_grow [OF inv f g, where b' = "b\<lparr>bw_buf := []\<rparr>"]) (simp_all add: f sz s b)
  moreover have "wal_parts ?w ?d = wal_parts w d"
    by (rule wal_parts_active [OF d g f b(1), where x' = True and b' = "b\<lparr>bw_buf := []\<rparr>"]) (simp_all add: f s)
  ultimately show ?thesis
    using F(2) f by (intro that [of ?w ?d]) (simp_all add: buffered_def sync_file_synced)
qed

lemma Close_ok:
  assumes inv: "wal_inv w d" and q: "quiet d" and c: "\<not> w_closed w"
  obtains w' d' where "Close w d = (w', d')" and "quiet d'" and "disk_parts d' = wal_parts w d"
    and "w_activeSeg w' = None" and "w_activeBuf w' = None" and "w_closed w'" and "dir_ok d'" and "canonical d'"
    and "seg_max d' = seg_max d" and "\<And>n x. w_activeSeg w = Some (n, x) \<Longrightarrow> file_synced n d' = file_data n d'"
proof -
  obtain w1 d1 where T: "sync_tick w d = (w1, d1)" "quiet d1" "wal_inv w1 d1" "wal_parts w1 d1 = wal_parts w d"
    "\<And>n. buffered w1 n = []" "\<And>n x. w_activeSeg w = Some (n, x) \<Longrightarrow> file_synced n d1 = file_data n d1"
    using sync_tick_ok [OF inv q] by metis
  have b: "disk_parts d1 = wal_parts w d" using T(4) wal_parts_unbuffered [OF T(5)] by simp
  show ?thesis
  proof (cases "w_activeSeg w")
    case None
    with inv have n: "w_activeBuf w = None" by (auto simp: wal_inv_def split: option.splits)
    with None T(1) have "d1 = d" by (simp add: sync_tick_def)
    with None n c inv b q show ?thesis
      by (intro that [of "w\<lparr>w_closed := True, w_ticking := False\<rparr>" d]) (simp_all add: Close_def Let_def wal_inv_def)
  next
    case (Some f)
    with inv obtain b0 n where f: "w_activeSeg w = Some (n, True)" "w_activeBuf w = Some b0"
      and sm: "seg_num (n, False) = Some (seg_max d)" by (elim wal_inv_active) auto
    obtain e b1 d2 where F: "bw_Flush (n, True) b0 d = (e, b1, d2)" by (cases "bw_Flush (n, True) b0 d")
    with T(1) f have d1: "d1 = snd (File_Sync (n, True) d2)" by (simp add: sync_tick_def)
    let ?w = "w\<lparr>w_closed := True, w_ticking := False, w_activeSeg := None, w_activeBuf := None\<rparr>"
    have "Close w d = (?w, d1)"
      using c f F T(2) d1 by (simp add: Close_def Let_def)
    moreover have "dir_ok d1" "canonical d1" using T(3) by (simp_all add: wal_inv_def)
    moreover have "seg_max d1 = seg_max d"
      using F File_Sync_frame(1) [of "(n, True)" d2 _ d1] bw_Flush_frame(1) [OF F] inv d1
      by (metis fst_conv grows_keeps(3) grows_trans prod.collapse wal_inv_def)
    ultimately show ?thesis using b T(2,6) by (intro that [of ?w d1]) simp_all
  qed
qed

subsection \<open>Properties\<close>

text \<open>A directory, a configuration and an entry the examples use.\<close>

definition empty_disk :: disk where
  "empty_disk = \<lparr>dk_made = True, dk_dir = [], dk_faults = []\<rparr>"

definition sample_disk :: disk where
  "sample_disk = \<lparr>dk_made = True, dk_dir = [(''wal-000003.log'', NFile ''x'' 0), (''notes'', NFile [] 0)], dk_faults = []\<rparr>"

definition sample_config :: "int \<Rightarrow> WalConfig" where
  "sample_config iv = \<lparr>cfg_Dir = ''w'', cfg_MaxSegmentBytes = 1000, cfg_MaxSegments = 3, cfg_SyncInterval = iv\<rparr>"

definition sample_entry :: Entry where
  "sample_entry = zero_entry\<lparr>ent_Project := ''p'', ent_Data := Some ''[1, 2]''\<rparr>"

lemma sample_facts:
  "wal_inv (blank_writer c) empty_disk" "quiet empty_disk" "seg_max empty_disk = 0"
  "writer_ok (blank_writer c) d"
  by (simp_all add: wal_inv_def dir_ok_def canonical_def entries_def blank_writer_def empty_disk_def quiet_def
      seg_max_def max_segment_def writer_ok_def)

lemma sample_entry_marshal: "marshal_entry sample_entry \<noteq> None"
  by code_simp

lemma sample_entries: "entries sample_disk = [(''notes'', False), (''wal-000003.log'', False)]"
  by code_simp

lemma sample_seg_num: "seg_num (''notes'', False) = None" "seg_num (''wal-000003.log'', False) = Some 3"
  "seg_name 3 = ''wal-000003.log''"
  by code_simp+

lemma sample_disk_facts:
  "quiet sample_disk" "distinct (map fst (dk_dir sample_disk))" "canonical sample_disk" "seg_max sample_disk = 3"
  "dir_ok sample_disk"
proof -
  show "canonical sample_disk" unfolding canonical_def sample_entries by (auto simp: sample_seg_num)
  show "seg_max sample_disk = 3" unfolding seg_max_def by code_simp
qed (simp_all add: sample_disk_def quiet_def dir_ok_def)

text \<open>
  C4: \<open>Write\<close> refines the abstract append. With the invariant, no failing call and room for another
  segment number, writing an entry that marshals succeeds, keeps the invariant, and changes the
  list of segment contents exactly as \<open>abs_append\<close> does: the line goes to the active segment if it
  fits there, otherwise to a new one. So the log read over all segments in replay order grows by
  that line, and the active segment stays within \<open>MaxSegmentBytes\<close> unless the line alone is longer.
\<close>

theorem Write_appends:
  assumes "wal_inv w d" and "quiet d" and "seg_max d + 1 < 2 ^ 63" and "marshal_entry e = Some s"
  shows "\<exists>w' d'. Write e w d = (Inr (), w', d') \<and> wal_inv w' d' \<and> quiet d'
    \<and> wal_parts w' d' = abs_append (cfg_MaxSegmentBytes (w_cfg w)) (w_activeSeg w \<noteq> None) (s @ [newline]) (wal_parts w d)
    \<and> wal_log w' d' = wal_log w d @ s @ [newline]
    \<and> w_activeSize w' \<le> max (cfg_MaxSegmentBytes (w_cfg w)) (int (length s) + 1)"
proof -
  obtain w' d' where W: "Write e w d = (Inr (), w', d')" "quiet d'" "wal_inv w' d'"
    "wal_parts w' d' = abs_append (cfg_MaxSegmentBytes (w_cfg w)) (w_activeSeg w \<noteq> None) (s @ [newline]) (wal_parts w d)"
    "w_activeSize w' \<le> max (cfg_MaxSegmentBytes (w_cfg w)) (int (length s) + 1)"
    by (rule Write_ok [OF assms]) blast
  moreover have "wal_log w' d' = wal_log w d @ s @ [newline]"
    unfolding wal_log_def W(4) using wal_parts_size(2) [OF assms(1)] by (rule concat_abs_append)
  ultimately show ?thesis by blast
qed

theorem Write_appends_witness:
  "\<exists>s w' d'. marshal_entry sample_entry = Some s
    \<and> Write sample_entry (blank_writer (sample_config 0)) empty_disk = (Inr (), w', d')
    \<and> wal_log w' d' = wal_log (blank_writer (sample_config 0)) empty_disk @ s @ [newline]"
proof -
  obtain s where "marshal_entry sample_entry = Some s" using sample_entry_marshal by blast
  with Write_appends [of "blank_writer (sample_config 0)" empty_disk sample_entry s] sample_facts
  show ?thesis by auto
qed

text \<open>
  C12: whatever calls fail, and in whatever order, \<open>Write\<close> keeps the writer well formed, no file of
  the directory disappears and none loses a byte, synced or not. When it reports success the
  entry's line is at the end of the stream of the active segment.
\<close>

theorem Write_safe:
  assumes "writer_ok w d" and "Write e w d = (r, w', d')"
  shows "writer_ok w' d' \<and> keeps_files d d' \<and> (r = Inr () \<longrightarrow>
    (\<exists>s f b. marshal_entry e = Some s \<and> w_activeSeg w' = Some f \<and> w_activeBuf w' = Some b
       \<and> suffix (s @ [newline]) (stream (fst f) b d')))"
  using Write_writer [OF assms] by blast

theorem Write_safe_witness:
  "let (r, w', d') = Write sample_entry (blank_writer (sample_config 0)) (empty_disk\<lparr>dk_faults := [None, None, None, Some 4]\<rparr>)
   in r = Inl (EFlush ErrIO) \<and> writer_ok w' d'"
proof -
  let ?w = "blank_writer (sample_config 0)" and ?d = "empty_disk\<lparr>dk_faults := [None, None, None, Some 4]\<rparr>"
  obtain r w' d' where W: "Write sample_entry ?w ?d = (r, w', d')" by (cases "Write sample_entry ?w ?d")
  moreover have "fst (Write sample_entry ?w ?d) = Inl (EFlush ErrIO)" by code_simp
  ultimately show ?thesis using Write_safe [OF sample_facts(4) W] by simp
qed

lemma append_active_durable:
  assumes W: "writer_ok w d" and A: "append_active p w d = (Inr (), w', d')" and i: "cfg_SyncInterval (w_cfg w) = 0"
  shows "\<exists>f. w_activeSeg w' = Some f \<and> suffix p (file_synced (fst f) d')"
  using W
proof (cases rule: writer_ok_cases)
  case 1
  with A show ?thesis by (simp add: append_active_def)
next
  case (2 f b0)
  obtain k e b1 d1 where B: "bw_Write f p b0 d = ((k, e), b1, d1)" by (cases "bw_Write f p b0 d") auto
  obtain e2 b2 d2 where F: "bw_Flush f b1 d1 = (e2, b2, d2)" by (cases "bw_Flush f b1 d1")
  obtain r3 d3 where S: "File_Sync f d2 = (r3, d3)" by (cases "File_Sync f d2")
  have res: "w_activeSeg w' = Some f" "d' = d3" "e = None" "e2 = None" "r3 = Inr ()"
    using A 2 B F S i by (auto simp: append_active_def Let_def split: option.splits sum.splits if_splits)
  note wf = bw_Write_frame [OF B 2(4)] and ff = bw_Flush_frame [OF F] and sf = File_Sync_frame [OF S]
  have "has_file (fst f) d1" using wf(1) 2(3) by (simp add: grows_def)
  then have "file_data (fst f) d2 = stream (fst f) b0 d @ p"
    using ff(2,4) wf(2,4) 2(3) res by (simp add: stream_def)
  with sf(2,3) res show ?thesis by (auto simp: suffix_def)
qed

lemma rotate_cfg: "rotate_wal w d = (r, w', d') \<Longrightarrow> w_cfg w' = w_cfg w"
  by (auto simp: rotate_wal_def seal_active_def open_next_def Let_def
      split: prod.splits sum.splits option.splits)

lemma make_room_cfg: "make_room len w d = (r, w', d') \<Longrightarrow> w_cfg w' = w_cfg w"
  by (auto simp: make_room_def split: prod.splits sum.splits if_splits dest!: rotate_cfg)

text \<open>
  C18: with a sync interval of 0, and whatever calls fail, a \<open>Write\<close> that reports success has put
  the entry's line on the disk: it ends the synced part of the active segment's file.
\<close>

theorem Write_durable:
  assumes "writer_ok w d" and "Write e w d = (Inr (), w', d')" and "cfg_SyncInterval (w_cfg w) = 0"
  shows "\<exists>s f. marshal_entry e = Some s \<and> w_activeSeg w' = Some f \<and> suffix (s @ [newline]) (file_synced (fst f) d')"
proof -
  obtain s where s: "marshal_entry e = Some s" using assms(2) by (auto simp: Write_def split: option.splits)
  obtain r1 w1 d1 where R: "make_room (length (s @ [newline])) w d = (r1, w1, d1)"
    by (cases "make_room (length (s @ [newline])) w d")
  with assms(2) s have "append_active (s @ [newline]) w1 d1 = (Inr (), w', d')"
    by (auto simp: Write_def Let_def split: sum.splits)
  from append_active_durable [OF make_room_writer(1) [OF assms(1) R] this] assms(3) make_room_cfg [OF R] s
  show ?thesis by auto
qed

theorem Write_durable_witness:
  "\<exists>s f w' d'. Write sample_entry (blank_writer (sample_config 0)) empty_disk = (Inr (), w', d')
     \<and> marshal_entry sample_entry = Some s \<and> w_activeSeg w' = Some f \<and> suffix (s @ [newline]) (file_synced (fst f) d')"
proof -
  let ?w = "blank_writer (sample_config 0)"
  obtain r w' d' where W: "Write sample_entry ?w empty_disk = (r, w', d')" by (cases "Write sample_entry ?w empty_disk")
  moreover have "fst (Write sample_entry ?w empty_disk) = Inr ()" by code_simp
  ultimately have "Write sample_entry ?w empty_disk = (Inr (), w', d')" by simp
  with Write_durable [OF sample_facts(4) this] show ?thesis by (auto simp: blank_writer_def sample_config_def)
qed



text \<open>
  C20: opening a writer on a directory left by an earlier run succeeds when no call fails, keeps
  every byte of the old segments in the log, and leaves no bytes in the active segment: all old
  data is in sealed segments, which replay will see.
\<close>

theorem NewWriter_seals:
  assumes "quiet d" and "distinct (map fst (dk_dir d))" and "canonical d" and "seg_max d + 1 < 2 ^ 63"
  shows "\<exists>w d'. NewWriter cfg d = (Inr w, d') \<and> wal_inv w d' \<and> quiet d' \<and> wal_log w d' = concat (disk_parts d)
    \<and> w_activeSize w = 0 \<and> w_cfg w = norm_config cfg"
  by (rule NewWriter_ok [OF assms, of cfg]) (auto simp: wal_log_def)

theorem NewWriter_seals_witness:
  "\<exists>w d'. NewWriter (sample_config 0) sample_disk = (Inr w, d') \<and> wal_log w d' = ''x'' \<and> w_activeSize w = 0"
proof -
  have "concat (disk_parts sample_disk) = ''x''" by code_simp
  with NewWriter_seals [of sample_disk "sample_config 0"] sample_disk_facts show ?thesis by auto
qed

text \<open>
  \<open>Close\<close> leaves the whole log in the files, the active segment synced, and a second \<open>Close\<close>
  changes nothing.
\<close>

theorem Close_flushes:
  assumes "wal_inv w d" and "quiet d" and "\<not> w_closed w" and "Close w d = (w', d')"
  shows "concat (disk_parts d') = wal_log w d \<and> (\<forall>n x. w_activeSeg w = Some (n, x) \<longrightarrow> file_synced n d' = file_data n d')
    \<and> w_activeSeg w' = None \<and> Close w' d' = (w', d')"
proof -
  obtain w1 d1 where C: "Close w d = (w1, d1)" "disk_parts d1 = wal_parts w d" "w_activeSeg w1 = None" "w_closed w1"
    "\<And>n x. w_activeSeg w = Some (n, x) \<Longrightarrow> file_synced n d1 = file_data n d1"
    using Close_ok [OF assms(1-3)] by metis
  with assms(4) show ?thesis by (auto simp: Close_def wal_log_def)
qed

theorem Close_flushes_witness:
  "\<exists>w' d'. Close (blank_writer (sample_config 0)) empty_disk = (w', d') \<and> Close w' d' = (w', d')"
proof -
  obtain w' d' where C: "Close (blank_writer (sample_config 0)) empty_disk = (w', d')"
    by (cases "Close (blank_writer (sample_config 0)) empty_disk")
  with Close_flushes [OF sample_facts(1,2) _ C] show ?thesis by (simp add: blank_writer_def)
qed

lemma faults_frame [simp]:
  "entries (d\<lparr>dk_faults := x\<rparr>) = entries d" "dir_ok (d\<lparr>dk_faults := x\<rparr>) = dir_ok d"
  "has_file n (d\<lparr>dk_faults := x\<rparr>) = has_file n d" "file_data n (d\<lparr>dk_faults := x\<rparr>) = file_data n d"
  by (simp_all add: entries_def dir_ok_def has_file_def file_data_def)

lemma wal_inv_faults [simp]: "wal_inv w (d\<lparr>dk_faults := x\<rparr>) = wal_inv w d"
  by (simp add: wal_inv_def canonical_def seg_max_def stream_def split: option.split)

lemma rotate_create_failed:
  assumes inv: "wal_inv w d" and R: "rotate_wal w d = (Inl (ECreate nm x), w1, d1)" and a: "w_activeSeg w \<noteq> None"
  obtains n b where "w_activeSeg w1 = Some (n, False)" and "w_activeBuf w1 = Some b" and "bw_err b = None"
    and "bw_buf b = []" and "w_activeSize w1 = w_activeSize w" and "w_cfg w1 = w_cfg w"
proof -
  obtain f where f: "w_activeSeg w = Some f" using a by blast
  obtain b0 n where b0: "f = (n, True)" "w_activeBuf w = Some b0" "bw_err b0 = None" using inv f by (rule wal_inv_active)
  obtain e b1 d2 where F: "bw_Flush f b0 d = (e, b1, d2)" by (cases "bw_Flush f b0 d")
  obtain r3 d3 where S: "File_Sync f d2 = (r3, d3)" by (cases "File_Sync f d2")
  obtain r4 f4 d4 where C: "File_Close f d3 = (r4, f4, d4)" by (cases "File_Close f d3")
  have "e = None \<and> w_activeSeg w1 = Some f4 \<and> w_activeBuf w1 = Some b1 \<and> w_activeSize w1 = w_activeSize w \<and> w_cfg w1 = w_cfg w"
    using R f b0 F S C by (auto simp: rotate_wal_def seal_active_def open_next_def Let_def split: option.splits sum.splits prod.splits)
  moreover have "f4 = (n, False)" using File_Close_frame(3) [OF C] b0 by simp
  moreover have "e = None \<Longrightarrow> bw_err b1 = None \<and> bw_buf b1 = []" using bw_Flush_frame(3,4) [OF F] by simp
  ultimately show ?thesis using that by blast
qed


text \<open>The writer after one entry, on a disk whose sixth later call (the creation) fails.\<close>

definition sample_rotated :: "Writer \<times> disk" where
  "sample_rotated = (case Write sample_entry (blank_writer (sample_config 1)) empty_disk of
     (_, w, d) \<Rightarrow> (w, d\<lparr>dk_faults := [None, None, None, None, Some 0]\<rparr>))"


end
