(* ===== verification/Wal_Replay.thy ===== *)
theory Wal_Replay
  imports Wal_Laws
begin

text \<open>
  The replay half of \<open>internal/wal/wal.go\<close>: \<open>bufio.Scanner\<close> over a segment, the replay of one
  segment and of all sealed segments, the deletion of what was replayed, and \<open>ReadAll\<close>.
  The callback is an argument: it takes an entry and its own state, and accepts, fails or panics.
\<close>

subsection \<open>bufio.Scanner with ScanLines\<close>

text \<open>
  A line fits when it is shorter than the larger of the initial 64 KB buffer and the token limit;
  the scan stops at the first line that does not. The result is the lines before that one and
  whether the scan ended in \<open>ErrTooLong\<close>. The last line needs no line break; a carriage return
  at the end of a line is dropped.
\<close>

definition scan_limit :: "nat \<Rightarrow> nat" where
  "scan_limit maxTok = max 65536 maxTok"

definition drop_cr :: "bytes \<Rightarrow> bytes" where
  "drop_cr l = (if l \<noteq> [] \<and> last l = CHR 13 then butlast l else l)"

function scan_lines :: "nat \<Rightarrow> bytes \<Rightarrow> bytes list \<times> bool" where
  "scan_lines B s =
     (if s = [] then ([], False)
      else let l = takeWhile (\<lambda>c. c \<noteq> newline) s; r = dropWhile (\<lambda>c. c \<noteq> newline) s
           in if B \<le> length l then ([], True)
              else case scan_lines B (drop 1 r) of (ls, e) \<Rightarrow> (drop_cr l # ls, e))"
  by pat_completeness auto
termination
proof (relation "measure (length \<circ> snd)")
  fix B :: nat and s l r :: bytes
  assume "s \<noteq> []" and r: "r = dropWhile (\<lambda>c. c \<noteq> newline) s"
  show "((B, drop 1 r), (B, s)) \<in> measure (length \<circ> snd)"
  proof (cases "r = []")
    case True
    with \<open>s \<noteq> []\<close> show ?thesis by simp
  next
    case False
    have "length r \<le> length s" unfolding r by (rule length_dropWhile_le)
    moreover have "length (drop 1 r) < length r" using False by simp
    ultimately show ?thesis by simp
  qed
qed simp

declare scan_lines.simps [simp del]

definition hardReplayLineCap :: int where "hardReplayLineCap = 64 * 2 ^ 20"

definition maxReplayLineBytes :: "int \<Rightarrow> int" where
  "maxReplayLineBytes m = (if 0 < m \<and> m < hardReplayLineCap then m else hardReplayLineCap)"

subsection \<open>Replaying one segment\<close>

datatype cb_result = CbOk | CbErr | CbPanic

type_synonym 's callback = "Entry \<Rightarrow> 's \<Rightarrow> cb_result \<times> 's"

datatype replay_error = ReplayOpen os_error | ReplayEntry | ReplayScan

text \<open>A panic of the callback is turned into an error.\<close>

definition invokeReplayCallback :: "'s callback \<Rightarrow> Entry \<Rightarrow> 's \<Rightarrow> bool \<times> 's" where
  "invokeReplayCallback fn e s = (case fn e s of (CbOk, s) \<Rightarrow> (True, s) | (_, s) \<Rightarrow> (False, s))"

text \<open>The loop over the lines: empty and corrupt ones are skipped, the first failure ends it.\<close>

fun replay_lines :: "'s callback \<Rightarrow> bytes list \<Rightarrow> nat \<Rightarrow> 's \<Rightarrow> nat \<times> bool \<times> 's" where
  "replay_lines fn [] cnt s = (cnt, True, s)"
| "replay_lines fn (l # ls) cnt s =
     (if l = [] then replay_lines fn ls cnt s
      else case unmarshal_entry l of
        None \<Rightarrow> replay_lines fn ls cnt s
      | Some e \<Rightarrow>
          (case invokeReplayCallback fn e s of
             (True, s) \<Rightarrow> replay_lines fn ls (Suc cnt) s
           | (False, s) \<Rightarrow> (cnt, False, s)))"

definition replaySegment :: "WalConfig \<Rightarrow> bytes \<Rightarrow> 's callback \<Rightarrow> 's \<Rightarrow> disk
    \<Rightarrow> (nat \<times> replay_error option) \<times> 's \<times> disk" where
  "replaySegment cfg name fn s d =
     (case Open name d of
        (Inl e, d) \<Rightarrow> ((0, Some (ReplayOpen e)), s, d)
      | (Inr _, d) \<Rightarrow>
          (case Read_rest name d of
             ((bs, rerr), d) \<Rightarrow>
               (case scan_lines (scan_limit (nat (maxReplayLineBytes (cfg_MaxSegmentBytes cfg)))) bs of
                  (ls, long) \<Rightarrow>
                    (case replay_lines fn ls 0 s of
                       (cnt, False, s) \<Rightarrow> ((cnt, Some ReplayEntry), s, d)
                     | (cnt, True, s) \<Rightarrow>
                         ((cnt, if long \<or> rerr \<noteq> None then Some ReplayScan else None), s, d)))))"

subsection \<open>Replaying all sealed segments\<close>

text \<open>Three attempts to remove the file; the delays between them are not modelled.\<close>

fun try_remove :: "nat \<Rightarrow> bytes \<Rightarrow> disk \<Rightarrow> disk" where
  "try_remove 0 name d = d"
| "try_remove (Suc n) name d =
     (case Remove name d of
        (Inr _, d) \<Rightarrow> d
      | (Inl _, d) \<Rightarrow> try_remove n name d)"

definition removeSegmentFile :: "bytes \<Rightarrow> disk \<Rightarrow> disk" where
  "removeSegmentFile name d = try_remove 3 name d"

fun replay_segments :: "WalConfig \<Rightarrow> 's callback \<Rightarrow> bytes list \<Rightarrow> 's \<Rightarrow> disk \<Rightarrow> 's \<times> disk" where
  "replay_segments cfg fn [] s d = (s, d)"
| "replay_segments cfg fn (n # ns) s d =
     (case replaySegment cfg n fn s d of
        ((cnt, Some e), s, d) \<Rightarrow> (s, d)
      | ((cnt, None), s, d) \<Rightarrow> replay_segments cfg fn ns s (removeSegmentFile n d))"

definition sealed_segments :: "bytes \<Rightarrow> (bytes \<times> bool) list \<Rightarrow> bytes list" where
  "sealed_segments active es = map fst (segment_list (\<lambda>n. ToLower n = active) es)"

definition replaySealedSegments :: "Writer \<Rightarrow> 's callback \<Rightarrow> 's \<Rightarrow> disk \<Rightarrow> 's \<times> disk" where
  "replaySealedSegments w fn s d =
     (let active = ToLower (ActiveSegmentName w)
      in case ReadDir d of
           (Inl _, d) \<Rightarrow> (s, d)
         | (Inr es, d) \<Rightarrow> replay_segments (w_cfg w) fn (sealed_segments active es) s d)"

text \<open>\<open>StartReplay\<close>: the interval the loop uses when this call starts it.\<close>

definition StartReplay :: "duration \<Rightarrow> Writer \<Rightarrow> duration option \<times> Writer" where
  "StartReplay interval w =
     (if w_replaying w then (None, w)
      else (Some (if interval \<le> 0 then 5 * Second else interval), w\<lparr>w_replaying := True\<rparr>))"

text \<open>
  \<open>replayLoop\<close> between two writers' operations: the first round at the start, then one per tick
  until the stop channel is closed.
\<close>

definition replay_tick :: "Writer \<Rightarrow> 's callback \<Rightarrow> 's \<Rightarrow> disk \<Rightarrow> 's \<times> disk" where
  "replay_tick w fn s d =
     (if w_replaying w \<and> \<not> w_closed w then replaySealedSegments w fn s d else (s, d))"

subsection \<open>ReadAll\<close>

fun decode_lines :: "bytes list \<Rightarrow> Entry list" where
  "decode_lines [] = []"
| "decode_lines (l # ls) =
     (if l = [] then decode_lines ls
      else case unmarshal_entry l of None \<Rightarrow> decode_lines ls | Some e \<Rightarrow> e # decode_lines ls)"

definition readSegment :: "bytes \<Rightarrow> disk \<Rightarrow> (Entry list \<times> replay_error option) \<times> disk" where
  "readSegment name d =
     (case Open name d of
        (Inl e, d) \<Rightarrow> (([], Some (ReplayOpen e)), d)
      | (Inr _, d) \<Rightarrow>
          (case Read_rest name d of
             ((bs, rerr), d) \<Rightarrow>
               (case scan_lines (scan_limit (nat hardReplayLineCap)) bs of
                  (ls, long) \<Rightarrow>
                    ((decode_lines ls, if long \<or> rerr \<noteq> None then Some ReplayScan else None), d))))"

fun read_segments :: "bytes list \<Rightarrow> disk \<Rightarrow> (Entry list \<times> replay_error option) \<times> disk" where
  "read_segments [] d = (([], None), d)"
| "read_segments (n # ns) d =
     (case readSegment n d of
        ((es, Some e), d) \<Rightarrow> ((es, Some e), d)
      | ((es, None), d) \<Rightarrow>
          (case read_segments ns d of ((es2, e), d) \<Rightarrow> ((es @ es2, e), d)))"

text \<open>What is sent on the entry channel and on the error channel, both closed at the end.\<close>

definition ReadAll :: "disk \<Rightarrow> (Entry list \<times> replay_error option) \<times> disk" where
  "ReadAll d =
     (case ReadDir d of
        (Inl e, d) \<Rightarrow> (([], if e = ErrNotExist then None else Some (ReplayOpen e)), d)
      | (Inr es, d) \<Rightarrow> read_segments (map fst (segment_list (\<lambda>_. False) es)) d)"

end
