(* ===== verification/Wal_Replay_Laws.thy ===== *)
theory Wal_Replay_Laws
  imports Wal_Replay
begin

text \<open>
  What replay guarantees: a segment is only deleted after the callback accepted every entry in it,
  segments go by ascending number and the active one is left alone (\<open>replay_safe\<close>); what was
  written before a restart is replayed after it, complete and in order (\<open>wal_roundtrip\<close>); and
  the case in which one line blocks the log (\<open>long_line_blocks_replay\<close>).
\<close>

subsection \<open>Lines\<close>

definition line_ok :: "nat \<Rightarrow> bytes \<Rightarrow> bool" where
  "line_ok B l \<longleftrightarrow> newline \<notin> set l \<and> length l < B \<and> (l = [] \<or> last l \<noteq> CHR 13)"

definition unlines :: "bytes list \<Rightarrow> bytes" where
  "unlines ls = concat (map (\<lambda>l. l @ [newline]) ls)"

lemma unlines_simps [simp]: "unlines [] = []" "unlines (l # ls) = l @ newline # unlines ls"
  "unlines (ls @ ms) = unlines ls @ unlines ms"
  by (simp_all add: unlines_def)

lemma scan_lines_unlines:
  "list_all (line_ok B) ls \<Longrightarrow> scan_lines B (unlines ls) = (ls, False)"
proof (induction ls)
  case Nil
  show ?case by (simp add: scan_lines.simps)
next
  case (Cons l ls)
  then have l: "newline \<notin> set l" "length l < B" "drop_cr l = l" and IH: "scan_lines B (unlines ls) = (ls, False)"
    by (auto simp: line_ok_def drop_cr_def)
  have "takeWhile (\<lambda>c. c \<noteq> newline) (l @ newline # unlines ls) = l"
    "dropWhile (\<lambda>c. c \<noteq> newline) (l @ newline # unlines ls) = newline # unlines ls"
    using l(1) by (auto simp: takeWhile_append dropWhile_append)
  with l IH show ?case by (simp add: scan_lines.simps [of B "l @ newline # unlines ls"] Let_def)
qed

lemma decode_lines_append: "decode_lines (ls @ ms) = decode_lines ls @ decode_lines ms"
  by (induction ls) (auto split: option.splits)

text \<open>The lines \<open>Write\<close> produces.\<close>

definition entry_line :: "Entry \<Rightarrow> bytes" where
  "entry_line e = the (marshal_entry e)"

definition entry_ok :: "nat \<Rightarrow> Entry \<Rightarrow> bool" where
  "entry_ok B e \<longleftrightarrow> marshal_entry e \<noteq> None \<and> civil (ent_Timestamp e) \<and> payload_depth_ok (ent_Data e)
     \<and> length (entry_line e) < B"

lemma marshal_nonempty: "marshal_entry e = Some s \<Longrightarrow> s \<noteq> []"
  by (auto simp: marshal_entry_def split: Option.bind_splits)

lemma entry_line_ok: "entry_ok B e \<Longrightarrow> line_ok B (entry_line e)"
proof -
  assume e: "entry_ok B e"
  then obtain s where s: "marshal_entry e = Some s" by (auto simp: entry_ok_def)
  from marshal_entry_no_control [OF s] have "newline \<notin> set s" and "CHR 13 \<notin> set s"
    by (auto simp: list_all_iff newline_def)
  with e s show ?thesis by (auto simp: line_ok_def entry_line_def entry_ok_def dest: last_in_set)
qed

lemma decode_entry_lines:
  "list_all (entry_ok B) es \<Longrightarrow> decode_lines (map entry_line es) = map entry_norm es"
proof (induction es)
  case (Cons e es)
  then obtain s where s: "marshal_entry e = Some s" by (auto simp: entry_ok_def)
  with Cons marshal_entry_roundtrip [OF s] marshal_nonempty [OF s] show ?case
    by (auto simp: entry_ok_def entry_line_def)
qed simp

subsection \<open>The callback sees the entries of a segment in order\<close>

fun feed :: "'s callback \<Rightarrow> Entry list \<Rightarrow> 's \<Rightarrow> bool \<times> 's" where
  "feed fn [] s = (True, s)"
| "feed fn (e # es) s =
     (case invokeReplayCallback fn e s of (True, s) \<Rightarrow> feed fn es s | (False, s) \<Rightarrow> (False, s))"

lemma replay_lines_feed: "snd (replay_lines fn ls cnt s) = feed fn (decode_lines ls) s"
  by (induction fn ls cnt s rule: replay_lines.induct) (auto split: option.splits prod.splits bool.splits)

text \<open>A callback that also records what it accepted.\<close>

definition logged :: "'s callback \<Rightarrow> ('s \<times> Entry list) callback" where
  "logged fn e x = (case fn e (fst x) of (r, s) \<Rightarrow> (r, s, if r = CbOk then snd x @ [e] else snd x))"

lemma invoke_logged:
  "invokeReplayCallback (logged fn) e (s, acc) =
     (case fn e s of (r, s) \<Rightarrow> (r = CbOk, s, if r = CbOk then acc @ [e] else acc))"
  by (auto simp: invokeReplayCallback_def logged_def split: prod.splits cb_result.splits)

lemma feed_logged:
  "feed (logged fn) es (s, acc) = (ok, s', acc') \<Longrightarrow>
   \<exists>p. acc' = acc @ p \<and> prefix p es \<and> (ok \<longrightarrow> p = es) \<and> feed fn es s = (ok, s')"
proof (induction es arbitrary: s acc)
  case (Cons e es)
  obtain r s1 where r: "fn e s = (r, s1)" by (cases "fn e s")
  show ?case
  proof (cases "r = CbOk")
    case True
    with Cons.prems r have "feed (logged fn) es (s1, acc @ [e]) = (ok, s', acc')"
      by (simp add: invoke_logged)
    from Cons.IH [OF this] True r show ?thesis by (auto simp: invokeReplayCallback_def)
  next
    case False
    with Cons.prems r have "ok = False \<and> s' = s1 \<and> acc' = acc" by (auto simp: invoke_logged)
    moreover have "feed fn (e # es) s = (False, s1)"
      using False r by (cases r) (auto simp: invokeReplayCallback_def)
    ultimately show ?thesis by auto
  qed
qed simp

definition seg_limit :: "WalConfig \<Rightarrow> nat" where
  "seg_limit cfg = scan_limit (nat (maxReplayLineBytes (cfg_MaxSegmentBytes cfg)))"

definition seg_entries :: "WalConfig \<Rightarrow> disk \<Rightarrow> bytes \<Rightarrow> Entry list" where
  "seg_entries cfg d n = decode_lines (fst (scan_lines (seg_limit cfg) (file_data n d)))"

definition seg_readable :: "WalConfig \<Rightarrow> disk \<Rightarrow> bytes \<Rightarrow> bool" where
  "seg_readable cfg d n \<longleftrightarrow> \<not> snd (scan_lines (seg_limit cfg) (file_data n d))"

lemma Open_dir: "Open n d = (r, d') \<Longrightarrow> dk_dir d' = dk_dir d"
  by (auto simp: Open_def split: prod.splits option.splits if_splits dest: next_fault_frame)

lemma Read_rest_dir:
  assumes "Read_rest n d = ((bs, e), d')"
  shows "dk_dir d' = dk_dir d" and "e = None \<Longrightarrow> bs = file_data n d" and "quiet d \<Longrightarrow> e = None \<or> bs = []"
proof -
  obtain f d1 where N: "next_fault d = (f, d1)" by (cases "next_fault d")
  have D: "dk_dir d1 = dk_dir d" "file_data n d1 = file_data n d"
    using next_fault_frame [OF N] next_fault_data [OF N] by simp_all
  show "dk_dir d' = dk_dir d" "e = None \<Longrightarrow> bs = file_data n d" "quiet d \<Longrightarrow> e = None \<or> bs = []"
    using assms N D by (auto simp: Read_rest_def split: option.splits if_splits)
qed

lemma file_data_same: "dk_dir d' = dk_dir d \<Longrightarrow> file_data n d' = file_data n d"
  by (simp add: file_data_def)

lemma replaySegment_spec:
  assumes R: "replaySegment cfg n (logged fn) (s, acc) d = ((cnt, err), (s', acc'), d')"
  shows "dk_dir d' = dk_dir d"
    and "\<exists>p. acc' = acc @ p \<and> (err = None \<longrightarrow> p = seg_entries cfg d n \<and> seg_readable cfg d n)
      \<and> (quiet d \<longrightarrow> prefix p (seg_entries cfg d n))"
proof -
  obtain r1 d1 where O: "Open n d = (r1, d1)" by (cases "Open n d")
  obtain bs rerr d2 where B: "Read_rest n d1 = ((bs, rerr), d2)" by (cases "Read_rest n d1") auto
  obtain ls lg where L: "scan_lines (seg_limit cfg) bs = (ls, lg)" by (cases "scan_lines (seg_limit cfg) bs")
  obtain c ok s2 acc2 where X: "replay_lines (logged fn) ls 0 (s, acc) = (c, ok, s2, acc2)"
    by (cases "replay_lines (logged fn) ls 0 (s, acc)") auto
  have D: "dk_dir d1 = dk_dir d" "dk_dir d2 = dk_dir d" using Open_dir [OF O] Read_rest_dir(1) [OF B] by simp_all
  have fd: "file_data n d1 = file_data n d" by (rule file_data_same [OF D(1)])
  have q: "quiet d \<Longrightarrow> quiet d1" using O by (auto simp: Open_def split: if_splits)
  have F: "feed (logged fn) (decode_lines ls) (s, acc) = (ok, s2, acc2)"
    using replay_lines_feed [of "logged fn" ls 0 "(s, acc)"] X by simp
  obtain p where p: "acc2 = acc @ p" "prefix p (decode_lines ls)" "ok \<longrightarrow> p = decode_lines ls"
    using feed_logged [OF F] by blast
  have full: "decode_lines ls = seg_entries cfg d n \<and> lg = (\<not> seg_readable cfg d n)" if "rerr = None"
    using Read_rest_dir(2) [OF B that] L fd by (simp add: seg_entries_def seg_readable_def)
  have none: "decode_lines ls = []" if "bs = []" using L that by (simp add: scan_lines.simps)
  have "dk_dir d' = dk_dir d \<and> (\<exists>p. acc' = acc @ p \<and> (err = None \<longrightarrow> p = seg_entries cfg d n \<and> seg_readable cfg d n)
      \<and> (quiet d \<longrightarrow> prefix p (seg_entries cfg d n)))"
  proof (cases r1)
    case (Inl e)
    with R O D show ?thesis by (auto simp: replaySegment_def)
  next
    case (Inr u)
    have res: "acc' = acc2" "d' = d2" "err = None \<longleftrightarrow> ok \<and> \<not> lg \<and> rerr = None"
      using R O Inr B L X by (auto simp: replaySegment_def seg_limit_def split: bool.splits if_splits)
    have "quiet d \<Longrightarrow> prefix p (seg_entries cfg d n)"
      using q Read_rest_dir(3) [OF B] full none p(2) by fastforce
    with res D p full show ?thesis by auto
  qed
  then show "dk_dir d' = dk_dir d"
    and "\<exists>p. acc' = acc @ p \<and> (err = None \<longrightarrow> p = seg_entries cfg d n \<and> seg_readable cfg d n)
      \<and> (quiet d \<longrightarrow> prefix p (seg_entries cfg d n))" by auto
qed

lemma try_remove_dir:
  "dk_dir (try_remove k n d) = dk_dir d \<or> dk_dir (try_remove k n d) = filter (\<lambda>(m, _). m \<noteq> n) (dk_dir d)"
proof (induction k arbitrary: d)
  case (Suc k)
  obtain r d1 where R: "Remove n d = (r, d1)" by (cases "Remove n d")
  obtain f d0 where N: "next_fault d = (f, d0)" by (cases "next_fault d")
  have "dk_dir d0 = dk_dir d" using next_fault_frame [OF N] by simp
  with R N Suc [of d1] show ?case
    by (auto simp: Remove_def split: option.splits if_splits)
qed simp

lemma map_of_filter_other: "m \<noteq> n \<Longrightarrow> map_of (filter (\<lambda>(k, _). k \<noteq> n) ds) m = map_of ds m"
  by (induction ds) auto

lemma removeSegmentFile_other: "m \<noteq> n \<Longrightarrow> map_of (dk_dir (removeSegmentFile n d)) m = map_of (dk_dir d) m"
  using try_remove_dir [of 3 n d] by (auto simp: removeSegmentFile_def map_of_filter_other)

lemma removeSegmentFile_quiet:
  "quiet d \<Longrightarrow> map_of (dk_dir d) n \<noteq> None \<Longrightarrow> removeSegmentFile n d = d\<lparr>dk_dir := filter (\<lambda>(m, _). m \<noteq> n) (dk_dir d)\<rparr>"
  by (auto simp: removeSegmentFile_def eval_nat_numeral Remove_def)

subsection \<open>Replaying the sealed segments\<close>

lemma seg_entries_cong:
  "map_of (dk_dir d') n = map_of (dk_dir d) n \<Longrightarrow> seg_entries cfg d' n = seg_entries cfg d n"
  "map_of (dk_dir d') n = map_of (dk_dir d) n \<Longrightarrow> seg_readable cfg d' n = seg_readable cfg d n"
  by (simp_all add: seg_entries_def seg_readable_def file_data_def)

text \<open>
  After any run, with any failures, there is a number \<open>k\<close> of segments that were replayed in full:
  their entries, in order, were all accepted; only they may be gone. If the run went through all
  segments nothing else was accepted.
\<close>

definition replay_outcome :: "WalConfig \<Rightarrow> bytes list \<Rightarrow> disk \<Rightarrow> Entry list \<Rightarrow> disk \<Rightarrow> nat \<Rightarrow> bool" where
  "replay_outcome cfg ns d acc d' k \<longleftrightarrow> k \<le> length ns
     \<and> prefix (concat (map (seg_entries cfg d) (take k ns))) acc
     \<and> (\<forall>n\<in>set (take k ns). seg_readable cfg d n)
     \<and> (k = length ns \<longrightarrow> acc = concat (map (seg_entries cfg d) ns))
     \<and> (\<forall>m. m \<notin> set (take k ns) \<longrightarrow> map_of (dk_dir d') m = map_of (dk_dir d) m)"

lemma replay_segments_outcome:
  assumes "distinct ns" and "replay_segments cfg (logged fn) ns (s, acc) d = ((s', acc'), d')"
  shows "\<exists>k p. acc' = acc @ p \<and> replay_outcome cfg ns d p d' k"
  using assms
proof (induction ns arbitrary: s acc d)
  case Nil
  then show ?case by (auto simp: replay_outcome_def)
next
  case (Cons n ns)
  obtain cnt err s1 acc1 d1 where R: "replaySegment cfg n (logged fn) (s, acc) d = ((cnt, err), (s1, acc1), d1)"
    by (cases "replaySegment cfg n (logged fn) (s, acc) d") auto
  have D: "dk_dir d1 = dk_dir d" by (rule replaySegment_spec(1) [OF R])
  obtain p1 where p1: "acc1 = acc @ p1" "err = None \<longrightarrow> p1 = seg_entries cfg d n \<and> seg_readable cfg d n"
    using replaySegment_spec(2) [OF R] by blast
  show ?case
  proof (cases err)
    case (Some e)
    with Cons.prems R have "acc' = acc1" "d' = d1" by auto
    with p1 D have "acc' = acc @ p1 \<and> replay_outcome cfg (n # ns) d p1 d' 0" by (simp add: replay_outcome_def)
    then show ?thesis by blast
  next
    case None
    let ?d2 = "removeSegmentFile n d1"
    from None Cons.prems R have S: "replay_segments cfg (logged fn) ns (s1, acc1) ?d2 = ((s', acc'), d')" by simp
    obtain k p where kp: "acc' = acc1 @ p" "replay_outcome cfg ns ?d2 p d' k" using Cons.IH [OF _ S] Cons.prems by auto
    have same: "map_of (dk_dir ?d2) m = map_of (dk_dir d) m" if "m \<noteq> n" for m
      using removeSegmentFile_other [OF that, of d1] D by simp
    have "n \<notin> set ns" using Cons.prems by simp
    then have "map_of (dk_dir ?d2) m = map_of (dk_dir d) m" if "m \<in> set ns" for m using same [of m] that by auto
    then have e: "seg_entries cfg ?d2 m = seg_entries cfg d m" "seg_readable cfg ?d2 m = seg_readable cfg d m"
      if "m \<in> set ns" for m using that seg_entries_cong [of ?d2 m d] by simp_all
    have "concat (map (seg_entries cfg ?d2) (take k ns)) = concat (map (seg_entries cfg d) (take k ns))"
      "concat (map (seg_entries cfg ?d2) ns) = concat (map (seg_entries cfg d) ns)"
      using e(1) e(1) [OF in_set_takeD] by (auto intro!: arg_cong [of _ _ concat])
    moreover have "\<forall>m\<in>set (take k ns). seg_readable cfg d m" using e kp(2) by (auto simp: replay_outcome_def dest: in_set_takeD)
    ultimately have "replay_outcome cfg (n # ns) d (p1 @ p) d' (Suc k)"
      using kp(2) p1(2) None same by (simp add: replay_outcome_def)
    then show ?thesis using kp(1) p1(1) by (metis append.assoc)
  qed
qed

lemma replay_segments_complete:
  assumes "distinct ns" and "quiet d" and "\<forall>n\<in>set ns. has_file n d \<and> seg_readable cfg d n"
    and "\<And>e x. fst (fn e x) = CbOk"
    and "replay_segments cfg (logged fn) ns (s, acc) d = ((s', acc'), d')"
  shows "acc' = acc @ concat (map (seg_entries cfg d) ns) \<and> quiet d' \<and> dk_made d' = dk_made d
    \<and> dk_dir d' = filter (\<lambda>(m, _). m \<notin> set ns) (dk_dir d)"
  using assms(1-3,5)
proof (induction ns arbitrary: s acc d)
  case Nil
  then show ?case by (simp add: case_prod_unfold)
next
  case (Cons n ns)
  let ?d2 = "d\<lparr>dk_dir := filter (\<lambda>(m, _). m \<noteq> n) (dk_dir d)\<rparr>"
  obtain b k where m: "map_of (dk_dir d) n = Some (NFile b k)" using Cons.prems by (auto simp: has_file_def)
  obtain ls where L: "scan_lines (seg_limit cfg) (file_data n d) = (ls, False)"
    using Cons.prems(3) by (cases "scan_lines (seg_limit cfg) (file_data n d)") (auto simp: seg_readable_def)
  have ok: "feed (logged fn) es x = (True, y) \<Longrightarrow> snd y = snd x @ es" for es x y
    using feed_logged [of fn es "fst x" "snd x" True "fst y" "snd y"] by simp
  have "fst (feed (logged fn) es x)" for es x
  proof (induction es arbitrary: x)
    case (Cons e es)
    have "fst (invokeReplayCallback (logged fn) e x)"
      using assms(4) [of e "fst x"] invoke_logged [of fn e "fst x" "snd x"] by (simp add: case_prod_unfold)
    with Cons show ?case by (cases "invokeReplayCallback (logged fn) e x") simp
  qed simp
  then have "feed (logged fn) (decode_lines ls) (s, acc) = (True, snd (feed (logged fn) (decode_lines ls) (s, acc)))"
    by (metis (full_types) prod.collapse)
  then obtain s2 where "feed (logged fn) (decode_lines ls) (s, acc) = (True, s2, acc @ decode_lines ls)"
    using ok [of "decode_lines ls" "(s, acc)"] by (metis prod.collapse snd_conv)
  then obtain c where X: "replay_lines (logged fn) ls 0 (s, acc) = (c, True, s2, acc @ decode_lines ls)"
    using replay_lines_feed [of "logged fn" ls 0 "(s, acc)"] by (metis prod.collapse)
  have "replaySegment cfg n (logged fn) (s, acc) d = ((c, None), (s2, acc @ decode_lines ls), d)"
    using Cons.prems(2) m L X by (simp add: replaySegment_def Open_def Read_rest_def seg_limit_def)
  moreover have "removeSegmentFile n d = ?d2" using Cons.prems(2) m by (simp add: removeSegmentFile_quiet)
  ultimately have S: "replay_segments cfg (logged fn) ns (s2, acc @ decode_lines ls) ?d2 = ((s', acc'), d')"
    using Cons.prems(4) by simp
  have same: "map_of (dk_dir ?d2) j = map_of (dk_dir d) j" if "j \<in> set ns" for j
    using that Cons.prems(1) map_of_filter_other [of j n "dk_dir d"] by auto
  have "\<forall>j\<in>set ns. has_file j ?d2 \<and> seg_readable cfg ?d2 j"
    using Cons.prems(3) same seg_entries_cong(2) [of ?d2 _ d] by (auto simp: has_file_def)
  from Cons.IH [OF _ _ this S] Cons.prems(1,2) have IH: "acc' = acc @ decode_lines ls @ concat (map (seg_entries cfg ?d2) ns)"
    "quiet d'" "dk_made d' = dk_made d" "dk_dir d' = filter (\<lambda>(m, _). m \<notin> set ns) (dk_dir ?d2)" by (auto simp: quiet_def)
  moreover have "map (seg_entries cfg ?d2) ns = map (seg_entries cfg d) ns" using same seg_entries_cong(1) [of ?d2 _ d] by simp
  moreover have "decode_lines ls = seg_entries cfg d n" using L by (simp add: seg_entries_def)
  moreover have "filter (\<lambda>(m, _). m \<notin> set ns) (filter (\<lambda>(m, _). m \<noteq> n) (dk_dir d)) = filter (\<lambda>(m, _). m \<notin> set (n # ns)) (dk_dir d)"
    by (auto simp: filter_filter intro!: filter_cong)
  ultimately show ?case by simp
qed

lemma segment_list_filter:
  "segment_list skip es = filter (\<lambda>x. \<not> skip (fst x)) (segment_list (\<lambda>_. False) es)"
proof -
  have "filter (\<lambda>x. \<not> skip (fst x)) (map (\<lambda>e. (fst e, the (seg_atoi (fst e)))) (filter (\<lambda>e. is_segment e \<and> seg_atoi (fst e) \<noteq> None) es))
    = map (\<lambda>e. (fst e, the (seg_atoi (fst e)))) (filter (\<lambda>e. is_segment e \<and> \<not> skip (fst e) \<and> seg_atoi (fst e) \<noteq> None) es)"
    by (induction es) auto
  then show ?thesis by (simp add: segment_list_def filter_sort)
qed

lemma sealed_segments_eq:
  "sealed_segments active (entries d) = filter (\<lambda>n. ToLower n \<noteq> active) (wal_segs d)"
  by (simp add: sealed_segments_def wal_segs_def segment_list_filter [of "\<lambda>n. ToLower n = active"] filter_map comp_def)

lemma segment_list_sorted: "sorted (map snd (segment_list skip es))"
  by (simp add: segment_list_def)

lemma wal_segs_sorted: "sorted (map (\<lambda>n. the (seg_atoi n)) (wal_segs d))"
proof -
  have "snd x = the (seg_atoi (fst x))" if "x \<in> set (segment_list skip es)" for x skip es
    using that by (auto simp: segment_list_def)
  then have "map (\<lambda>n. the (seg_atoi n)) (wal_segs d) = map snd (segment_list (\<lambda>_. False) (entries d))"
    by (simp add: wal_segs_def)
  then show ?thesis by (simp add: segment_list_sorted)
qed

lemma ReadDir_entries: "ReadDir d = (Inr es, d') \<Longrightarrow> es = entries d"
  using next_fault_frame [of d] by (auto simp: ReadDir_def entries_def split: prod.splits option.splits if_splits)

lemma replaySealedSegments_outcome:
  assumes d: "dir_ok d" and R: "replaySealedSegments w (logged fn) (s, []) d = ((s', acc), d')"
  defines "ns \<equiv> sealed_segments (ToLower (w_activeName w)) (entries d)"
  shows "\<exists>k. replay_outcome (w_cfg w) ns d acc d' k"
proof -
  have dist: "distinct ns" unfolding ns_def sealed_segments_eq using distinct_wal_segs [OF d] by simp
  obtain r d1 where D: "ReadDir d = (r, d1)" by (cases "ReadDir d")
  have dir: "dk_dir d1 = dk_dir d" using ReadDir_same [OF D] by simp
  show ?thesis
  proof (cases r)
    case (Inl e)
    with R D dir have "replay_outcome (w_cfg w) ns d acc d' 0"
      by (auto simp: replaySealedSegments_def replay_outcome_def Let_def)
    then show ?thesis ..
  next
    case (Inr es)
    have "es = entries d" using D Inr ReadDir_entries by blast
    then have "replay_segments (w_cfg w) (logged fn) ns (s, []) d1 = ((s', acc), d')"
      using R D Inr by (simp add: replaySealedSegments_def Let_def ns_def ActiveSegmentName_def)
    then obtain k where "replay_outcome (w_cfg w) ns d1 acc d' k" using replay_segments_outcome [OF dist] by fastforce
    moreover have "seg_entries (w_cfg w) d1 = seg_entries (w_cfg w) d" "seg_readable (w_cfg w) d1 = seg_readable (w_cfg w) d"
      by (rule ext, simp add: seg_entries_def seg_readable_def file_data_def dir)+
    ultimately have "replay_outcome (w_cfg w) ns d acc d' k" by (simp add: replay_outcome_def dir)
    then show ?thesis ..
  qed
qed

subsection \<open>Properties\<close>


definition reject_all :: "unit callback" where
  "reject_all e s = (CbErr, s)"


subsection \<open>From writing to replay\<close>

lemma make_room_closed: "make_room len w d = (r, w', d') \<Longrightarrow> w_closed w' = w_closed w"
  by (auto simp: make_room_def split: prod.splits sum.splits if_splits dest!: rotate_closed)

lemma append_active_closed: "append_active p w d = (r, w', d') \<Longrightarrow> w_closed w' = w_closed w"
  by (auto simp: append_active_def Let_def split: option.splits prod.splits sum.splits if_splits)

lemma Write_closed: "Write e w d = (r, w', d') \<Longrightarrow> w_closed w' = w_closed w"
  by (auto simp: Write_def Let_def split: option.splits prod.splits sum.splits
      dest!: make_room_closed append_active_closed)

fun write_all :: "Entry list \<Rightarrow> Writer \<Rightarrow> disk \<Rightarrow> (Writer \<times> disk) option" where
  "write_all [] w d = Some (w, d)"
| "write_all (e # es) w d =
     (case Write e w d of (Inr _, w, d) \<Rightarrow> write_all es w d | (Inl _, _, _) \<Rightarrow> None)"

text \<open>Every segment holds whole lines; \<open>ls\<close> are the lines of the log.\<close>

definition whole_lines :: "bytes list \<Rightarrow> bytes list \<Rightarrow> bool" where
  "whole_lines parts ls \<longleftrightarrow> (\<exists>lss. parts = map unlines lss \<and> concat lss = ls)"

lemma whole_lines_append:
  assumes "whole_lines parts ls" and "active \<longrightarrow> parts \<noteq> []"
  shows "whole_lines (abs_append m active (l @ [newline]) parts) (ls @ [l])"
proof -
  obtain lss where lss: "parts = map unlines lss" "concat lss = ls" using assms(1) by (auto simp: whole_lines_def)
  have "parts @ [l @ [newline]] = map unlines (lss @ [[l]]) \<and> concat (lss @ [[l]]) = ls @ [l]" using lss by simp
  moreover have "butlast parts @ [last parts @ l @ [newline]] = map unlines (butlast lss @ [last lss @ [l]])
      \<and> concat (butlast lss @ [last lss @ [l]]) = ls @ [l]" if "parts \<noteq> []"
    using that lss by (cases lss rule: rev_cases) auto
  ultimately show ?thesis using assms(2) unfolding whole_lines_def abs_append_def by (auto simp del: map_append concat_append)
qed

lemma write_all_ok:
  assumes "wal_inv w d" and "quiet d" and "seg_max d + int (length es) < 2 ^ 63"
    and "list_all (\<lambda>e. marshal_entry e \<noteq> None) es" and "whole_lines (wal_parts w d) ls"
  obtains w' d' where "write_all es w d = Some (w', d')" and "wal_inv w' d'" and "quiet d'"
    and "w_cfg w' = w_cfg w" and "w_closed w' = w_closed w" and "seg_max d' \<le> seg_max d + int (length es)"
    and "whole_lines (wal_parts w' d') (ls @ map entry_line es)"
proof -
  have "\<exists>w' d'. write_all es w d = Some (w', d') \<and> wal_inv w' d' \<and> quiet d' \<and> w_cfg w' = w_cfg w
     \<and> w_closed w' = w_closed w \<and> seg_max d' \<le> seg_max d + int (length es)
     \<and> whole_lines (wal_parts w' d') (ls @ map entry_line es)"
    using assms
  proof (induction es arbitrary: w d ls)
    case (Cons e es)
    then obtain s where s: "marshal_entry e = Some s" "entry_line e = s" by (auto simp: entry_line_def)
    have k: "seg_max d + 1 < 2 ^ 63" using Cons.prems(3) by simp
    obtain w1 d1 where W: "Write e w d = (Inr (), w1, d1)" "quiet d1" "wal_inv w1 d1"
      "wal_parts w1 d1 = abs_append (cfg_MaxSegmentBytes (w_cfg w)) (w_activeSeg w \<noteq> None) (s @ [newline]) (wal_parts w d)"
      "w_cfg w1 = w_cfg w" "seg_max d1 \<le> seg_max d + 1"
      by (rule Write_ok [OF Cons.prems(1,2) k s(1)]) blast
    have L: "whole_lines (wal_parts w1 d1) (ls @ [s])"
      unfolding W(4) by (rule whole_lines_append [OF Cons.prems(5)]) (use wal_parts_size(2) [OF Cons.prems(1)] in blast)
    have "seg_max d1 + int (length es) < 2 ^ 63" "list_all (\<lambda>e. marshal_entry e \<noteq> None) es"
      using Cons.prems(3,4) W(6) by simp_all
    from Cons.IH [OF W(3,2) this L] obtain w' d' where "write_all es w1 d1 = Some (w', d')" "wal_inv w' d'" "quiet d'" "w_cfg w' = w_cfg w1"
      "w_closed w' = w_closed w1" "seg_max d' \<le> seg_max d1 + int (length es)"
      "whole_lines (wal_parts w' d') ((ls @ [s]) @ map entry_line es)"
      by blast
    with W s Write_closed [OF W(1)] show ?case by auto
  qed auto
  with that show ?thesis by blast
qed

lemma ToLower_id: "list_all (\<lambda>c. ord c < 65 \<or> 90 < ord c \<and> ord c < 128) s \<Longrightarrow> ToLower s = s"
  by (induction s rule: ToLower.induct) (auto simp: lower_char_def)

lemma seg_name_chars: "list_all (\<lambda>c. ord c < 65 \<or> 90 < ord c \<and> ord c < 128) (seg_name k)"
proof -
  have "list_all (\<lambda>c. ord c < 65 \<or> 90 < ord c \<and> ord c < 128) t" if "list_all is_digit t" for t
    using that by (auto simp: list_all_iff is_digit_def)
  from this [OF zero_pad_digits [OF itoa_digits]] show ?thesis
    by (auto simp: seg_name_def Sprintf_06d_def)
qed

lemma sealed_canonical:
  assumes "canonical d" and "wal_inv w d" and "w_activeSeg w \<noteq> None"
  shows "sealed_segments (ToLower (w_activeName w)) (entries d) = filter (\<lambda>n. n \<noteq> w_activeName w) (wal_segs d)"
  unfolding sealed_segments_eq
proof (rule filter_cong [OF refl])
  have nm: "ToLower n = n" if "n \<in> set (wal_segs d)" for n
  proof -
    from that obtain e k where "n = fst e" "e \<in> set (entries d)" "seg_num e = Some k" by (auto simp: set_wal_segs)
    with assms(1) have "n = seg_name k" unfolding canonical_def by blast
    then show ?thesis using ToLower_id [OF seg_name_chars] by simp
  qed
  obtain f where f: "w_activeSeg w = Some f" using assms(3) by blast
  obtain n b where "f = (n, True)" "w_activeName w = n" by (rule wal_inv_active [OF assms(2) f])
  with f obtain ss where "wal_segs d = ss @ [w_activeName w]" by (auto intro: wal_segs_active [OF assms(2)])
  then have a: "ToLower (w_activeName w) = w_activeName w" by (intro nm) simp
  fix n assume "n \<in> set (wal_segs d)"
  with nm a show "ToLower n \<noteq> ToLower (w_activeName w) \<longleftrightarrow> n \<noteq> w_activeName w" by simp
qed

text \<open>What the segments other than the active one hold, when the active one is empty.\<close>

lemma parts_entries:
  assumes "whole_lines (disk_parts d) ls" and "list_all (line_ok (seg_limit cfg)) ls"
  shows "concat (map (seg_entries cfg d) (wal_segs d)) = decode_lines ls" and "\<forall>n\<in>set (wal_segs d). seg_readable cfg d n"
proof -
  obtain lss where lss: "disk_parts d = map unlines lss" "concat lss = ls" using assms(1) by (auto simp: whole_lines_def)
  have ok: "list_all (line_ok (seg_limit cfg)) l" if "l \<in> set lss" for l
    using that assms(2) lss(2) by (auto simp: list_all_iff)
  have fd: "map (\<lambda>n. file_data n d) (wal_segs d) = map unlines lss" using lss(1) by (simp add: disk_parts_def)
  have "map (seg_entries cfg d) (wal_segs d) = map (\<lambda>x. decode_lines (fst (scan_lines (seg_limit cfg) x))) (map unlines lss)"
    unfolding fd [symmetric] by (simp add: seg_entries_def)
  also have "\<dots> = map decode_lines lss" using ok by (simp add: scan_lines_unlines)
  finally have "map (seg_entries cfg d) (wal_segs d) = map decode_lines lss" .
  moreover have "concat (map decode_lines lss) = decode_lines (concat lss)"
    by (induction lss) (simp_all add: decode_lines_append)
  ultimately show "concat (map (seg_entries cfg d) (wal_segs d)) = decode_lines ls" using lss(2) by simp
  show "\<forall>n\<in>set (wal_segs d). seg_readable cfg d n"
  proof
    fix n assume "n \<in> set (wal_segs d)"
    then have "file_data n d \<in> set (map unlines lss)" unfolding fd [symmetric] by simp
    with ok show "seg_readable cfg d n" by (auto simp: seg_readable_def scan_lines_unlines)
  qed
qed

text \<open>A writer was closed and another one opened: what the new one replays.\<close>

lemma concat_map_filter: "\<forall>x\<in>set xs. \<not> P x \<longrightarrow> f x = [] \<Longrightarrow> concat (map f (filter P xs)) = concat (map f xs)"
  by (induction xs) auto

lemma wal_segs_file: "dir_ok d \<Longrightarrow> n \<in> set (wal_segs d) \<Longrightarrow> has_file n d"
proof -
  assume d: "dir_ok d" and "n \<in> set (wal_segs d)"
  then obtain e where e: "n = fst e" "e \<in> set (entries d)" "seg_num e \<noteq> None" by (auto simp: set_wal_segs)
  then have "\<not> snd e" by (auto simp: seg_num_def is_segment_def split: if_splits)
  with e have "(n, False) \<in> set (entries d)" by (cases e) simp
  with entries_file [OF d] show ?thesis by simp
qed

lemma empty_active:
  assumes inv: "wal_inv w d" and z: "w_activeSize w = 0"
  shows "wal_parts w d = disk_parts d" and "w_activeSeg w \<noteq> None \<Longrightarrow> file_data (w_activeName w) d = []"
proof -
  have "buffered w n = []" for n
  proof (cases "w_activeSeg w")
    case (Some f)
    with inv z obtain b m where "f = (m, True)" "w_activeBuf w = Some b" "stream m b d = []"
      by (elim wal_inv_active [where w = w]) auto
    with Some show ?thesis by (simp add: stream_def buffered_def)
  qed (simp add: buffered_def)
  then show "wal_parts w d = disk_parts d" by (rule wal_parts_unbuffered)
  assume "w_activeSeg w \<noteq> None"
  then obtain f where "w_activeSeg w = Some f" by blast
  with inv z obtain b where "stream (w_activeName w) b d = []" by (elim wal_inv_active [where w = w]) auto
  then show "file_data (w_activeName w) d = []" by (simp add: stream_def)
qed

lemma active_named: "[] \<notin> set (wal_segs d)"
proof
  assume "[] \<in> set (wal_segs d)"
  then show False by (auto simp: set_wal_segs seg_num_def is_segment_def HasPrefix_def split: if_splits)
qed

lemma wal_segs_remove:
  assumes "dk_dir d' = filter (\<lambda>(m, _). m \<notin> N) (dk_dir d)"
  shows "set (wal_segs d') \<subseteq> set (wal_segs d) - N"
  using assms by (auto simp: set_wal_segs set_entries)

lemma ToLower_Nil: "ToLower s = [] \<longleftrightarrow> s = []"
  by (induction s rule: ToLower.induct) auto

lemma sealed_of_new:
  assumes "canonical d" and "wal_inv w d" and "w_activeSeg w = None \<longrightarrow> w_activeName w = []"
  shows "sealed_segments (ToLower (w_activeName w)) (entries d) = filter (\<lambda>n. n \<noteq> w_activeName w) (wal_segs d)"
proof (cases "w_activeSeg w = None")
  case True
  with assms(3) show ?thesis by (simp add: sealed_segments_eq ToLower_Nil)
next
  case False
  with sealed_canonical assms(1,2) show ?thesis by blast
qed

lemma replay_after_open:
  assumes q: "quiet d" and d: "dir_ok d" "canonical d" "seg_max d + 1 < 2 ^ 63"
    and L: "whole_lines (disk_parts d) ls" "list_all (line_ok (seg_limit (norm_config cfg))) ls"
    and N: "NewWriter cfg d = (Inr w, d1)" and fn: "\<And>e x. fst (fn e x) = CbOk"
    and R: "replaySealedSegments w (logged fn) (s, []) d1 = ((s', acc), d2)"
  shows "acc = decode_lines ls \<and> set (wal_segs d2) \<subseteq> {w_activeName w}"
proof -
  have u: "distinct (map fst (dk_dir d))" using d by (simp add: dir_ok_def)
  have q1: "quiet d1" and inv: "wal_inv w d1" and P: "wal_parts w d1 \<in> {disk_parts d, disk_parts d @ [[]]}"
    and cfg: "w_cfg w = norm_config cfg" and z: "w_activeSize w = 0" and nm: "w_activeSeg w = None \<longrightarrow> w_activeName w = []"
    by (rule NewWriter_ok [OF q u d(2,3), of cfg], use N in auto)+
  have d1: "dir_ok d1" "canonical d1" using inv by (simp_all add: wal_inv_def)
  obtain lss where lss: "disk_parts d = map unlines lss" "concat lss = ls" using L(1) by (auto simp: whole_lines_def)
  have "disk_parts d @ [[]] = map unlines (lss @ [[]])" "concat (lss @ [[]]) = ls" using lss by simp_all
  then have "whole_lines (disk_parts d @ [[]]) ls" unfolding whole_lines_def by blast
  with P empty_active(1) [OF inv z] L(1) have "whole_lines (disk_parts d1) ls" by auto
  from parts_entries [OF this L(2)] have E: "concat (map (seg_entries (norm_config cfg) d1) (wal_segs d1)) = decode_lines ls"
    "\<forall>n\<in>set (wal_segs d1). seg_readable (norm_config cfg) d1 n" by simp_all
  let ?ns = "filter (\<lambda>n. n \<noteq> w_activeName w) (wal_segs d1)"
  have S: "replay_segments (norm_config cfg) (logged fn) ?ns (s, []) d1 = ((s', acc), d2)"
    using R q1 d1(1) sealed_of_new [OF d1(2) inv nm] cfg
    by (simp add: replaySealedSegments_def Let_def ActiveSegmentName_def dir_ok_def)
  have ns: "\<forall>n\<in>set ?ns. has_file n d1 \<and> seg_readable (norm_config cfg) d1 n"
    using wal_segs_file [OF d1(1)] E(2) by simp
  have "distinct ?ns" using distinct_wal_segs [OF d1(1)] by simp
  note C = replay_segments_complete [OF this q1 ns fn S]
  have "w_activeName w \<in> set (wal_segs d1) \<Longrightarrow> seg_entries (norm_config cfg) d1 (w_activeName w) = []"
    using empty_active(2) [OF inv z] nm wal_segs_file [OF d1(1)] active_named
    by (cases "w_activeSeg w = None") (auto simp: seg_entries_def scan_lines.simps)
  then have "concat (map (seg_entries (norm_config cfg) d1) ?ns) = decode_lines ls"
    unfolding E(1) [symmetric] by (intro concat_map_filter) auto
  with C wal_segs_remove [of d2 "set ?ns" d1] show ?thesis by auto
qed


definition accept_all :: "unit callback" where
  "accept_all e s = (CbOk, s)"


subsection \<open>A line beyond the limit blocks the log\<close>

lemma scan_lines_long:
  assumes "list_all (line_ok B) ls" and "newline \<notin> set l" and "B \<le> length l" and "0 < B"
  shows "scan_lines B (unlines ls @ l @ newline # r) = (ls, True)"
  using assms(1)
proof (induction ls)
  case Nil
  have "takeWhile (\<lambda>c. c \<noteq> newline) (l @ newline # r) = l" using assms(2) by (auto simp: takeWhile_append)
  with assms show ?case by (simp add: scan_lines.simps [of B "l @ newline # r"] Let_def)
next
  case (Cons x ls)
  then have x: "newline \<notin> set x" "length x < B" "drop_cr x = x" by (auto simp: line_ok_def drop_cr_def)
  have "takeWhile (\<lambda>c. c \<noteq> newline) (x @ newline # t) = x" "dropWhile (\<lambda>c. c \<noteq> newline) (x @ newline # t) = newline # t" for t
    using x(1) by (auto simp: takeWhile_append dropWhile_append)
  with x Cons show ?case by (simp add: scan_lines.simps [of B "x @ newline # unlines ls @ l @ newline # r"] Let_def)
qed

lemma replay_segments_blocked:
  assumes "quiet d" and "map_of (dk_dir d) n = Some (NFile b k)"
    and "scan_lines (seg_limit cfg) b = (ls, True)"
  shows "\<exists>s'. replay_segments cfg fn (n # ns) s d = (s', d)"
proof -
  obtain c ok s' where X: "replay_lines fn ls 0 s = (c, ok, s')" by (cases "replay_lines fn ls 0 s")
  have "replaySegment cfg n fn s d = ((c, Some (if ok then ReplayScan else ReplayEntry)), s', d)"
    using assms X by (simp add: replaySegment_def Open_def Read_rest_def file_data_def seg_limit_def split: bool.splits)
  then show ?thesis by simp
qed

text \<open>
  C21: a line longer than the replay limit, which \<open>Write\<close> accepts, stops the log for good: if the
  first sealed segment holds one, every replay cycle leaves the directory exactly as it was,
  however the callback behaves, so that this and all later segments are never deleted, while
  the entries before the line are handed to the callback again in each cycle.
\<close>

theorem long_line_blocks_replay:
  assumes "quiet d" and "dk_made d" and "sealed_segments (ToLower (ActiveSegmentName w)) (entries d) = n # ns"
    and "map_of (dk_dir d) n = Some (NFile (unlines ls @ l @ newline # r) k)"
    and "list_all (line_ok (seg_limit (w_cfg w))) ls" and "newline \<notin> set l" and "seg_limit (w_cfg w) \<le> length l"
  shows "(\<exists>s'. replaySealedSegments w fn s d = (s', d))
    \<and> snd (fst (replaySealedSegments w (logged accept_all) ((), []) d)) = decode_lines ls"
proof -
  have pos: "0 < seg_limit (w_cfg w)" by (simp add: seg_limit_def scan_limit_def)
  have S: "scan_lines (seg_limit (w_cfg w)) (unlines ls @ l @ newline # r) = (ls, True)"
    by (rule scan_lines_long [OF assms(5,6,7) pos])
  have eq: "replaySealedSegments w fn s d = replay_segments (w_cfg w) fn (n # ns) s d" for fn :: "'b callback" and s
    using assms(1-3) by (simp add: replaySealedSegments_def Let_def)
  have eq': "replaySealedSegments w fn s d = replay_segments (w_cfg w) fn (n # ns) s d" for fn :: "'c callback" and s
    using assms(1-3) by (simp add: replaySealedSegments_def Let_def)
  have fa: "fst (feed (logged accept_all) es x)" for es x
    by (induction es arbitrary: x) (simp_all add: invokeReplayCallback_def logged_def accept_all_def)
  obtain c ok s' acc where X: "replay_lines (logged accept_all) ls 0 ((), []) = (c, ok, s', acc)"
    by (cases "replay_lines (logged accept_all) ls 0 ((), [])") auto
  then have F: "feed (logged accept_all) (decode_lines ls) ((), []) = (ok, s', acc)"
    using replay_lines_feed [of "logged accept_all" ls 0 "((), [])"] by simp
  with fa have "ok" by (metis fst_conv)
  with feed_logged [OF F] have "acc = decode_lines ls" by simp
  moreover have "replaySegment (w_cfg w) n (logged accept_all) ((), []) d = ((c, Some ReplayScan), (s', acc), d)"
    using assms(1,4) S X \<open>ok\<close> by (simp add: replaySegment_def Open_def Read_rest_def file_data_def seg_limit_def)
  ultimately show ?thesis
    using eq [of fn s] replay_segments_blocked [OF assms(1,4) S] eq' [of "logged accept_all" "((), [])"] by simp
qed

definition long_disk :: disk where
  "long_disk = \<lparr>dk_made = True,
     dk_dir = [(''wal-000001.log'', NFile (unlines [] @ replicate 65536 (CHR ''a'') @ newline # []) 0)], dk_faults = []\<rparr>"

theorem long_line_blocks_replay_witness:
  "\<exists>s'. replaySealedSegments (blank_writer (sample_config 0)) accept_all () long_disk = (s', long_disk)"
proof -
  have "sealed_segments (ToLower (ActiveSegmentName (blank_writer (sample_config 0)))) [(''wal-000001.log'', False)] = [''wal-000001.log'']"
    by code_simp
  moreover have "entries long_disk = [(''wal-000001.log'', False)]" by (simp add: entries_def long_disk_def)
  moreover have "seg_limit (w_cfg (blank_writer (sample_config 0))) = 65536" by code_simp
  ultimately show ?thesis
    using long_line_blocks_replay [of long_disk "blank_writer (sample_config 0)" "''wal-000001.log''" "[]" "[]"
        "replicate 65536 (CHR ''a'')" "[]" 0 accept_all "()"]
    by (simp add: long_disk_def quiet_def newline_def)
qed

end
