(* ===== verification/Wal_Close.thy ===== *)
theory Wal_Close
  imports Wal_Laws
begin

text \<open>
  Writing to the log after \<open>Close\<close> (\<open>internal/wal/wal.go\<close>): nothing in \<open>Write\<close> asks whether the writer was closed. A
  worker that is still busy when the shutdown of its pool times out writes to a log \<open>Run\<close> has closed already.
\<close>

subsection \<open>A closed writer that is written to\<close>

text \<open>The writes of a list of entries, as long as they succeed.\<close>

fun write_all :: "Entry list \<Rightarrow> Writer \<Rightarrow> disk \<Rightarrow> (wal_error + unit) \<times> Writer \<times> disk" where
  "write_all [] w d = (Inr (), w, d)"
| "write_all (e # es) w d =
     (case Write e w d of
        (Inl x, w, d) \<Rightarrow> (Inl x, w, d)
      | (Inr _, w, d) \<Rightarrow> write_all es w d)"

definition entry_line :: "Entry \<Rightarrow> bytes" where
  "entry_line e = (case marshal_entry e of None \<Rightarrow> [] | Some s \<Rightarrow> s @ [newline])"

text \<open>After some writes: the bytes are in the buffer of a segment that was opened for the first of them, and in no file.\<close>

definition unflushed :: "Writer \<Rightarrow> disk \<Rightarrow> bytes \<Rightarrow> Writer \<Rightarrow> disk \<Rightarrow> bool" where
  "unflushed w0 d0 p w d \<longleftrightarrow>
     w_cfg w = w_cfg w0 \<and> w_closed w = w_closed w0 \<and> w_ticking w = w_ticking w0 \<and> (\<forall>n. file_data n d = file_data n d0)
     \<and> (\<exists>n. w_activeSeg w = Some (n, True) \<and> w_activeBuf w = Some \<lparr>bw_buf = p, bw_err = None\<rparr> \<and> w_activeSize w = int (length p))"

lemma OpenAppend_data: "OpenAppend c n d = (r, d') \<Longrightarrow> file_data m d' = file_data m d"
  using next_fault_data(1) [of d _ _ m]
  by (auto simp: OpenAppend_def file_data_def map_add_def split: prod.splits option.splits node.splits if_splits)

lemma open_next_unflushed:
  assumes "open_next w d = (Inr (), w', d')"
  shows "unflushed w d [] w' d'"
proof -
  obtain k d1 where N: "nextSegmentNum d = (k, d1)" by fastforce
  obtain r d2 where O: "OpenAppend True (seg_name k) d1 = (r, d2)" by fastforce
  have r: "r = Inr ()" using assms by (cases r) (auto simp: open_next_def N O)
  note w' = assms [unfolded open_next_def N prod.case Let_def O r sum.case]
  have "file_data n d' = file_data n d" for n
    using w' OpenAppend_data [OF O, of n] same_dir(1) [OF nextSegmentNum_same [OF N], of n] same_dir(1) [OF purge_dir, of n] by auto
  with w' show ?thesis by (auto simp: unflushed_def new_bufw_def)
qed

lemma rotate_unflushed:
  "w_activeSeg w = None \<Longrightarrow> rotate_wal w d = (Inr (), w', d') \<Longrightarrow> unflushed w d [] w' d'"
  by (auto simp: rotate_wal_def seal_active_def intro: open_next_unflushed)

lemma append_unflushed:
  assumes "unflushed w0 d0 p w d" "append_active q w d = (r, w', d')" "cfg_SyncInterval (w_cfg w0) \<noteq> 0" "length p + length q \<le> buf_size"
  shows "r = Inr () \<and> unflushed w0 d0 (p @ q) w' d'"
proof -
  obtain n where n: "w_activeSeg w = Some (n, True)" "w_activeBuf w = Some \<lparr>bw_buf = p, bw_err = None\<rparr>" "w_activeSize w = int (length p)"
    and c: "w_cfg w = w_cfg w0"
    using assms(1) by (auto simp: unflushed_def)
  have "length q \<le> buf_size - length p" using assms(4) by simp
  then have "bw_Write (n, True) q \<lparr>bw_buf = p, bw_err = None\<rparr> d = ((length q, None), \<lparr>bw_buf = p @ q, bw_err = None\<rparr>, d)"
    by (simp add: bw_Write_def bw_put_def)
  with assms(2,3) n c have "r = Inr ()" "w' = w\<lparr>w_activeBuf := Some \<lparr>bw_buf = p @ q, bw_err = None\<rparr>, w_activeSize := int (length p) + int (length q), w_seq := w_seq w + 1\<rparr>"
    "d' = d" by (simp_all add: append_active_def Let_def)
  with assms(1) n show ?thesis by (simp add: unflushed_def)
qed

lemma Write_unflushed:
  assumes "Write e w d = (Inr (), w', d')" "cfg_SyncInterval (w_cfg w0) \<noteq> 0"
    and "unflushed w0 d0 p w d \<or> w_activeSeg w = None \<and> w = w0 \<and> d = d0 \<and> p = []"
    and "length p + length (entry_line e) \<le> buf_size" "int (length p + length (entry_line e)) \<le> cfg_MaxSegmentBytes (w_cfg w0)"
  shows "unflushed w0 d0 (p @ entry_line e) w' d'"
proof -
  obtain s where m: "marshal_entry e = Some s" using assms(1) by (cases "marshal_entry e") (auto simp: Write_def)
  let ?q = "s @ [newline]"
  have q: "entry_line e = ?q" by (simp add: entry_line_def m)
  obtain r w1 d1 where R: "make_room (length ?q) w d = (r, w1, d1)" by (metis prod_cases3)
  have A: "r = Inr () \<and> append_active ?q w1 d1 = (Inr (), w', d')"
    using assms(1) unfolding Write_def m option.case Let_def R prod.case by (cases r) simp_all
  have "unflushed w0 d0 p w1 d1"
    using assms(3)
  proof
    assume u: "unflushed w0 d0 p w d"
    then have "w_activeSeg w \<noteq> None" "\<not> w_activeSize w + int (length ?q) > cfg_MaxSegmentBytes (w_cfg w)"
      using assms(5) by (auto simp: unflushed_def q)
    then have "make_room (length ?q) w d = (Inr (), w, d)" by (auto simp add: make_room_def)
    with u R show ?thesis by simp
  next
    assume n: "w_activeSeg w = None \<and> w = w0 \<and> d = d0 \<and> p = []"
    obtain r2 w2 d2 where O: "rotate_wal w d = (r2, w2, d2)" by (metis prod_cases3)
    have "make_room (length ?q) w d = (case r2 of Inl x \<Rightarrow> (Inl (EInitialRotate x), w2, d2) | Inr _ \<Rightarrow> (Inr (), w2, d2))"
      using conjunct1 [OF n] by (cases r2) (simp_all add: make_room_def O)
    with R A have "rotate_wal w d = (Inr (), w1, d1)" by (cases r2) (simp_all add: O)
    with n rotate_unflushed [OF conjunct1 [OF n] this] show ?thesis by blast
  qed
  with append_unflushed [of w0 d0 p w1 d1 ?q "Inr ()" w' d'] A assms(2,4) show ?thesis by (simp add: q)
qed

lemma write_all_unflushed:
  assumes "write_all es w d = (Inr (), w', d')" "cfg_SyncInterval (w_cfg w0) \<noteq> 0"
    and "unflushed w0 d0 p w d \<or> w_activeSeg w = None \<and> w = w0 \<and> d = d0 \<and> p = []"
    and "length p + length (concat (map entry_line es)) \<le> buf_size"
    and "int (length p + length (concat (map entry_line es))) \<le> cfg_MaxSegmentBytes (w_cfg w0)"
  shows "es = [] \<or> unflushed w0 d0 (p @ concat (map entry_line es)) w' d'"
  using assms
proof (induction es arbitrary: w d p)
  case (Cons e es)
  obtain w1 d1 where W: "Write e w d = (Inr (), w1, d1)" "write_all es w1 d1 = (Inr (), w', d')"
    using Cons.prems(1) by (auto split: prod.splits sum.splits)
  have u: "unflushed w0 d0 (p @ entry_line e) w1 d1"
    using Write_unflushed [OF W(1) Cons.prems(2,3)] Cons.prems(4,5) by simp
  show ?case
  proof (cases "es = []")
    case True
    with u W(2) show ?thesis by simp
  next
    case False
    with Cons.IH [OF W(2) Cons.prems(2), of "p @ entry_line e"] u Cons.prems(4,5) show ?thesis by (simp add: add.assoc)
  qed
qed simp

subsection \<open>Property\<close>



end
