(* ===== verification/Float64.thy ===== *)
theory Float64
  imports Prelude
begin

text \<open>
  IEEE 754 double precision as far as the gateway computes with it: non-negative numbers of
  moderate size, represented by the rationals they denote. \<open>fl x\<close> is the double nearest to
  \<open>x\<close>, ties going to the even significand; every operation of Go on doubles is the exact
  operation followed by \<open>fl\<close>.
\<close>

definition round_even :: "int \<Rightarrow> int \<Rightarrow> int" where
  "round_even n d =
     (let q = n div d; r = n mod d
      in if 2 * r < d \<or> 2 * r = d \<and> even q then q else q + 1)"

fun bits :: "nat \<Rightarrow> nat" where
  "bits n = (if n = 0 then 0 else Suc (bits (n div 2)))"

declare bits.simps [simp del]

text \<open>
  A scale \<open>k\<close> for which \<open>n * 2 ^ k / d\<close> lies in \<open>[2^52, 2^53)\<close>; negative scales are not needed
  for the quotients below \<open>2^52\<close> that occur here.
\<close>

definition scale :: "nat \<Rightarrow> nat \<Rightarrow> nat" where
  "scale n d = (let k = 53 + bits d - bits n in if n * 2 ^ k < d * 2 ^ 53 then k else k - 1)"

definition fl :: "rat \<Rightarrow> rat" where
  "fl x =
     (if x \<le> 0 then 0
      else let (n, d) = quotient_of x; k = scale (nat n) (nat d)
           in of_int (round_even (n * 2 ^ k) d) / 2 ^ k)"

lemma round_even_nonneg: "0 \<le> n \<Longrightarrow> 0 < d \<Longrightarrow> 0 \<le> round_even n d"
  by (auto simp: round_even_def Let_def pos_imp_zdiv_nonneg_iff intro: add_nonneg_nonneg)

lemma round_even_exact: "0 < d \<Longrightarrow> round_even (q * d) d = q"
  by (simp add: round_even_def)

lemma fl_nonneg: "0 \<le> fl x"
proof (cases "x \<le> 0")
  case False
  obtain n d where q: "quotient_of x = (n, d)" by (cases "quotient_of x")
  then have "0 < d" by (rule quotient_of_denom_pos)
  moreover have "0 \<le> n"
    using False q quotient_of_div [OF q] \<open>0 < d\<close> by (simp add: zero_less_divide_iff not_le)
  ultimately show ?thesis using False q by (simp add: fl_def Let_def round_even_nonneg)
qed (simp add: fl_def)

lemma fl_0 [simp]: "fl 0 = 0"
  by (simp add: fl_def)

lemma fl_1 [simp]: "fl 1 = 1"
  by code_simp

lemma fl_half: "fl (1 / 2) = 1 / 2"
  by code_simp

subsection \<open>Rounding error\<close>

lemma round_even_error:
  assumes "0 < d"
  shows "\<bar>rat_of_int (round_even n d) - rat_of_int n / rat_of_int d\<bar> \<le> 1 / 2"
proof -
  let ?q = "n div d" and ?r = "n mod d"
  have n: "n = ?q * d + ?r" by simp
  have r: "0 \<le> ?r" "?r < d" using assms by simp_all
  have "rat_of_int n = of_int ?q * of_int d + of_int ?r" by (metis n of_int_add of_int_mult)
  then have "rat_of_int n / rat_of_int d = of_int ?q + of_int ?r / of_int d"
    using assms by (simp add: field_simps)
  moreover have "of_int ?r / rat_of_int d \<le> 1 / 2" if "2 * ?r \<le> d"
  proof -
    from that have "2 * rat_of_int ?r \<le> of_int d" by (metis of_int_le_iff of_int_mult of_int_numeral)
    then show ?thesis using assms by (simp add: field_simps)
  qed
  moreover have "1 / 2 \<le> of_int ?r / rat_of_int d \<and> of_int ?r / rat_of_int d \<le> 1" if "\<not> 2 * ?r < d"
  proof -
    from that have "rat_of_int d \<le> 2 * of_int ?r" by (metis of_int_le_iff of_int_mult of_int_numeral not_less)
    moreover have "rat_of_int ?r \<le> of_int d" using r by simp
    ultimately show ?thesis using assms by (simp add: field_simps)
  qed
  moreover have "0 \<le> of_int ?r / rat_of_int d" using r assms by simp
  ultimately show ?thesis by (auto simp: round_even_def Let_def abs_le_iff)
qed

lemma bits_mono: "n \<le> d \<Longrightarrow> bits n \<le> bits d"
proof (induction d arbitrary: n rule: less_induct)
  case (less d)
  show ?case
  proof (cases "n = 0")
    case False
    with less.prems have "n div 2 \<le> d div 2" "d div 2 < d" by simp_all
    with less.IH [of "d div 2" "n div 2"] False less.prems show ?thesis by (simp add: bits.simps [of n] bits.simps [of d])
  qed (simp add: bits.simps)
qed

lemma fl_error:
  assumes "0 < x" and "x \<le> 1"
  shows "\<bar>fl x - x\<bar> \<le> 1 / 2 ^ 53"
proof -
  obtain n d where q: "quotient_of x = (n, d)" by (cases "quotient_of x")
  then have d: "0 < d" by (rule quotient_of_denom_pos)
  have x: "x = of_int n / of_int d" by (rule quotient_of_div [OF q])
  have n: "0 < n" "n \<le> d" using assms d by (simp_all add: x field_simps zero_less_divide_iff)
  let ?k = "scale (nat n) (nat d)"
  have "bits (nat n) \<le> bits (nat d)" using n by (intro bits_mono) simp
  then have k: "52 \<le> ?k" unfolding scale_def Let_def by (simp split: if_split) linarith
  have "\<bar>of_int (round_even (n * 2 ^ ?k) d) - x * 2 ^ ?k\<bar> \<le> 1 / 2"
    using round_even_error [OF d, of "n * 2 ^ ?k"] by (simp add: x)
  then have "\<bar>of_int (round_even (n * 2 ^ ?k) d) - x * 2 ^ ?k\<bar> / 2 ^ ?k \<le> (1 / 2) / 2 ^ ?k"
    by (rule divide_right_mono) simp
  moreover have "\<bar>of_int (round_even (n * 2 ^ ?k) d) - x * 2 ^ ?k\<bar> / 2 ^ ?k = \<bar>fl x - x\<bar>"
  proof -
    have "fl x - x = (of_int (round_even (n * 2 ^ ?k) d) - x * 2 ^ ?k) / 2 ^ ?k"
      using assms q by (simp add: fl_def Let_def diff_divide_distrib)
    then show ?thesis by (simp add: abs_divide)
  qed
  moreover have "(1 / 2) / 2 ^ ?k \<le> (1::rat) / 2 ^ 53"
  proof -
    have "(2::rat) ^ 53 \<le> 2 ^ Suc ?k" using k by (intro power_increasing) simp_all
    then have "1 / (2::rat) ^ Suc ?k \<le> 1 / 2 ^ 53" by (intro divide_left_mono) simp_all
    then show ?thesis by simp
  qed
  ultimately show ?thesis by linarith
qed

lemma fl_le_1: "x \<le> 1 \<Longrightarrow> fl x \<le> 1"
proof (cases "x \<le> 0")
  case False
  assume x1: "x \<le> 1"
  obtain n d where q: "quotient_of x = (n, d)" by (cases "quotient_of x")
  then have d: "0 < d" by (rule quotient_of_denom_pos)
  let ?k = "scale (nat n) (nat d)"
  have "(of_int n :: rat) \<le> of_int d" using quotient_of_div [OF q] x1 d by (simp add: divide_le_eq)
  then have "of_int (n * 2 ^ ?k) / of_int d \<le> (2 :: rat) ^ ?k" using d by (simp add: divide_le_eq mult.commute)
  moreover have "\<bar>of_int (round_even (n * 2 ^ ?k) d) - rat_of_int (n * 2 ^ ?k) / of_int d\<bar> \<le> 1 / 2" by (rule round_even_error [OF d])
  ultimately have "rat_of_int (round_even (n * 2 ^ ?k) d) \<le> 2 ^ ?k + 1 / 2" by linarith
  then have "rat_of_int (round_even (n * 2 ^ ?k) d) < of_int (2 ^ ?k + 1)" by simp
  then have "round_even (n * 2 ^ ?k) d \<le> 2 ^ ?k" by (simp only: of_int_less_iff)
  then have "rat_of_int (round_even (n * 2 ^ ?k) d) \<le> 2 ^ ?k" by (metis of_int_le_iff of_int_numeral of_int_power)
  with False q show ?thesis by (simp add: fl_def Let_def divide_le_eq)
qed (simp add: fl_def)

text \<open>
  Comparing a rounded quotient with a rounded constant gives the exact answer as long as the
  denominators are small: two different fractions are further apart than the rounding errors.
\<close>

lemma fl_quotient_le:
  assumes "0 < q" "0 < d" "n \<le> d" "p \<le> q" "0 < p" "0 < n" and "int q * int d < 2 ^ 52"
  shows "fl (of_nat p / of_nat q) \<le> fl (of_nat n / of_nat d) \<longleftrightarrow> p * d \<le> n * q"
proof -
  let ?x = "rat_of_nat n / of_nat d" and ?y = "rat_of_nat p / of_nat q"
  have x: "0 < ?x" "?x \<le> 1" "0 < ?y" "?y \<le> 1" using assms by (simp_all add: field_simps)
  have "\<bar>fl ?x - ?x\<bar> \<le> 1 / 2 ^ 53" "\<bar>fl ?y - ?y\<bar> \<le> 1 / 2 ^ 53" using x fl_error by simp_all
  then have e: "fl ?x - ?x \<le> 1 / 2 ^ 53" "?x - fl ?x \<le> 1 / 2 ^ 53" "fl ?y - ?y \<le> 1 / 2 ^ 53" "?y - fl ?y \<le> 1 / 2 ^ 53"
    by (simp_all only: abs_le_iff minus_diff_eq)
  have two: "1 / 2 ^ 52 = 1 / 2 ^ 53 + (1 / 2 ^ 53 :: rat)" by simp
  have gap: "1 / 2 ^ 52 < 1 / (of_nat q * rat_of_nat d)"
  proof -
    have "rat_of_nat q * of_nat d < 2 ^ 52" using assms(7) by (metis of_int_less_iff of_int_mult of_int_numeral of_int_of_nat_eq of_int_power)
    then show ?thesis using assms by (intro divide_strict_left_mono) simp_all
  qed
  have diff: "?x - ?y = rat_of_int (int (n * q) - int (p * d)) / (of_nat q * of_nat d)"
    using assms by (simp add: field_simps)
  consider "p * d = n * q" | "p * d < n * q" | "n * q < p * d" by linarith
  then show ?thesis
  proof cases
    case 1
    with diff have "?x = ?y" by simp
    with 1 show ?thesis by simp
  next
    case 2
    then have "1 \<le> int (n * q) - int (p * d)" by linarith
    then have "1 \<le> rat_of_int (int (n * q) - int (p * d))" by (metis of_int_1 of_int_le_iff)
    then have "1 / (of_nat q * of_nat d) \<le> ?x - ?y" unfolding diff using assms by (intro divide_right_mono) simp_all
    with gap e two have "fl ?y \<le> fl ?x" by linarith
    with 2 show ?thesis by simp
  next
    case 3
    then have "1 \<le> int (p * d) - int (n * q)" by linarith
    then have "1 \<le> rat_of_int (int (p * d) - int (n * q))" by (metis of_int_1 of_int_le_iff)
    then have "1 / (of_nat q * of_nat d) \<le> rat_of_int (int (p * d) - int (n * q)) / (of_nat q * of_nat d)"
      using assms by (intro divide_right_mono) simp_all
    also have "\<dots> = ?y - ?x" using diff by (simp add: diff_divide_distrib)
    finally have "fl ?x < fl ?y" using gap e two by linarith
    with 3 show ?thesis by simp
  qed
qed

end
