(* ===== verification/Dynval.thy ===== *)
theory Dynval
  imports Decode Float64 "HOL-Library.List_Lexorder" "HOL-Library.Char_ord" "HOL-Library.AList"
begin

text \<open>
  Values of type \<open>interface{}\<close>: what the JSON and YAML decoders make of a document whose shape is not
  fixed, and what \<open>json.Marshal\<close> prints for them. Numbers of a JSON text become doubles and
  are printed in their shortest form, so this part models \<open>strconv.ParseFloat\<close> and the
  formatting of \<open>encoding/json\<close> too.
\<close>

subsection \<open>Doubles\<close>

definition pow2 :: "int \<Rightarrow> rat" where
  "pow2 e = (if 0 \<le> e then 2 ^ nat e else 1 / 2 ^ nat (- e))"

definition pow10 :: "int \<Rightarrow> rat" where
  "pow10 e = (if 0 \<le> e then 10 ^ nat e else 1 / 10 ^ nat (- e))"

text \<open>The exponent of the binade of a positive number.\<close>

definition exponent :: "rat \<Rightarrow> int" where
  "exponent x =
     (let (n, d) = quotient_of x; k = int (bits (nat n)) - int (bits (nat d))
      in if pow2 k \<le> x then k else k - 1)"

definition round_rat :: "rat \<Rightarrow> int" where
  "round_rat x = (let (n, d) = quotient_of x in round_even n d)"

text \<open>The double nearest to a non-negative number, subnormal ones included; \<open>None\<close> on overflow.\<close>

definition round64 :: "rat \<Rightarrow> rat option" where
  "round64 x =
     (if x \<le> 0 then Some 0
      else let q = max (exponent x - 52) (- 1074); y = of_int (round_rat (x / pow2 q)) * pow2 q
           in if y < 2 ^ 1024 then Some y else None)"

text \<open>A finite double: its sign (there is a negative zero) and its magnitude.\<close>

type_synonym float64 = "bool \<times> rat"

definition exp_value :: "bytes \<Rightarrow> int" where
  "exp_value e =
     (case e of
        [] \<Rightarrow> 0
      | c # s \<Rightarrow> (case scan_sign s of (sg, ds) \<Rightarrow>
          if sg = ''-'' then - int (digits_value ds) else int (digits_value ds)))"

text \<open>\<open>strconv.ParseFloat\<close> on a number token of JSON.\<close>

definition parse_float :: "bytes \<Rightarrow> float64 option" where
  "parse_float t =
     (case num_minus t of (m, s0) \<Rightarrow>
        (case scan_int s0 of
           None \<Rightarrow> None
         | Some (i, s1) \<Rightarrow>
             (case scan_frac s1 of (f, s2) \<Rightarrow>
                map_option (Pair (m \<noteq> []))
                  (round64 (of_nat (digits_value (i @ tl f)) * pow10 (exp_value (fst (scan_exp s2)) - int (length (tl f))))))))"

text \<open>
  The shortest digits that read back as the same double: \<open>n\<close> digits \<open>c\<close>, standing for
  \<open>c * 10 ^ (p - n)\<close>. At most 17 are needed.
\<close>

definition dec_exp :: "rat \<Rightarrow> int" where
  "dec_exp x = (case List.find (\<lambda>p. x < pow10 p) (map (\<lambda>k. int k - 330) [0..<650]) of Some p \<Rightarrow> p | None \<Rightarrow> 320)"

definition candidate :: "rat \<Rightarrow> nat \<Rightarrow> nat \<times> int" where
  "candidate x n =
     (let p = dec_exp x; c = nat (round_rat (x * pow10 (int n - p)))
      in if c = 10 ^ n then (10 ^ (n - 1), p + 1) else (c, p))"

definition reads_back :: "rat \<Rightarrow> nat \<Rightarrow> bool" where
  "reads_back x n = (case candidate x n of (c, p) \<Rightarrow> round64 (of_nat c * pow10 (p - int n)) = Some x)"

definition shortest :: "rat \<Rightarrow> nat \<times> nat \<times> int" where
  "shortest x = (let n = (case List.find (reads_back x) [1..<17] of Some n \<Rightarrow> n | None \<Rightarrow> 17) in (n, candidate x n))"

text \<open>\<open>c\<close> with the last \<open>k\<close> digits after the point.\<close>

definition fixed_text :: "nat \<Rightarrow> int \<Rightarrow> bytes" where
  "fixed_text c k =
     (if k \<le> 0 then itoa (c * 10 ^ nat (- k))
      else itoa (c div 10 ^ nat k) @ CHR ''.'' # zero_pad (nat k) (itoa (c mod 10 ^ nat k)))"

text \<open>
  \<open>floatEncoder\<close>: fixed notation between the doubles \<open>1e-6\<close> and \<open>1e21\<close>, otherwise with an exponent, from which
  a leading zero is cut.
\<close>

definition float_text :: "float64 \<Rightarrow> bytes" where
  "float_text v =
     (case v of (neg, x) \<Rightarrow>
        (if neg then ''-'' else []) @
        (if x = 0 then ''0''
         else case shortest x of (n, c, p) \<Rightarrow>
           if x < the (round64 (1 / 10 ^ 6)) \<or> 10 ^ 21 \<le> x
           then fixed_text c (int n - 1) @ (if p - 1 < 0 then ''e-'' else ''e+'') @ itoa (nat \<bar>p - 1\<bar>)
           else fixed_text c (int n - p)))"

subsection \<open>Values\<close>

text \<open>
  The constructors are the dynamic types that occur: nil, bool, int, float64, string, time (YAML
  only), lists and maps with string keys. \<open>DOther\<close> stands for a YAML value \<open>json.Marshal\<close>
  rejects: an infinity, not-a-number, or a map with other keys. Maps are association
  lists with distinct keys.
\<close>

datatype dynval =
    DNull
  | DBool bool
  | DInt int
  | DFloat float64
  | DStr bytes
  | DTime gotime
  | DList "dynval list"
  | DMap "(bytes \<times> dynval) list"
  | DOther

type_synonym dynmap = "(bytes \<times> dynval) list"

subsection \<open>json.Unmarshal into interface{}\<close>

fun decode_value :: "json \<Rightarrow> dynval option"
and decode_list :: "json list \<Rightarrow> dynval list option"
and decode_members :: "(bytes \<times> json) list \<Rightarrow> dynmap \<Rightarrow> dynmap option" where
  "decode_value JNull = Some DNull"
| "decode_value (JBool b) = Some (DBool b)"
| "decode_value (JNum t) = map_option DFloat (parse_float t)"
| "decode_value (JStr t) = Some (DStr (unquote t))"
| "decode_value (JArr vs) = map_option DList (decode_list vs)"
| "decode_value (JObj ms) = map_option DMap (decode_members ms [])"
| "decode_list [] = Some []"
| "decode_list (v # vs) =
     (case (decode_value v, decode_list vs) of (Some x, Some xs) \<Rightarrow> Some (x # xs) | _ \<Rightarrow> None)"
| "decode_members [] m = Some m"
| "decode_members ((k, v) # ms) m =
     (case decode_value v of None \<Rightarrow> None | Some x \<Rightarrow> decode_members ms (AList.update (unquote k) x m))"

text \<open>
  Into a \<open>map[string]interface{}\<close>: \<open>None\<close> on an error, \<open>Some None\<close> when the map stays nil because the text is
  \<open>null\<close>.
\<close>

definition unmarshal_map :: "bytes \<Rightarrow> dynmap option option" where
  "unmarshal_map s =
     (case parse_json s of
        Some JNull \<Rightarrow> Some None
      | Some (JObj ms) \<Rightarrow> map_option Some (decode_members ms [])
      | _ \<Rightarrow> None)"

subsection \<open>json.Marshal\<close>

fun encode_value :: "dynval \<Rightarrow> json option" where
  "encode_value DNull = Some JNull"
| "encode_value (DBool b) = Some (JBool b)"
| "encode_value (DInt i) = Some (JNum (if i < 0 then CHR ''-'' # itoa (nat (- i)) else itoa (nat i)))"
| "encode_value (DFloat v) = Some (JNum (float_text v))"
| "encode_value (DStr s) = Some (JStr (quote_body s))"
| "encode_value (DTime t) = map_option (\<lambda>s. JStr s) (marshal_time t)"
| "encode_value (DList vs) =
     (if list_all (\<lambda>v. encode_value v \<noteq> None) vs then Some (JArr (map (\<lambda>v. the (encode_value v)) vs)) else None)"
| "encode_value (DMap m) =
     (if list_all (\<lambda>(k, v). encode_value v \<noteq> None) m
      then Some (JObj (map (\<lambda>(k, x). (quote_body k, x)) (sort_key fst (map (\<lambda>(k, v). (k, the (encode_value v))) m))))
      else None)"
| "encode_value DOther = None"

text \<open>A nil map prints as \<open>null\<close>.\<close>

definition marshal_map :: "dynmap option \<Rightarrow> bytes option" where
  "marshal_map m = (case m of None \<Rightarrow> Some ''null'' | Some m \<Rightarrow> map_option pr (encode_value (DMap m)))"

subsection \<open>The printed text is JSON\<close>

lemma scan_int_itoa: "no_digit r \<Longrightarrow> scan_int (itoa n @ r) = Some (itoa n, r)"
proof -
  assume r: "no_digit r"
  obtain c s where cs: "itoa n = c # s" by (cases "itoa n") auto
  with itoa_digits [of n] have d: "is_digit c" "list_all is_digit s" by simp_all
  have "c = CHR ''0'' \<Longrightarrow> s = []"
    using itoa_head [of n] cs by (cases "n = 0") (auto simp: itoa.simps [of 0])
  moreover have "scan_digits (c # s @ r) = (c # s, r)"
    using d r scan_digits_app [of "c # s" r] by simp
  ultimately show ?thesis using d by (auto simp: scan_int_def cs)
qed

lemma scan_frac_point:
  "list_all is_digit ds \<Longrightarrow> ds \<noteq> [] \<Longrightarrow> no_digit r \<Longrightarrow> scan_frac (CHR ''.'' # ds @ r) = (CHR ''.'' # ds, r)"
  using scan_digits_app [of ds r] by (cases ds) (auto simp: scan_frac_def)

lemma scan_exp_text:
  "c = CHR ''-'' \<or> c = CHR ''+'' \<Longrightarrow> scan_exp (CHR ''e'' # c # itoa n) = (CHR ''e'' # c # itoa n, [])"
  using scan_digits_app [of "itoa n" "[]"] itoa_digits [of n] by (auto simp: scan_exp_def scan_sign_def no_digit_def)

lemma wf_num_parts:
  assumes "m = [] \<or> m = ''-''" and "f = [] \<or> (\<exists>ds. f = CHR ''.'' # ds \<and> list_all is_digit ds \<and> ds \<noteq> [])"
    and "e = [] \<or> (\<exists>c n. (c = CHR ''-'' \<or> c = CHR ''+'') \<and> e = CHR ''e'' # c # itoa n)"
  shows "wf_num (m @ itoa n @ f @ e)"
proof -
  have e: "no_digit e" "scan_exp e = (e, [])" "scan_frac e = ([], e)"
  proof -
    consider "e = []" | c n where "c = CHR ''-'' \<or> c = CHR ''+''" "e = CHR ''e'' # c # itoa n" using assms(3) by blast
    then have "no_digit e \<and> scan_exp e = (e, []) \<and> scan_frac e = ([], e)"
    proof cases
      case 1
      then show ?thesis by (simp add: no_digit_def scan_exp_def scan_frac_def)
    next
      case (2 c n)
      then show ?thesis by (simp add: scan_exp_text) (simp add: no_digit_def is_digit_def scan_frac_def)
    qed
    then show "no_digit e" "scan_exp e = (e, [])" "scan_frac e = ([], e)" by simp_all
  qed
  have f: "scan_frac (f @ e) = (f, e) \<and> no_digit (f @ e)"
  proof (cases "f = []")
    case True
    with e show ?thesis by simp
  next
    case False
    then obtain ds where "f = CHR ''.'' # ds" "list_all is_digit ds" "ds \<noteq> []" using assms(2) by blast
    with scan_frac_point [of ds e] e(1) show ?thesis by (simp add: no_digit_def is_digit_def)
  qed
  then have i: "scan_int (itoa n @ f @ e) = Some (itoa n, f @ e)" by (intro scan_int_itoa) simp
  obtain c s where cs: "itoa n = c # s" by (cases "itoa n") auto
  with itoa_digits [of n] have "c \<noteq> CHR ''-''" by (auto simp: is_digit_def)
  then have "num_minus (m @ itoa n @ f @ e) = (m, itoa n @ f @ e)" using assms(1) by (auto simp: num_minus_def cs)
  with i f e show ?thesis by (simp add: wf_num_def scan_num_eq)
qed

lemma fixed_text_parts:
  obtains n f where "fixed_text c k = itoa n @ f" "f = [] \<or> (\<exists>ds. f = CHR ''.'' # ds \<and> list_all is_digit ds \<and> ds \<noteq> [])"
  using zero_pad_digits [OF itoa_digits] that
  by (cases "k \<le> 0") (force simp: fixed_text_def intro: that [of _ "[]"])+

lemma wf_num_float: "wf_num (float_text v)"
proof -
  obtain neg x where v: "v = (neg, x)" by (cases v)
  let ?m = "if neg then ''-'' else []"
  have m: "?m = [] \<or> ?m = ''-''" by simp
  show ?thesis
  proof (cases "x = 0")
    case True
    have "''0'' = itoa 0" by code_simp
    then show ?thesis using True wf_num_parts [OF m, of "[]" "[]" 0] by (simp add: float_text_def v)
  next
    case False
    obtain n c p where s: "shortest x = (n, c, p)" by (cases "shortest x")
    obtain a f where a: "fixed_text c (int n - 1) = itoa a @ f" "f = [] \<or> (\<exists>ds. f = CHR ''.'' # ds \<and> list_all is_digit ds \<and> ds \<noteq> [])"
      by (rule fixed_text_parts)
    obtain b g where b: "fixed_text c (int n - p) = itoa b @ g" "g = [] \<or> (\<exists>ds. g = CHR ''.'' # ds \<and> list_all is_digit ds \<and> ds \<noteq> [])"
      by (rule fixed_text_parts)
    have "wf_num (?m @ itoa a @ f @ (if p - 1 < 0 then ''e-'' else ''e+'') @ itoa (nat \<bar>p - 1\<bar>))"
      by (rule wf_num_parts [OF m a(2)]) (auto split: if_split)
    moreover have "wf_num (?m @ itoa b @ g)" using wf_num_parts [OF m b(2), of "[]" b] by simp
    ultimately show ?thesis using False by (simp add: float_text_def v s a(1) b(1))
  qed
qed

text \<open>Values that nest no deeper than JSON may, from depth \<open>d\<close> on.\<close>

fun dyn_ok :: "nat \<Rightarrow> dynval \<Rightarrow> bool" where
  "dyn_ok d (DList vs) = (d < max_depth \<and> list_all (dyn_ok (Suc d)) vs)"
| "dyn_ok d (DMap m) = (d < max_depth \<and> list_all (\<lambda>(k, v). dyn_ok (Suc d) v) m)"
| "dyn_ok d v = True"

lemma wf_num_int: "wf_num (if i < 0 then CHR ''-'' # itoa (nat (- i)) else itoa (nat i))"
  using wf_num_parts [of "''-''" "[]" "[]" "nat (- i)"] wf_num_parts [of "[]" "[]" "[]" "nat i"] by simp

lemma wf_encode: "encode_value v = Some j \<Longrightarrow> dyn_ok d v \<Longrightarrow> wf_json d j"
proof (induction v arbitrary: d j)
  case (DInt i)
  then show ?case using wf_num_int [of i] by auto
next
  case (DFloat v)
  then show ?case using wf_num_float [of v] by auto
next
  case (DStr s)
  then show ?case using wf_str_quote_body [of s] by auto
next
  case (DTime t)
  then show ?case using wf_str_time by (auto simp: marshal_time_def split: if_splits)
next
  case (DList vs)
  then show ?case by (force simp: list_all_iff split: if_splits)
next
  case (DMap m)
  have "wf_json (Suc d) (the (encode_value v))" if "(k, v) \<in> set m" for k v
    using that DMap.IH [of "(k, v)" v "the (encode_value v)" "Suc d"] DMap.prems
    by (fastforce simp: list_all_iff split: if_splits)
  with DMap.prems wf_str_quote_body show ?case by (auto simp: list_all_iff split: if_splits)
qed auto

subsection \<open>What the decoder makes\<close>

lemma decode_ok:
  "wf_json d j \<Longrightarrow> decode_value j = Some v \<Longrightarrow> dyn_ok d v \<and> encode_value v \<noteq> None"
  "list_all (wf_json d) js \<Longrightarrow> decode_list js = Some vs \<Longrightarrow> list_all (\<lambda>v. dyn_ok d v \<and> encode_value v \<noteq> None) vs"
  "list_all (\<lambda>(k, v). wf_json d v) ms \<Longrightarrow> decode_members ms m = Some m' \<Longrightarrow>
     list_all (\<lambda>(k, v). dyn_ok d v \<and> encode_value v \<noteq> None) m \<Longrightarrow> distinct (map fst m) \<Longrightarrow>
     list_all (\<lambda>(k, v). dyn_ok d v \<and> encode_value v \<noteq> None) m' \<and> distinct (map fst m')"
proof (induction j and js and ms m arbitrary: d v and d vs and d m' rule: decode_value_decode_list_decode_members.induct)
  case (5 vs)
  then show ?case by (fastforce simp: list_all_iff)
next
  case (6 ms)
  then have "list_all (\<lambda>(k, v). wf_json (Suc d) v) ms" by (auto simp: list_all_iff)
  with 6 show ?case by (fastforce simp: list_all_iff)
next
  case (8 v vs)
  then show ?case by (auto split: option.splits)
next
  case (10 k v ms m)
  obtain x where x: "decode_value v = Some x" and r: "decode_members ms (AList.update (unquote k) x m) = Some m'"
    using "10.prems"(2) by (auto split: option.splits)
  have "dyn_ok d x \<and> encode_value x \<noteq> None" using "10.IH"(1) [OF _ x, of d] "10.prems"(1) by simp
  then have "list_all (\<lambda>(k, v). dyn_ok d v \<and> encode_value v \<noteq> None) (AList.update (unquote k) x m)"
    using "10.prems"(3) by (induction m) auto
  moreover have "distinct (map fst (AList.update (unquote k) x m))" using "10.prems"(4) by (rule distinct_update)
  ultimately show ?case using "10.IH"(2) [OF x _ r, of d] "10.prems"(1) by simp
qed auto

text \<open>Maps as the processors handle them: printable, not too deep, with distinct keys.\<close>

definition map_ok :: "dynmap \<Rightarrow> bool" where
  "map_ok m \<longleftrightarrow> distinct (map fst m) \<and> list_all (\<lambda>(k, v). dyn_ok (Suc 0) v \<and> encode_value v \<noteq> None) m"

lemma unmarshal_map_ok:
  assumes "unmarshal_map s = Some (Some m)"
  shows "map_ok m"
proof -
  obtain ms where p: "parse_json s = Some (JObj ms)" and m: "decode_members ms [] = Some m"
    using assms by (auto simp: unmarshal_map_def split: option.splits json.splits)
  have "list_all (\<lambda>(k, v). wf_json 1 v) ms" using parse_json_wf [OF p] by (auto simp: list_all_iff)
  from decode_ok(3) [OF this m] show ?thesis by (simp add: map_ok_def)
qed

text \<open>The members of a printed map, in the order of the keys.\<close>

definition render :: "dynmap \<Rightarrow> (bytes \<times> json) list" where
  "render m = map (\<lambda>(k, x). (quote_body k, x)) (sort_key fst (map (\<lambda>(k, v). (k, the (encode_value v))) m))"

lemma marshal_map_ok:
  assumes "map_ok m"
  shows "marshal_map (Some m) = Some (pr (JObj (render m)))" and "parse_json (pr (JObj (render m))) = Some (JObj (render m))"
proof -
  have e: "encode_value (DMap m) = Some (JObj (render m))"
    using assms by (auto simp: map_ok_def render_def list_all_iff)
  then show "marshal_map (Some m) = Some (pr (JObj (render m)))" by (simp add: marshal_map_def del: encode_value.simps)
  have "dyn_ok 0 (DMap m)" using assms by (auto simp: map_ok_def list_all_iff max_depth_def)
  from wf_encode [OF e this] show "parse_json (pr (JObj (render m))) = Some (JObj (render m))" by (rule parse_json_pr)
qed

lemma set_render: "(q, j) \<in> set (render m) \<longleftrightarrow> (\<exists>k v. (k, v) \<in> set m \<and> q = quote_body k \<and> j = the (encode_value v))"
  by (force simp: render_def)

lemma map_ok_update:
  assumes "map_ok m" "dyn_ok (Suc 0) v" "encode_value v \<noteq> None"
  shows "map_ok (AList.update k v m)"
proof -
  have "list_all (\<lambda>(k, v). dyn_ok (Suc 0) v \<and> encode_value v \<noteq> None) (AList.update k v m)"
    using assms by (induction m) (auto simp: map_ok_def)
  with assms show ?thesis by (simp add: map_ok_def distinct_update)
qed

end
