(* ===== verification/Duration.thy ===== *)
theory Duration
  imports Dynval
begin

text \<open>
  \<open>time.Duration\<close> as text: its method \<open>String\<close> and \<open>time.ParseDuration\<close>. The gateway prints the
  configured timeouts of the sinks into the untyped configuration of a sink and the factory of
  the sink parses them again.
\<close>

subsection \<open>Whole numbers are exact\<close>

lemma bits_bounds: "0 < n \<Longrightarrow> 0 < bits n \<and> 2 ^ (bits n - 1) \<le> n \<and> n < 2 ^ bits n"
proof (induction n rule: bits.induct)
  case (1 n)
  show ?case
  proof (cases "n = 1")
    case True
    have "bits 1 = 1" by code_simp
    with True show ?thesis by simp
  next
    case False
    with "1.prems" have d: "0 < n div 2" by simp
    with 1 have "0 < bits (n div 2)" "2 ^ (bits (n div 2) - 1) \<le> n div 2" "n div 2 < 2 ^ bits (n div 2)" by simp_all
    moreover have "bits n = Suc (bits (n div 2))" using "1.prems" by (simp add: bits.simps [of n])
    moreover obtain k where k: "bits (n div 2) = Suc k" using calculation(1) by (cases "bits (n div 2)") auto
    ultimately have "2 ^ k \<le> n div 2" "n div 2 < 2 * 2 ^ k" "bits n = Suc (Suc k)" by simp_all
    moreover define P :: nat where "P = 2 ^ k"
    ultimately have "P \<le> n div 2" "n div 2 < 2 * P" by simp_all
    then have "2 * P \<le> n" "n < 4 * P" by linarith+
    with \<open>bits n = Suc (Suc k)\<close> show ?thesis by (simp add: P_def)
  qed
qed

lemma round_rat_int [simp]: "round_rat (of_int i) = i"
  by (simp add: round_rat_def round_even_def quotient_of_int)

lemma round64_nat:
  assumes "n < 2 ^ 53"
  shows "round64 (of_nat n) = Some (of_nat n)"
proof (cases "n = 0")
  case True
  then show ?thesis by (simp add: round64_def)
next
  case False
  then have b: "0 < bits n" "2 ^ (bits n - 1) \<le> n" "n < 2 ^ bits n" using bits_bounds by auto
  have "bits n \<le> 53"
  proof (rule ccontr)
    assume "\<not> bits n \<le> 53"
    then have "(2::nat) ^ 53 \<le> 2 ^ (bits n - 1)" by (intro power_increasing) simp_all
    with b(2) assms show False by linarith
  qed
  have one: "bits 1 = 1" by code_simp
  have q: "quotient_of (of_nat n) = (int n, 1)" using quotient_of_int [of "int n"] by simp
  have "rat_of_nat (2 ^ (bits n - 1)) \<le> of_nat n" using b(2) by (simp only: of_nat_le_iff)
  moreover have "pow2 (int (bits n) - 1) = 2 ^ (bits n - 1)" using b(1) by (simp add: pow2_def nat_diff_distrib)
  ultimately have e: "exponent (of_nat n) = int (bits n) - 1" using one by (simp add: exponent_def q Let_def)
  define k where "k = 53 - bits n"
  have m: "max (exponent (of_nat n) - 52) (- 1074) = - int k" using e \<open>bits n \<le> 53\<close> by (simp add: k_def)
  have p: "pow2 (- int k) = 1 / 2 ^ k" by (simp add: pow2_def)
  have "rat_of_nat n / pow2 (- int k) = of_int (int n * 2 ^ k)" by (simp add: p)
  then have r: "round_rat (of_nat n / pow2 (- int k)) = int n * 2 ^ k" by (metis round_rat_int)
  have "rat_of_nat n < 2 ^ 53" using assms by (metis of_nat_less_iff of_nat_numeral of_nat_power)
  also have "(2::rat) ^ 53 \<le> 2 ^ 1024" by (intro power_increasing) simp_all
  finally have "rat_of_nat n < 2 ^ 1024" .
  with False show ?thesis by (simp add: round64_def m r Let_def) (simp add: p)
qed

subsection \<open>Printing\<close>

definition frac_text :: "nat \<Rightarrow> nat \<Rightarrow> bytes" where
  "frac_text prec f = (if f = 0 then [] else CHR ''.'' # trim_zeros (pad prec f))"

definition micro_sign :: bytes where "micro_sign = [CHR 0xC2, CHR 0xB5]"

text \<open>From the units below the second the one that leaves an integer part, above it hours, minutes and seconds.\<close>

definition small_text :: "nat \<Rightarrow> bytes" where
  "small_text u =
     (if u = 0 then ''0s''
      else if u < 1000 then itoa u @ ''ns''
      else if u < 1000000 then itoa (u div 1000) @ frac_text 3 (u mod 1000) @ micro_sign @ ''s''
      else itoa (u div 1000000) @ frac_text 6 (u mod 1000000) @ ''ms'')"

definition big_text :: "nat \<Rightarrow> bytes" where
  "big_text u =
     (let s = u div 1000000000; m = s div 60; h = m div 60
      in (if h > 0 then itoa h @ ''h'' else []) @ (if m > 0 then itoa (m mod 60) @ ''m'' else [])
         @ itoa (s mod 60) @ frac_text 9 (u mod 1000000000) @ ''s'')"

definition Duration_String :: "duration \<Rightarrow> bytes" where
  "Duration_String d =
     (let u = nat \<bar>d\<bar> in (if d < 0 then ''-'' else []) @ (if u < 1000000000 then small_text u else big_text u))"

subsection \<open>Parsing\<close>

text \<open>Reading digits fails when the value is above \<open>2 ^ 63\<close>.\<close>

definition leadingInt :: "bytes \<Rightarrow> (nat \<times> bytes) option" where
  "leadingInt s =
     (case scan_digits s of (ds, r) \<Rightarrow> if digits_value ds > 2 ^ 63 then None else Some (digits_value ds, r))"

text \<open>After the point: digits that no longer fit are skipped.\<close>

fun leadingFraction :: "bytes \<Rightarrow> bool \<Rightarrow> nat \<Rightarrow> nat \<Rightarrow> nat \<times> nat \<times> bytes" where
  "leadingFraction [] ov x sc = (x, sc, [])"
| "leadingFraction (c # s) ov x sc =
     (if \<not> is_digit c then (x, sc, c # s)
      else if ov then leadingFraction s True x sc
      else if x > (2 ^ 63 - 1) div 10 then leadingFraction s True x sc
      else let y = x * 10 + digit_val c
           in if y > 2 ^ 63 then leadingFraction s True x sc else leadingFraction s False y (sc * 10))"

definition unitMap :: "bytes \<Rightarrow> nat option" where
  "unitMap u =
     (if u = ''ns'' then Some 1
      else if u = ''us'' \<or> u = micro_sign @ ''s'' \<or> u = [CHR 0xCE, CHR 0xBC] @ ''s'' then Some 1000
      else if u = ''ms'' then Some 1000000
      else if u = ''s'' then Some 1000000000
      else if u = ''m'' then Some (60 * 1000000000)
      else if u = ''h'' then Some (3600 * 1000000000)
      else None)"

text \<open>\<open>float64(f) * (float64(unit) / sc)\<close>, truncated; none of these overflows.\<close>

definition frac_value :: "nat \<Rightarrow> nat \<Rightarrow> nat \<Rightarrow> nat" where
  "frac_value f unit_ns sc =
     nat \<lfloor>the (round64 (the (round64 (of_nat f)) * the (round64 (the (round64 (of_nat unit_ns)) / of_nat sc))))\<rfloor>"

text \<open>One number with its unit: what it adds, and the rest of the text.\<close>

definition parse_item :: "bytes \<Rightarrow> (nat \<times> bytes) option" where
  "parse_item s =
     (if s = [] \<or> \<not> (hd s = CHR ''.'' \<or> is_digit (hd s)) then None
      else case leadingInt s of
        None \<Rightarrow> None
      | Some (v, s1) \<Rightarrow>
          (let pre = (length s1 \<noteq> length s);
               (f, sc, s2) = (if s1 \<noteq> [] \<and> hd s1 = CHR ''.'' then leadingFraction (tl s1) False 0 1 else (0, 1, s1));
               post = (s1 \<noteq> [] \<and> hd s1 = CHR ''.'' \<and> length s2 \<noteq> length (tl s1));
               u = takeWhile (\<lambda>c. c \<noteq> CHR ''.'' \<and> \<not> is_digit c) s2; s3 = drop (length u) s2
           in if \<not> pre \<and> \<not> post then None
              else if u = [] then None
              else case unitMap u of
                None \<Rightarrow> None
              | Some unit_ns \<Rightarrow>
                  if v > 2 ^ 63 div unit_ns then None
                  else let v = v * unit_ns; v = (if f > 0 then v + frac_value f unit_ns sc else v)
                       in if v > 2 ^ 63 then None else Some (v, s3)))"

text \<open>The loop; every item shortens the text, so its length is fuel enough.\<close>

fun parse_items :: "nat \<Rightarrow> bytes \<Rightarrow> nat \<Rightarrow> nat option" where
  "parse_items 0 s d = (if s = [] then Some d else None)"
| "parse_items (Suc n) s d =
     (if s = [] then Some d
      else case parse_item s of
        None \<Rightarrow> None
      | Some (v, r) \<Rightarrow> if d + v > 2 ^ 63 then None else parse_items n r (d + v))"

definition ParseDuration :: "bytes \<Rightarrow> duration option" where
  "ParseDuration s =
     (let neg = (s \<noteq> [] \<and> hd s = CHR ''-'');
          r = (if s \<noteq> [] \<and> (hd s = CHR ''-'' \<or> hd s = CHR ''+'') then tl s else s)
      in if r = ''0'' then Some 0
         else if r = [] then None
         else case parse_items (length r) r 0 of
           None \<Rightarrow> None
         | Some d \<Rightarrow> if neg then Some (- int d) else if d > 2 ^ 63 - 1 then None else Some (int d))"

subsection \<open>Parsing inverts printing\<close>

lemma leadingFraction_digits:
  assumes "list_all is_digit ds" "no_digit r" "(x + 1) * 10 ^ length ds \<le> 10 ^ 18"
  shows "leadingFraction (ds @ r) False x k = (foldl (\<lambda>a c. 10 * a + digit_val c) x ds, k * 10 ^ length ds, r)"
  using assms
proof (induction ds arbitrary: x k)
  case Nil
  then show ?case by (cases r) (auto simp: no_digit_def)
next
  case (Cons c ds)
  have c: "is_digit c" and d: "digit_val c \<le> 9" using Cons.prems(1) by (auto simp: is_digit_def digit_val_def)
  have "(x * 10 + digit_val c + 1) * 10 ^ length ds \<le> ((x + 1) * 10) * 10 ^ length ds"
    using d by (intro mult_le_mono1) simp
  also have "\<dots> = (x + 1) * 10 ^ length (c # ds)" by (simp add: algebra_simps)
  finally have le: "(x * 10 + digit_val c + 1) * 10 ^ length ds \<le> (x + 1) * 10 ^ length (c # ds)" .
  have y: "(x * 10 + digit_val c + 1) * 10 ^ length ds \<le> 10 ^ 18" using le Cons.prems(3) by (rule le_trans)
  have "(x * 10 + digit_val c + 1) * 1 \<le> (x * 10 + digit_val c + 1) * 10 ^ length ds" by (intro mult_le_mono2) simp
  from le_trans [OF this y] have b: "x * 10 + digit_val c + 1 \<le> 10 ^ 18" by simp
  then have "x \<le> (2 ^ 63 - 1) div 10" "\<not> x * 10 + digit_val c > 2 ^ 63" by simp_all
  with c Cons.IH [of "x * 10 + digit_val c" "k * 10"] Cons.prems(1,2) y show ?case
    by (simp add: mult.commute [of x] Let_def)
qed

lemma frac_value_exact:
  assumes "f * 10 ^ j < 2 ^ 53" "k + j \<le> 15"
  shows "frac_value f (10 ^ (k + j)) (10 ^ k) = f * 10 ^ j"
proof -
  have "(10::nat) ^ (k + j) \<le> 10 ^ 15" using assms(2) by (intro power_increasing) simp_all
  then have u: "(10::nat) ^ (k + j) < 2 ^ 53" by simp
  have "f * 1 \<le> f * 10 ^ j" by (intro mult_le_mono2) simp
  then have f: "f < 2 ^ 53" using assms(1) by linarith
  have "(10::nat) ^ j \<le> 10 ^ 15" using assms(2) by (intro power_increasing) simp_all
  then have j: "(10::nat) ^ j < 2 ^ 53" by simp
  have q: "rat_of_nat (10 ^ (k + j)) / of_nat (10 ^ k) = of_nat (10 ^ j)" by (simp add: power_add)
  show ?thesis
    unfolding frac_value_def round64_nat [OF u] round64_nat [OF f] option.sel q round64_nat [OF j] of_nat_mult [symmetric]
      round64_nat [OF assms(1)] floor_of_nat by (rule nat_int)
qed

lemma scan_digits_itoa: "no_digit r \<Longrightarrow> scan_digits (itoa n @ r) = (itoa n, r)"
  using scan_digits_app [of "itoa n" r] itoa_digits [of n] by simp

text \<open>Text of units: not empty, and no character of a number in it.\<close>

definition unit_text :: "bytes \<Rightarrow> bool" where
  "unit_text u \<longleftrightarrow> u \<noteq> [] \<and> list_all (\<lambda>c. c \<noteq> CHR ''.'' \<and> \<not> is_digit c) u"

lemma unit_takeWhile:
  assumes "unit_text u" "r = [] \<or> is_digit (hd r)"
  shows "takeWhile (\<lambda>c. c \<noteq> CHR ''.'' \<and> \<not> is_digit c) (u @ r) = u"
proof -
  have "takeWhile (\<lambda>c. c \<noteq> CHR ''.'' \<and> \<not> is_digit c) r = []" using assms(2) by (cases r) auto
  with assms(1) show ?thesis by (subst takeWhile_append2) (auto simp: unit_text_def list_all_iff)
qed

lemma frac_digits:
  assumes "0 < f" "f < 10 ^ p"
  obtains ds k where "frac_text p f = CHR ''.'' # ds" "ds \<noteq> []" "list_all is_digit ds"
    "p = length ds + k" "digits_value ds * 10 ^ k = f"
proof -
  let ?t = "trim_zeros (pad p f)"
  obtain k where k: "pad p f = ?t @ replicate k (CHR ''0'')" using trim_zeros_split by blast
  have len: "length ?t + k = p" using arg_cong [OF k, of length] length_pad [OF _ assms(2)] assms by (cases p) simp_all
  have dig: "list_all is_digit ?t" using pad_digits [of p f] by (subst (asm) k) simp
  have val: "digits_value ?t * 10 ^ k = f" using arg_cong [OF k, of digits_value] by (simp add: digits_value_zeros)
  with assms(1) have "?t \<noteq> []" by (auto simp: digits_value_def)
  with len dig val assms(1) show ?thesis by (intro that [of ?t k]) (simp_all add: frac_text_def)
qed

lemma parse_item_text:
  assumes u: "unit_text u" "unitMap u = Some U" "0 < U" and r: "r = [] \<or> is_digit (hd r)"
    and f: "f = 0 \<or> U = 10 ^ p \<and> f < 10 ^ p \<and> p \<le> 9" and b: "v * U + f \<le> 2 ^ 63"
  shows "parse_item (itoa v @ frac_text p f @ u @ r) = Some (v * U + f, r)"
proof -
  obtain c s where cs: "itoa v = c # s" by (cases "itoa v") auto
  then have c: "is_digit c" using itoa_digits [of v] by simp
  have nu: "no_digit (u @ r)" "u @ r \<noteq> []" "hd (u @ r) \<noteq> CHR ''.''"
    using u(1) by (cases u; auto simp: unit_text_def no_digit_def)+
  have v: "v \<le> 2 ^ 63 div U" using b u(3) by (simp add: less_eq_div_iff_mult_less_eq)
  have "v * 1 \<le> v * U" using u(3) by (intro mult_le_mono2) simp
  then have v63: "v \<le> 2 ^ 63" using b by linarith
  show ?thesis
  proof (cases "f = 0")
    case True
    have "leadingInt (itoa v @ u @ r) = Some (v, u @ r)"
      using scan_digits_itoa [OF nu(1), of v] v63 by (simp add: leadingInt_def)
    with True c nu u r v b unit_takeWhile [OF u(1) r] show ?thesis
      by (simp add: parse_item_def cs frac_text_def unit_text_def Let_def)
  next
    case False
    then obtain ds k where d: "frac_text p f = CHR ''.'' # ds" "ds \<noteq> []" "list_all is_digit ds" "p = length ds + k"
      "digits_value ds * 10 ^ k = f" using frac_digits [of f p] f by auto
    have U: "U = 10 ^ p" "f < 10 ^ p" "p \<le> 9" using f False by auto
    have "leadingInt (itoa v @ CHR ''.'' # ds @ u @ r) = Some (v, CHR ''.'' # ds @ u @ r)"
      using scan_digits_itoa [of "CHR ''.'' # ds @ u @ r" v] v63 by (simp add: leadingInt_def no_digit_def is_digit_def)
    moreover have "(10::nat) ^ length ds \<le> 10 ^ 18" using d(4) U(3) by (intro power_increasing) simp_all
    then have "leadingFraction (ds @ u @ r) False 0 1 = (digits_value ds, 10 ^ length ds, u @ r)"
      using leadingFraction_digits [OF d(3) nu(1), of 0 1] by (simp add: digits_value_def)
    moreover have "f < 10 ^ 9" using U(2,3) power_increasing [of p 9 "10::nat"] by linarith
    then have "frac_value (digits_value ds) U (10 ^ length ds) = f"
      using frac_value_exact [of "digits_value ds" k "length ds"] d(4,5) U(1,3) by simp
    moreover have "0 < digits_value ds" using d(5) False by (cases "digits_value ds") auto
    moreover note unit_takeWhile [OF u(1) r]
    ultimately show ?thesis using c nu u v b d(1,2) by (simp add: parse_item_def cs unit_text_def Let_def)
  qed
qed

lemma leadingFraction_shorter: "length (snd (snd (leadingFraction s ov x k))) \<le> length s"
  by (induction s arbitrary: ov x k) (auto simp: Let_def intro: le_SucI)

lemma parse_item_shorter:
  assumes "parse_item s = Some (v, r)"
  shows "length r < length s"
proof -
  obtain w s1 where l: "leadingInt s = Some (w, s1)" using assms by (auto simp: parse_item_def split: if_splits option.splits)
  obtain f k s2 where f: "(if s1 \<noteq> [] \<and> hd s1 = CHR ''.'' then leadingFraction (tl s1) False 0 1 else (0, 1, s1)) = (f, k, s2)"
    by (metis prod_cases3)
  define u where "u = takeWhile (\<lambda>c. c \<noteq> CHR ''.'' \<and> \<not> is_digit c) s2"
  have "u \<noteq> [] \<and> r = drop (length u) s2"
    using assms l f by (auto simp: parse_item_def u_def Let_def split: if_splits option.splits)
  moreover have "length u \<le> length s2" by (simp add: u_def length_takeWhile_le)
  ultimately have "length r < length s2" by (cases u) auto
  moreover have "length s2 \<le> length s1" using f leadingFraction_shorter [of "tl s1" False 0 1] by (auto split: if_splits)
  moreover have "length s1 \<le> length s" using l
    by (auto simp: leadingInt_def scan_digits_def length_dropWhile_le split: if_splits)
  ultimately show ?thesis by simp
qed

lemma parse_items_length: "parse_items n s d = Some x \<Longrightarrow> length s \<le> m \<Longrightarrow> parse_items m s d = Some x"
proof (induction n arbitrary: m s d)
  case 0
  then show ?case by (cases m) (auto split: if_splits)
next
  case (Suc n)
  show ?case
  proof (cases "s = []")
    case True
    with Suc.prems show ?thesis by (cases m) auto
  next
    case False
    then obtain v r where r: "parse_item s = Some (v, r)" "\<not> d + v > 2 ^ 63" "parse_items n r (d + v) = Some x"
      using Suc.prems by (auto split: option.splits if_splits)
    moreover obtain m' where "m = Suc m'" using False Suc.prems(2) by (cases m) auto
    moreover have "parse_items m' r (d + v) = Some x"
      using Suc.IH [OF r(3)] parse_item_shorter [OF r(1)] Suc.prems(2) \<open>m = Suc m'\<close> by simp
    ultimately show ?thesis using False by simp
  qed
qed

lemma parse_items_step:
  assumes "parse_item s = Some (v, r)" "d + v \<le> 2 ^ 63" "parse_items n r (d + v) = Some x"
  shows "parse_items (Suc n) s d = Some x"
proof -
  have "s \<noteq> []" using assms(1) by (auto simp: parse_item_def)
  with assms show ?thesis by simp
qed

declare parse_items.simps [simp del]

lemma units:
  "unit_text ''ns'' \<and> unitMap ''ns'' = Some 1" "unit_text (micro_sign @ ''s'') \<and> unitMap (micro_sign @ ''s'') = Some 1000"
  "unit_text ''ms'' \<and> unitMap ''ms'' = Some 1000000" "unit_text ''s'' \<and> unitMap ''s'' = Some 1000000000"
  "unit_text ''m'' \<and> unitMap ''m'' = Some 60000000000" "unit_text ''h'' \<and> unitMap ''h'' = Some 3600000000000"
  by code_simp+

lemma parse_one:
  assumes "unit_text u \<and> unitMap u = Some U" "0 < U" "f = 0 \<or> U = 10 ^ p \<and> f < 10 ^ p \<and> p \<le> 9" "d + (v * U + f) \<le> 2 ^ 63"
  shows "parse_items 1 (itoa v @ frac_text p f @ u) d = Some (d + (v * U + f))"
proof -
  have "parse_item (itoa v @ frac_text p f @ u) = Some (v * U + f, [])"
    using assms parse_item_text [of u U "[]" f p v] by simp
  with parse_items_step [of _ "v * U + f" "[]" d 0] assms(4) show ?thesis by (simp add: parse_items.simps(1))
qed

lemma parse_more:
  assumes "unit_text u \<and> unitMap u = Some U" "0 < U" "d + v * U \<le> 2 ^ 63" "r \<noteq> []" "is_digit (hd r)"
    "parse_items n r (d + v * U) = Some x"
  shows "parse_items (Suc n) (itoa v @ u @ r) d = Some x"
proof -
  have "parse_item (itoa v @ u @ r) = Some (v * U, r)"
    using assms parse_item_text [of u U r 0 0 v] by (simp add: frac_text_def)
  with parse_items_step [of _ "v * U" r d n x] assms show ?thesis by simp
qed

lemma itoa_hd: "itoa n @ s \<noteq> []" "is_digit (hd (itoa n @ s))"
  using itoa_digits [of n] by (cases "itoa n"; auto)+

lemma parse_big:
  assumes "u \<le> 2 ^ 63"
  shows "\<exists>n. parse_items n (big_text u) 0 = Some u"
proof -
  define s where "s = u div 1000000000"
  define m where "m = s div 60"
  define h where "h = m div 60"
  let ?f = "u mod 1000000000"
  have dec: "u = s * 1000000000 + ?f" "s = m * 60 + s mod 60" "m = h * 60 + m mod 60"
    by (simp_all add: s_def m_def h_def)
  have f: "?f < 10 ^ 9" by simp
  let ?S = "itoa (s mod 60) @ frac_text 9 ?f @ ''s''"
  have sec: "parse_items 1 ?S d = Some (d + ((s mod 60) * 1000000000 + ?f))" if "d + ((s mod 60) * 1000000000 + ?f) \<le> 2 ^ 63" for d
    using parse_one [OF units(4), of ?f 9 d "s mod 60"] that f by simp
  have min: "parse_items 2 (itoa (m mod 60) @ ''m'' @ ?S) d = Some (d + (m mod 60) * 60000000000 + ((s mod 60) * 1000000000 + ?f))"
    if "d + (m mod 60) * 60000000000 + ((s mod 60) * 1000000000 + ?f) \<le> 2 ^ 63" for d
    using parse_more [OF units(5), where r = ?S and d = d and v = "m mod 60" and n = 1] itoa_hd sec [of "d + (m mod 60) * 60000000000"] that
    by (simp add: numeral_2_eq_2)
  have tot: "h * 3600000000000 + (m mod 60) * 60000000000 + ((s mod 60) * 1000000000 + ?f) = u" using dec by linarith
  show ?thesis
  proof (cases "h > 0")
    case True
    then have "m > 0" by (simp add: h_def)
    have "parse_items 3 (itoa h @ ''h'' @ itoa (m mod 60) @ ''m'' @ ?S) 0 = Some u"
      using parse_more [OF units(6), where r = "itoa (m mod 60) @ ''m'' @ ?S" and d = 0 and v = h and n = 2] itoa_hd min [of "h * 3600000000000"] tot assms
      by (simp add: numeral_3_eq_3 numeral_2_eq_2)
    then show ?thesis using True \<open>m > 0\<close> unfolding big_text_def Let_def s_def [symmetric] m_def [symmetric] h_def [symmetric] by auto
  next
    case False
    have "parse_items 2 (itoa (m mod 60) @ ''m'' @ ?S) 0 = Some u" if "m > 0"
      using min [of 0] tot assms False by simp
    moreover have "parse_items 1 ?S 0 = Some u" if "m = 0"
      using sec [of 0] tot assms False that by simp
    ultimately show ?thesis using False unfolding big_text_def Let_def s_def [symmetric] m_def [symmetric] h_def [symmetric] by auto
  qed
qed

lemma parse_small:
  assumes "u < 1000000000"
  shows "parse_items 1 (small_text u) 0 = Some u"
proof -
  have z: "''0s'' = itoa 0 @ frac_text 0 0 @ ''s''" by code_simp
  consider "u = 0" | "0 < u" "u < 1000" | "1000 \<le> u" "u < 1000000" | "1000000 \<le> u" by linarith
  then show ?thesis
  proof cases
    case 1
    then show ?thesis using parse_one [OF units(4), of 0 0 0 0] by (simp add: small_text_def z)
  next
    case 2
    then show ?thesis using parse_one [OF units(1), of 0 0 0 u] by (simp add: small_text_def frac_text_def)
  next
    case 3
    then show ?thesis using parse_one [OF units(2), of "u mod 1000" 3 0 "u div 1000"] by (simp add: small_text_def)
  next
    case 4
    then show ?thesis using parse_one [OF units(3), of "u mod 1000000" 6 0 "u div 1000000"] assms by (simp add: small_text_def)
  qed
qed

lemma big_text_hd: "\<exists>n w. big_text u = itoa n @ w \<and> w \<noteq> [] \<and> \<not> is_digit (last w)"
proof -
  have s: "\<not> is_digit (CHR ''s'')" by (simp add: is_digit_def)
  define t where "t = u div 1000000000"
  let ?S = "frac_text 9 (u mod 1000000000) @ ''s''"
  consider "0 < t div 60 div 60" | "t div 60 div 60 = 0" "0 < t div 60" | "t div 60 = 0" by auto
  then show ?thesis
  proof cases
    case 1
    moreover from 1 have "0 < t div 60" by (metis div_0 gr0I)
    ultimately have "big_text u = itoa (t div 60 div 60) @ ''h'' @ itoa (t div 60 mod 60) @ ''m'' @ itoa (t mod 60) @ ?S"
      unfolding big_text_def Let_def t_def [symmetric] by simp
    then show ?thesis using s by fastforce
  next
    case 2
    then have "big_text u = itoa (t div 60 mod 60) @ ''m'' @ itoa (t mod 60) @ ?S"
      unfolding big_text_def Let_def t_def [symmetric] by simp
    then show ?thesis using s by fastforce
  next
    case 3
    then have "big_text u = itoa (t mod 60) @ ?S" unfolding big_text_def Let_def t_def [symmetric] by simp
    then show ?thesis using s by fastforce
  qed
qed

lemma small_text_hd: "\<exists>n w. small_text u = itoa n @ w \<and> w \<noteq> [] \<and> \<not> is_digit (last w)"
proof -
  have s: "\<not> is_digit (CHR ''s'')" by (simp add: is_digit_def)
  have z: "''0s'' = itoa 0 @ ''s''" by code_simp
  consider "small_text u = itoa 0 @ ''s''" | "small_text u = itoa u @ ''ns''"
    | "small_text u = itoa (u div 1000) @ frac_text 3 (u mod 1000) @ micro_sign @ ''s''"
    | "small_text u = itoa (u div 1000000) @ frac_text 6 (u mod 1000000) @ ''ms''"
    unfolding small_text_def z by presburger
  then show ?thesis using s by cases fastforce+
qed

text \<open>
  \<open>time.ParseDuration\<close> reads back what \<open>Duration.String\<close> prints, for every 64-bit duration, the
  smallest included.
\<close>

lemma Duration_roundtrip:
  assumes "in_int64 d"
  shows "ParseDuration (Duration_String d) = Some d"
proof -
  define u where "u = nat \<bar>d\<bar>"
  define t where "t = (if u < 1000000000 then small_text u else big_text u)"
  have u: "u \<le> 2 ^ 63" using assms by (simp add: u_def in_int64_def nat_le_iff abs_le_iff)
  have "\<exists>n. parse_items n t 0 = Some u" using parse_small [of u] parse_big [OF u] by (auto simp: t_def)
  then have p: "parse_items (length t) t 0 = Some u" using parse_items_length by blast
  obtain n w where t: "t = itoa n @ w" "w \<noteq> []" "\<not> is_digit (last w)"
    using small_text_hd [of u] big_text_hd [of u] unfolding t_def by metis
  obtain c r where c: "t = c # r" "is_digit c" using t(1) itoa_digits [of n] by (cases "itoa n") auto
  have "last t = last w" using t(1,2) by simp
  moreover have "is_digit (last ''0'')" by (simp add: is_digit_def)
  ultimately have "t \<noteq> ''0''" using t(3) by metis
  moreover have "c \<noteq> CHR ''-''" "c \<noteq> CHR ''+''" using c(2) by (auto simp: is_digit_def)
  moreover have "Duration_String d = (if d < 0 then ''-'' else []) @ t" by (simp add: Duration_String_def u_def t_def Let_def)
  moreover have "d < 0 \<or> u \<le> 2 ^ 63 - 1" using assms by (auto simp: u_def in_int64_def)
  ultimately show ?thesis using p c by (auto simp: ParseDuration_def Let_def u_def)
qed

end
