(* ===== verification/Sinks.thy ===== *)
theory Sinks
  imports Duration Message Wal_Entry
begin

text \<open>
  \<open>internal/sink\<close> apart from the worker pool: the registry of sink factories, the Redis and Kafka sinks
  with the decoding of their untyped configuration, the envelope they send, and the partition
  key. The clients of Redis and Kafka are third-party packages: a \<open>Send\<close> is modelled up to the
  command it hands to the client.
\<close>

subsection \<open>Reading untyped configuration\<close>

text \<open>Conversions between \<open>int\<close> and \<open>float64\<close>; out of range the latter gives the smallest integer (amd64).\<close>

definition float_of_int :: "int \<Rightarrow> float64" where
  "float_of_int i = (i < 0, the (round64 (of_int \<bar>i\<bar>)))"

definition int_of_float :: "float64 \<Rightarrow> int" where
  "int_of_float v =
     (case v of (neg, x) \<Rightarrow> let i = (if neg then - \<lfloor>x\<rfloor> else \<lfloor>x\<rfloor>) in if in_int64 i then i else - (2 ^ 63))"

definition intConfig :: "dynmap \<Rightarrow> bytes \<Rightarrow> int \<Rightarrow> int" where
  "intConfig cfg key def =
     (case map_of cfg key of Some (DFloat v) \<Rightarrow> int_of_float v | Some (DInt i) \<Rightarrow> i | _ \<Rightarrow> def)"

text \<open>The YAML decoder makes no \<open>int64\<close>, so this differs from \<open>intConfig\<close> in its type only.\<close>

definition int64Config :: "dynmap \<Rightarrow> bytes \<Rightarrow> int \<Rightarrow> int" where
  "int64Config cfg key def =
     (case map_of cfg key of Some (DFloat v) \<Rightarrow> int_of_float v | Some (DInt i) \<Rightarrow> i | _ \<Rightarrow> def)"

definition durationConfig :: "dynmap \<Rightarrow> bytes \<Rightarrow> duration \<Rightarrow> duration" where
  "durationConfig cfg key def =
     (case map_of cfg key of
        Some (DStr s) \<Rightarrow> (case ParseDuration s of None \<Rightarrow> def | Some d \<Rightarrow> d)
      | _ \<Rightarrow> def)"

definition strConfig :: "dynmap \<Rightarrow> bytes \<Rightarrow> bytes \<Rightarrow> bytes" where
  "strConfig cfg key def = (case map_of cfg key of Some (DStr s) \<Rightarrow> s | _ \<Rightarrow> def)"

subsection \<open>The envelope\<close>

definition buildEnvelope :: "nat option \<Rightarrow> Envelope list \<Rightarrow> Message \<Rightarrow> Envelope \<times> Envelope list" where
  "buildEnvelope pick pool m =
     (case AcquireEnvelope pick pool of (e, pool) \<Rightarrow>
        (e\<lparr>env_GatewayMeta := \<lparr>meta_RequestID = msg_RequestID m, meta_TraceID = msg_TraceID m,
             meta_ReceivedAt = msg_Timestamp m, meta_Env = msg_Env m\<rparr>,
           env_Project := msg_Project m, env_Router := msg_Router m, env_Data := msg_Data m\<rparr>, pool))"

definition meta_json :: "GatewayMeta \<Rightarrow> json option" where
  "meta_json g =
     do { t \<leftarrow> marshal_time (meta_ReceivedAt g);
          Some (JObj ([(''request_id'', jstr (meta_RequestID g)), (''trace_id'', jstr (meta_TraceID g)), (''received_at'', JStr t)]
                      @ (if meta_Env g = [] then [] else [(''env'', jstr (meta_Env g))]))) }"

definition envelope_json :: "Envelope \<Rightarrow> json option" where
  "envelope_json e =
     do { g \<leftarrow> meta_json (env_GatewayMeta e);
          d \<leftarrow> marshal_raw (env_Data e);
          Some (JObj [(''_gateway_meta'', g), (''project'', jstr (env_Project e)), (''router'', jstr (env_Router e)), (''data'', d)]) }"

text \<open>The text a sink sends for a message, with the envelope pool before and after.\<close>

definition envelope_text :: "nat option \<Rightarrow> Envelope list \<Rightarrow> Message \<Rightarrow> bytes option \<times> Envelope list" where
  "envelope_text pick pool m =
     (case buildEnvelope pick pool m of (e, pool) \<Rightarrow> (map_option pr (envelope_json e), ReleaseEnvelope e pool))"

subsection \<open>Redis\<close>

record RedisConfig =
  rc_Addr :: bytes
  rc_Password :: bytes
  rc_DB :: int
  rc_PoolSize :: int
  rc_MinIdleConns :: int
  rc_DialTimeout :: duration
  rc_ReadTimeout :: duration
  rc_WriteTimeout :: duration
  rc_Key :: bytes
  rc_Type :: bytes
  rc_MaxLen :: int

text \<open>The client keeps the options it was made with.\<close>

record RedisSink =
  rk_name :: bytes
  rk_client :: RedisConfig
  rk_key :: bytes
  rk_typ :: bytes
  rk_maxLen :: int

definition NewRedisSink :: "bytes \<Rightarrow> RedisConfig \<Rightarrow> RedisSink" where
  "NewRedisSink name cfg =
     (let cfg = cfg\<lparr>rc_Type := (if rc_Type cfg = [] then ''list'' else rc_Type cfg)\<rparr>
      in \<lparr>rk_name = name, rk_client = cfg, rk_key = rc_Key cfg, rk_typ = rc_Type cfg, rk_maxLen = rc_MaxLen cfg\<rparr>)"

datatype redis_cmd = XAdd bytes int bool bytes | LPush bytes bytes

definition RedisSink_Send :: "RedisSink \<Rightarrow> nat option \<Rightarrow> Envelope list \<Rightarrow> Message \<Rightarrow> redis_cmd option \<times> Envelope list" where
  "RedisSink_Send s pick pool m =
     (case envelope_text pick pool m of
        (None, pool) \<Rightarrow> (None, pool)
      | (Some text, pool) \<Rightarrow>
          (Some (if rk_typ s = ''stream'' then XAdd (rk_key s) (rk_maxLen s) (rk_maxLen s > 0) text
                 else LPush (rk_key s) text), pool))"

definition RedisSinkFactory :: "bytes \<Rightarrow> dynmap \<Rightarrow> RedisSink" where
  "RedisSinkFactory name cfg =
     NewRedisSink name
       \<lparr>rc_Addr = strConfig cfg ''addr'' [], rc_Password = strConfig cfg ''password'' [],
        rc_DB = intConfig cfg ''db'' 0, rc_PoolSize = intConfig cfg ''pool_size'' 0,
        rc_MinIdleConns = intConfig cfg ''min_idle_conns'' 0,
        rc_DialTimeout = durationConfig cfg ''dial_timeout'' 0,
        rc_ReadTimeout = durationConfig cfg ''read_timeout'' 0,
        rc_WriteTimeout = durationConfig cfg ''write_timeout'' 0,
        rc_Key = strConfig cfg ''key'' [], rc_Type = strConfig cfg ''type'' ''list'',
        rc_MaxLen = int64Config cfg ''max_len'' 0\<rparr>"

subsection \<open>Kafka\<close>

record KafkaConfig =
  kc_Brokers :: "bytes list"
  kc_Topic :: bytes
  kc_PartitionKey :: bytes
  kc_Compression :: bytes
  kc_BatchSize :: int
  kc_BatchTimeout :: duration

datatype compression = NoCompression | Gzip | Snappy | Lz4 | Zstd

record KafkaSink =
  kk_name :: bytes
  kk_brokers :: "bytes list"
  kk_topic :: bytes
  kk_batchSize :: int
  kk_batchTimeout :: duration
  kk_compression :: compression
  kk_partitionKey :: bytes

datatype kafka_error = BrokersRequired | TopicRequired

definition NewKafkaSink :: "bytes \<Rightarrow> KafkaConfig \<Rightarrow> kafka_error + KafkaSink" where
  "NewKafkaSink name cfg =
     (if kc_Brokers cfg = [] then Inl BrokersRequired
      else if kc_Topic cfg = [] then Inl TopicRequired
      else Inr \<lparr>kk_name = name, kk_brokers = kc_Brokers cfg, kk_topic = kc_Topic cfg,
        kk_batchSize = (if kc_BatchSize cfg \<le> 0 then 100 else kc_BatchSize cfg),
        kk_batchTimeout = (if kc_BatchTimeout cfg \<le> 0 then 100 * Millisecond else kc_BatchTimeout cfg),
        kk_compression =
          (if kc_Compression cfg = ''gzip'' then Gzip else if kc_Compression cfg = ''snappy'' then Snappy
           else if kc_Compression cfg = ''lz4'' then Lz4 else if kc_Compression cfg = ''zstd'' then Zstd
           else NoCompression),
        kk_partitionKey = kc_PartitionKey cfg\<rparr>)"

definition list_strings :: "dynval list \<Rightarrow> bytes list" where
  "list_strings vs = List.map_filter (\<lambda>v. case v of DStr s \<Rightarrow> Some s | _ \<Rightarrow> None) vs"

definition KafkaSinkFactory :: "bytes \<Rightarrow> dynmap \<Rightarrow> kafka_error + KafkaSink" where
  "KafkaSinkFactory name cfg =
     NewKafkaSink name
       \<lparr>kc_Brokers = (case map_of cfg ''brokers'' of Some (DList vs) \<Rightarrow> list_strings vs | _ \<Rightarrow> []),
        kc_Topic = strConfig cfg ''topic'' [], kc_PartitionKey = strConfig cfg ''partition_key'' [],
        kc_Compression = strConfig cfg ''compression'' [], kc_BatchSize = intConfig cfg ''batch_size'' 100,
        kc_BatchTimeout = durationConfig cfg ''batch_timeout'' (100 * Millisecond)\<rparr>"

text \<open>
  \<open>fmt.Sprint\<close> of a decoded value. Doubles print as with the verb \<open>%g\<close>: with an exponent of at least two
  digits when it is below -4 or at least 6.
\<close>

definition sprint_float :: "float64 \<Rightarrow> bytes" where
  "sprint_float v =
     (case v of (neg, x) \<Rightarrow>
        (if neg then ''-'' else []) @
        (if x = 0 then ''0''
         else case shortest x of (n, c, p) \<Rightarrow>
           if p - 1 < - 4 \<or> p - 1 \<ge> 6
           then fixed_text c (int n - 1) @ (if p - 1 < 0 then ''e-'' else ''e+'') @ zero_pad 2 (itoa (nat \<bar>p - 1\<bar>))
           else fixed_text c (int n - p)))"


fun sprint :: "dynval \<Rightarrow> bytes" where
  "sprint DNull = ''<nil>''"
| "sprint (DBool b) = (if b then ''true'' else ''false'')"
| "sprint (DFloat v) = sprint_float v"
| "sprint (DStr s) = s"
| "sprint (DList vs) =
     CHR ''['' # concat (map (\<lambda>(i, s). if i = 0 then s else CHR '' '' # s) (enumerate 0 (map sprint vs))) @ '']''"
| "sprint (DMap m) =
     ''map['' @ concat (map (\<lambda>(i, s). if i = 0 then s else CHR '' '' # s) (enumerate 0
        (map (\<lambda>(k, s). k @ CHR '':'' # s) (sort_key fst (map (\<lambda>(k, v). (k, sprint v)) m))))) @ '']''"
| "sprint _ = []"                      \<comment> \<open>a decoded JSON value has no other constructor\<close>

definition key_fields :: "bytes list" where
  "key_fields = [''UID'', ''uid'', ''user_id'', ''UserID'']"

fun first_field :: "(bytes \<Rightarrow> dynval option) \<Rightarrow> bytes list \<Rightarrow> dynval option" where
  "first_field get [] = None"
| "first_field get (f # fs) = (case get f of Some v \<Rightarrow> Some v | None \<Rightarrow> first_field get fs)"

definition partitionKeyBytes :: "KafkaSink \<Rightarrow> Message \<Rightarrow> bytes" where
  "partitionKeyBytes s m =
     (case msg_Data m of
        None \<Rightarrow> msg_RequestID m
      | Some [] \<Rightarrow> msg_RequestID m
      | Some text \<Rightarrow>
          (case unmarshal_map text of
             None \<Rightarrow> msg_RequestID m
           | Some obj \<Rightarrow>
               (let get = (\<lambda>k. case obj of None \<Rightarrow> None | Some d \<Rightarrow> map_of d k)
                in case (if kk_partitionKey s \<noteq> [] then get (kk_partitionKey s) else None) of
                     Some v \<Rightarrow> sprint v
                   | None \<Rightarrow> (case first_field get key_fields of Some v \<Rightarrow> sprint v | None \<Rightarrow> msg_RequestID m))))"

text \<open>The record handed to the Kafka writer: key and value.\<close>

definition KafkaSink_Send :: "KafkaSink \<Rightarrow> nat option \<Rightarrow> Envelope list \<Rightarrow> Message \<Rightarrow> (bytes \<times> bytes) option \<times> Envelope list" where
  "KafkaSink_Send s pick pool m =
     (case envelope_text pick pool m of
        (None, pool) \<Rightarrow> (None, pool)
      | (Some text, pool) \<Rightarrow> (Some (partitionKeyBytes s m, text), pool))"

subsection \<open>The registry\<close>

datatype sink = Redis RedisSink | Kafka KafkaSink | Custom bytes

definition sink_Name :: "sink \<Rightarrow> bytes" where
  "sink_Name s = (case s of Redis r \<Rightarrow> rk_name r | Kafka k \<Rightarrow> kk_name k | Custom n \<Rightarrow> n)"

type_synonym sink_Factory = "bytes \<Rightarrow> dynmap \<Rightarrow> sink option"

type_synonym sink_Registry = "(bytes \<times> sink_Factory) list"

definition sink_NewRegistry :: sink_Registry where
  "sink_NewRegistry = []"

definition sink_Register :: "bytes \<Rightarrow> sink_Factory \<Rightarrow> sink_Registry \<Rightarrow> sink_Registry" where
  "sink_Register typ f r = AList.update typ f r"

definition sink_Create :: "bytes \<Rightarrow> bytes \<Rightarrow> dynmap \<Rightarrow> sink_Registry \<Rightarrow> sink option" where
  "sink_Create typ name cfg r = (case map_of r typ of None \<Rightarrow> None | Some f \<Rightarrow> f name cfg)"

text \<open>The two factories the gateway registers.\<close>

definition redis_factory :: sink_Factory where
  "redis_factory name cfg = Some (Redis (RedisSinkFactory name cfg))"

definition kafka_factory :: sink_Factory where
  "kafka_factory name cfg = (case KafkaSinkFactory name cfg of Inl _ \<Rightarrow> None | Inr k \<Rightarrow> Some (Kafka k))"

subsection \<open>Laws\<close>

lemma int_float_roundtrip: "\<bar>i\<bar> < 2 ^ 53 \<Longrightarrow> int_of_float (float_of_int i) = i"
proof -
  assume i: "\<bar>i\<bar> < 2 ^ 53"
  then have "nat \<bar>i\<bar> < 2 ^ 53" by (simp add: nat_less_iff)
  then have "round64 (of_int \<bar>i\<bar>) = Some (of_int \<bar>i\<bar>)" using round64_nat [of "nat \<bar>i\<bar>"] by (simp add: of_nat_nat)
  with i show ?thesis by (auto simp: int_of_float_def float_of_int_def in_int64_def Let_def abs_less_iff)
qed

lemma buildEnvelope_pool:
  assumes "envelopes_ok pool" "buildEnvelope pick pool m = (e, pool')"
  shows "envelopes_ok pool'" and "e = \<lparr>env_GatewayMeta = \<lparr>meta_RequestID = msg_RequestID m, meta_TraceID = msg_TraceID m,
      meta_ReceivedAt = msg_Timestamp m, meta_Env = msg_Env m\<rparr>, env_Project = msg_Project m, env_Router = msg_Router m, env_Data = msg_Data m\<rparr>"
  using assms AcquireEnvelope_ok [OF assms(1)] by (auto simp: buildEnvelope_def empty_envelope_def split: prod.splits)

lemma first_field_find:
  "first_field get fs = (case List.find (\<lambda>f. get f \<noteq> None) fs of Some f \<Rightarrow> get f | None \<Rightarrow> None)"
  by (induction fs) (auto split: option.split)

lemma wf_str_envelope_key [simp]: "wf_str ''_gateway_meta''" "wf_str ''received_at''"
  by (rule wf_str_plain_list; auto simp: DQ_def BS_def)+

subsection \<open>Properties\<close>

definition sent_json :: "Message \<Rightarrow> bytes \<Rightarrow> json \<Rightarrow> json" where
  "sent_json m t d =
     JObj [(''_gateway_meta'', JObj ([(''request_id'', jstr (msg_RequestID m)), (''trace_id'', jstr (msg_TraceID m)), (''received_at'', JStr t)]
             @ (if msg_Env m = [] then [] else [(''env'', jstr (msg_Env m))]))),
           (''project'', jstr (msg_Project m)), (''router'', jstr (msg_Router m)), (''data'', d)]"

text \<open>
  C30: what a sink sends. The text is one JSON object that carries the request and trace ids, the receive
  time, the environment when there is one, project, router and payload of the message, and parses
  back to exactly that; there is no text exactly when the payload is not JSON or the time has no
  JSON form, and then nothing is sent. Redis and Kafka get the same text. The envelope goes back to
  the pool cleared, so the next message cannot see any of it.
\<close>

theorem envelope_faithful:
  assumes "envelopes_ok pool" and "payload_depth_ok (msg_Data m)" and "envelope_text pick pool m = (r, pool')"
  shows "envelopes_ok pool'
    \<and> (r = None \<longleftrightarrow> marshal_raw (msg_Data m) = None \<or> marshal_time (msg_Timestamp m) = None)
    \<and> (\<forall>body. r = Some body \<longrightarrow> (\<exists>t d. marshal_time (msg_Timestamp m) = Some t \<and> marshal_raw (msg_Data m) = Some d
         \<and> parse_json body = Some (sent_json m t d)))
    \<and> map_option (\<lambda>c. case c of XAdd _ _ _ body \<Rightarrow> body | LPush _ body \<Rightarrow> body) (fst (RedisSink_Send rs pick pool m)) = r
    \<and> map_option snd (fst (KafkaSink_Send ks pick pool m)) = r"
proof -
  obtain e p1 where B: "buildEnvelope pick pool m = (e, p1)" by (cases "buildEnvelope pick pool m")
  note b = buildEnvelope_pool [OF assms(1) B]
  have r: "r = map_option pr (envelope_json e)" "pool' = ReleaseEnvelope e p1" using assms(3) B by (auto simp: envelope_text_def)
  have none: "r = None \<longleftrightarrow> marshal_raw (msg_Data m) = None \<or> marshal_time (msg_Timestamp m) = None"
    by (auto simp: r b(2) envelope_json_def meta_json_def bind_eq_None_conv)
  have sent: "\<exists>t d. marshal_time (msg_Timestamp m) = Some t \<and> marshal_raw (msg_Data m) = Some d
      \<and> parse_json body = Some (sent_json m t d)" if "r = Some body" for body
  proof -
    have "r \<noteq> None" using that by simp
    then have "marshal_raw (msg_Data m) \<noteq> None \<and> marshal_time (msg_Timestamp m) \<noteq> None" unfolding none by simp
    then obtain t d where t: "marshal_time (msg_Timestamp m) = Some t" "marshal_raw (msg_Data m) = Some d" by blast
    have d: "wf_json (Suc 0) d" using assms(2) t(2) by (simp add: payload_depth_ok_def)
    have "wf_str t" using marshal_time_Some [OF t(1)] by simp
    then have w: "wf_json 0 (sent_json m t d)" using d by (simp add: sent_json_def max_depth_def)
    have "envelope_json e = Some (sent_json m t d)" using t by (simp add: b(2) envelope_json_def meta_json_def sent_json_def)
    then have "body = pr (sent_json m t d)" using that r(1) by simp
    with parse_json_pr [OF w] t show ?thesis by blast
  qed
  have "envelopes_ok pool'" unfolding r(2) by (rule ReleaseEnvelope_ok [OF b(1)])
  moreover have "map_option (\<lambda>c. case c of XAdd _ _ _ body \<Rightarrow> body | LPush _ body \<Rightarrow> body) (fst (RedisSink_Send rs pick pool m)) = r"
    "map_option snd (fst (KafkaSink_Send ks pick pool m)) = r"
    using assms(3) by (auto simp: RedisSink_Send_def KafkaSink_Send_def split: option.split)
  ultimately show ?thesis using none sent by blast
qed

theorem envelope_faithful_witness:
  "\<exists>body pool. envelope_text None [] (empty_message\<lparr>msg_Project := ''p'', msg_Data := Some ''[1]''\<rparr>) = (Some body, pool)
     \<and> envelopes_ok pool \<and> parse_json body \<noteq> None"
proof -
  let ?m = "empty_message\<lparr>msg_Project := ''p'', msg_Data := Some ''[1]''\<rparr>"
  have "envelopes_ok []" by (simp add: envelopes_ok_def)
  moreover have "marshal_raw (msg_Data ?m) = Some (JArr [JNum ''1''])" by code_simp
  moreover have "wf_num ''1''" by code_simp
  ultimately have ok: "envelopes_ok []" "payload_depth_ok (msg_Data ?m)" by (simp_all add: payload_depth_ok_def max_depth_def)
  have "fst (envelope_text None [] ?m) \<noteq> None" by code_simp
  then obtain body pool where t: "envelope_text None [] ?m = (Some body, pool)" by (cases "envelope_text None [] ?m") auto
  from envelope_faithful [OF ok t] t show ?thesis by auto
qed

text \<open>
  The partition key of a message. When the payload is an object, it is the text of the configured
  field if the object has it, otherwise of the first of UID, uid, user_id and UserID it has;
  in all other cases it is the request id. So two messages with the same value there go to the same
  partition whatever else they hold.
\<close>

theorem partition_key_selects:
  assumes "msg_Data m = Some body" "unmarshal_map body = Some (Some d)"
  shows "(kk_partitionKey s \<noteq> [] \<and> map_of d (kk_partitionKey s) = Some v \<longrightarrow> partitionKeyBytes s m = sprint v)
    \<and> ((kk_partitionKey s = [] \<or> map_of d (kk_partitionKey s) = None) \<longrightarrow>
        partitionKeyBytes s m =
          (case List.find (\<lambda>f. map_of d f \<noteq> None) [''UID'', ''uid'', ''user_id'', ''UserID''] of
             Some f \<Rightarrow> sprint (the (map_of d f)) | None \<Rightarrow> msg_RequestID m))"
proof -
  have "body \<noteq> []"
  proof
    assume "body = []"
    moreover have "unmarshal_map [] = None" by code_simp
    ultimately show False using assms(2) by simp
  qed
  then obtain c r where cr: "body = c # r" by (cases body) auto
  have "partitionKeyBytes s m =
      (case (if kk_partitionKey s \<noteq> [] then map_of d (kk_partitionKey s) else None) of
         Some v \<Rightarrow> sprint v
       | None \<Rightarrow> (case first_field (map_of d) key_fields of Some v \<Rightarrow> sprint v | None \<Rightarrow> msg_RequestID m))"
    using assms by (simp add: partitionKeyBytes_def cr Let_def)
  then show ?thesis unfolding key_fields_def first_field_find
    by (cases "List.find (\<lambda>f. map_of d f \<noteq> None) [''UID'', ''uid'', ''user_id'', ''UserID'']")
      (auto dest!: find_Some_iff [THEN iffD1] split: option.split simp del: find.simps)
qed

theorem partition_key_selects_witness:
  "partitionKeyBytes \<lparr>kk_name = [], kk_brokers = [], kk_topic = [], kk_batchSize = 1, kk_batchTimeout = 1, kk_compression = Gzip, kk_partitionKey = ''k''\<rparr>
     (empty_message\<lparr>msg_Data := Some (CHR ''{'' # DQ # ''uid'' @ DQ # '':true}'')\<rparr>) = ''true''"
proof -
  let ?m = "empty_message\<lparr>msg_Data := Some (CHR ''{'' # DQ # ''uid'' @ DQ # '':true}'')\<rparr>"
  have "unmarshal_map (CHR ''{'' # DQ # ''uid'' @ DQ # '':true}'') = Some (Some [(''uid'', DBool True)])" by code_simp
  from partition_key_selects [of ?m, OF _ this] show ?thesis by simp
qed

end
