(* ===== verification/Channel.thy ===== *)
theory Channel
  imports Prelude
begin

text \<open>
  Go channels with a buffer, as the worker pools use them: a send that does not wait
  (\<open>select\<close> with a default branch), a receive, \<open>close\<close>, \<open>len\<close> and \<open>cap\<close>. What a client may rely on is
  the locale \<open>bounded_fifo\<close>; the channel model is an interpretation of it.
\<close>

record 'a chan =
  ch_buf :: "'a list"
  ch_cap :: nat
  ch_closed :: bool

datatype send_outcome = Sent | Full | SendPanic

definition make_chan :: "nat \<Rightarrow> 'a chan" where
  "make_chan n = \<lparr>ch_buf = [], ch_cap = n, ch_closed = False\<rparr>"

text \<open>A send on a closed channel panics, also when the buffer is full.\<close>

definition try_send :: "'a \<Rightarrow> 'a chan \<Rightarrow> send_outcome \<times> 'a chan" where
  "try_send x c =
     (if ch_closed c then (SendPanic, c)
      else if length (ch_buf c) < ch_cap c then (Sent, c\<lparr>ch_buf := ch_buf c @ [x]\<rparr>)
      else (Full, c))"

text \<open>\<open>None\<close> when nothing is buffered: the receiver waits, or sees the channel closed.\<close>

definition try_recv :: "'a chan \<Rightarrow> ('a \<times> 'a chan) option" where
  "try_recv c = (case ch_buf c of [] \<Rightarrow> None | x # xs \<Rightarrow> Some (x, c\<lparr>ch_buf := xs\<rparr>))"

definition close_chan :: "'a chan \<Rightarrow> 'a chan" where
  "close_chan c = c\<lparr>ch_closed := True\<rparr>"

subsection \<open>The contract\<close>

locale bounded_fifo =
  fixes contents :: "'c \<Rightarrow> 'a list" and capacity :: "'c \<Rightarrow> nat"
    and send :: "'a \<Rightarrow> 'c \<Rightarrow> send_outcome \<times> 'c" and recv :: "'c \<Rightarrow> ('a \<times> 'c) option"
  assumes send_sent: "send x c = (Sent, c') \<Longrightarrow> contents c' = contents c @ [x] \<and> length (contents c) < capacity c"
    and send_other: "send x c = (r, c') \<Longrightarrow> r \<noteq> Sent \<Longrightarrow> c' = c"
    and send_cap: "send x c = (r, c') \<Longrightarrow> capacity c' = capacity c"
    and recv_none: "recv c = None \<longleftrightarrow> contents c = []"
    and recv_some: "recv c = Some (x, c') \<Longrightarrow> contents c = x # contents c' \<and> capacity c' = capacity c"
begin

text \<open>Offering a list of elements, then receiving as long as there is something.\<close>

fun offer :: "'a list \<Rightarrow> 'c \<Rightarrow> 'a list \<times> 'c" where
  "offer [] c = ([], c)"
| "offer (x # xs) c =
     (case send x c of
        (Sent, c) \<Rightarrow> (case offer xs c of (ys, c) \<Rightarrow> (x # ys, c))
      | (_, c) \<Rightarrow> offer xs c)"

fun drain :: "nat \<Rightarrow> 'c \<Rightarrow> 'a list \<times> 'c" where
  "drain 0 c = ([], c)"
| "drain (Suc n) c =
     (case recv c of
        None \<Rightarrow> ([], c)
      | Some (x, c) \<Rightarrow> (case drain n c of (ys, c) \<Rightarrow> (x # ys, c)))"

lemma bounded_send: "length (contents c) \<le> capacity c \<Longrightarrow> send x c = (r, c') \<Longrightarrow> length (contents c') \<le> capacity c'"
  using send_sent [of x c c'] send_other [of x c r c'] send_cap [of x c r c'] by (cases r) auto

lemma offer_contents: "offer xs c = (ys, c') \<Longrightarrow> contents c' = contents c @ ys \<and> capacity c' = capacity c"
proof (induction xs arbitrary: c ys c')
  case (Cons x xs)
  obtain r c1 where S: "send x c = (r, c1)" by (cases "send x c")
  show ?case
  proof (cases "r = Sent")
    case True
    obtain ys1 where "offer xs c1 = (ys1, c')" and "ys = x # ys1"
      using Cons.prems S True by (auto split: prod.splits)
    with Cons.IH [OF this(1)] send_sent [of x c c1] send_cap [OF S] S True show ?thesis by simp
  next
    case False
    then have "offer xs c1 = (ys, c')" using Cons.prems S by (cases r) auto
    with Cons.IH [OF this] send_other [OF S False] show ?thesis by simp
  qed
qed simp

lemma drain_all: "length (contents c) \<le> n \<Longrightarrow> \<exists>c'. drain n c = (contents c, c') \<and> contents c' = []"
proof (induction n arbitrary: c)
  case 0
  then show ?case by simp
next
  case (Suc n)
  show ?case
  proof (cases "recv c")
    case None
    moreover from this have "contents c = []" by (simp only: recv_none)
    ultimately show ?thesis by simp
  next
    case (Some p)
    obtain x c1 where p: "p = (x, c1)" by (cases p)
    with Some have c: "contents c = x # contents c1" using recv_some [of c x c1] by simp
    with Suc obtain c' where "drain n c1 = (contents c1, c')" "contents c' = []" by auto
    with Some p c show ?thesis by simp
  qed
qed

text \<open>What was accepted comes out again, complete and in the order of the sends.\<close>

lemma fifo:
  assumes "contents c = []" and "offer xs c = (ys, c1)"
  shows "\<exists>c2. drain (length ys) c1 = (ys, c2) \<and> contents c2 = []"
  using offer_contents [OF assms(2)] assms(1) drain_all [of c1 "length ys"] by simp

end

interpretation chan_fifo: bounded_fifo ch_buf ch_cap try_send try_recv
proof
  show "try_recv c = Some (x, c') \<Longrightarrow> ch_buf c = x # ch_buf c' \<and> ch_cap c' = ch_cap c" for c c' :: "'a chan" and x
    by (auto simp: try_recv_def split: list.splits)
qed (auto simp: try_send_def try_recv_def split: if_splits list.splits)

end
