(* ===== verification/Metrics.thy ===== *)
theory Metrics
  imports Sinks
begin

text \<open>
  \<open>internal/metrics/metrics.go\<close>: the metrics by name, and the helpers that change them. The Prometheus client is a
  third-party package; the model keeps the calls the gateway makes on it, in order.
\<close>

datatype metric =
    HTTPRequestsTotal
  | HTTPRequestDuration
  | SinkDeliveriesTotal
  | SinkRetriesTotal
  | CircuitState
  | ChannelUsageRatio
  | RatelimitRejectsTotal
  | PoolGoroutines
  | PoolCapacity

datatype metric_call =
    Inc metric "bytes list"
  | Observe metric "bytes list" duration
  | SetGauge metric "bytes list" rat

definition metric_name :: "metric \<Rightarrow> bytes" where
  "metric_name m =
     (case m of
        HTTPRequestsTotal \<Rightarrow> ''gateway_http_requests_total''
      | HTTPRequestDuration \<Rightarrow> ''gateway_http_request_duration_seconds''
      | SinkDeliveriesTotal \<Rightarrow> ''gateway_sink_deliveries_total''
      | SinkRetriesTotal \<Rightarrow> ''gateway_sink_retries_total''
      | CircuitState \<Rightarrow> ''gateway_circuit_state''
      | ChannelUsageRatio \<Rightarrow> ''gateway_channel_usage_ratio''
      | RatelimitRejectsTotal \<Rightarrow> ''gateway_ratelimit_rejects_total''
      | PoolGoroutines \<Rightarrow> ''gateway_pool_goroutines''
      | PoolCapacity \<Rightarrow> ''gateway_pool_capacity'')"

definition metric_labels :: "metric \<Rightarrow> bytes list" where
  "metric_labels m =
     (case m of
        HTTPRequestsTotal \<Rightarrow> [''project'', ''method'', ''status'']
      | HTTPRequestDuration \<Rightarrow> [''project'', ''method'', ''status'']
      | SinkDeliveriesTotal \<Rightarrow> [''sink'', ''status'']
      | SinkRetriesTotal \<Rightarrow> [''sink'']
      | CircuitState \<Rightarrow> [''sink'']
      | ChannelUsageRatio \<Rightarrow> [''sink'']
      | RatelimitRejectsTotal \<Rightarrow> [''level'', ''project'']
      | PoolGoroutines \<Rightarrow> []
      | PoolCapacity \<Rightarrow> [])"

datatype metric_kind = Counter | Histogram | Gauge

definition metric_type :: "metric \<Rightarrow> metric_kind" where
  "metric_type m =
     (case m of
        HTTPRequestsTotal \<Rightarrow> Counter
      | HTTPRequestDuration \<Rightarrow> Histogram
      | SinkDeliveriesTotal \<Rightarrow> Counter
      | SinkRetriesTotal \<Rightarrow> Counter
      | CircuitState \<Rightarrow> Gauge
      | ChannelUsageRatio \<Rightarrow> Gauge
      | RatelimitRejectsTotal \<Rightarrow> Counter
      | PoolGoroutines \<Rightarrow> Gauge
      | PoolCapacity \<Rightarrow> Gauge)"

definition RecordSinkSuccess :: "bytes \<Rightarrow> metric_call" where
  "RecordSinkSuccess sinkName = Inc SinkDeliveriesTotal [sinkName, ''success'']"

definition RecordSinkFailure :: "bytes \<Rightarrow> metric_call" where
  "RecordSinkFailure sinkName = Inc SinkDeliveriesTotal [sinkName, ''failure'']"

definition RecordSinkRetry :: "bytes \<Rightarrow> metric_call" where
  "RecordSinkRetry sinkName = Inc SinkRetriesTotal [sinkName]"

definition SetCircuitState :: "bytes \<Rightarrow> bool \<Rightarrow> metric_call" where
  "SetCircuitState sinkName opened = (let v = (if opened then 1 else 0) in SetGauge CircuitState [sinkName] v)"

definition SetChannelUsage :: "bytes \<Rightarrow> rat \<Rightarrow> metric_call" where
  "SetChannelUsage sinkName ratio = SetGauge ChannelUsageRatio [sinkName] ratio"

text \<open>
  The type of a call: the operation is one of the metric's kind, and the number of label values is that of its labels
  (\<open>WithLabelValues\<close> panics otherwise). The values a gauge may have are those its help text names.
\<close>

definition gauge_range :: "metric \<Rightarrow> rat \<Rightarrow> bool" where
  "gauge_range m v =
     (case m of
        CircuitState \<Rightarrow> v = 0 \<or> v = 1
      | ChannelUsageRatio \<Rightarrow> 0 \<le> v \<and> v \<le> 1
      | PoolGoroutines \<Rightarrow> 0 \<le> v
      | _ \<Rightarrow> True)"

fun call_ok :: "metric_call \<Rightarrow> bool" where
  "call_ok (Inc m ls) \<longleftrightarrow> metric_type m = Counter \<and> length ls = length (metric_labels m)"
| "call_ok (Observe m ls _) \<longleftrightarrow> metric_type m = Histogram \<and> length ls = length (metric_labels m)"
| "call_ok (SetGauge m ls v) \<longleftrightarrow> metric_type m = Gauge \<and> length ls = length (metric_labels m) \<and> gauge_range m v"

lemma sink_calls_ok [simp]:
  "call_ok (RecordSinkSuccess n)" "call_ok (RecordSinkFailure n)" "call_ok (RecordSinkRetry n)" "call_ok (SetCircuitState n b)"
  "call_ok (SetChannelUsage n r) \<longleftrightarrow> 0 \<le> r \<and> r \<le> 1"
  by (simp_all add: RecordSinkSuccess_def RecordSinkFailure_def RecordSinkRetry_def SetCircuitState_def SetChannelUsage_def metric_labels_def
      metric_type_def gauge_range_def Let_def)

lemma metric_name_inj: "metric_name m = metric_name m' \<Longrightarrow> m = m'"
  by (cases m; cases m') (simp_all add: metric_name_def)

end
