(* ===== verification/Worker.thy ===== *)
theory Worker
  imports Wal_Laws Channel Float64 Metrics
begin

text \<open>
  \<open>internal/sink/worker.go\<close>: a pool of workers behind a bounded channel, with a circuit breaker and
  three ways to deal with a message that cannot be queued or delivered. Messages are addresses
  in the message heap; the write-ahead log, the heap and the disk are shared by all pools and
  form the world an operation works on.

  What the environment decides is an argument of the operation: the outcome of each \<open>sink.Send\<close>,
  whether the context was cancelled during a backoff, the object \<open>sync.Pool\<close> hands out, and what
  the other goroutines did while an operation waited.
\<close>

subsection \<open>State\<close>

datatype Backpressure = BackpressureDrop | BackpressureBlock | BackpressureFallback

text \<open>
  The recovery goroutine: not started, running, or returned from its loop but with its deferred
  function (which lets \<open>recoveryOnce\<close> fire again) still to run.
\<close>

datatype recovery = RecNone | RecRunning | RecExiting

record WorkerPool =
  wp_name :: bytes
  wp_workers :: int
  wp_ch :: "addr chan"
  wp_busy :: "addr list"               \<comment> \<open>messages the workers are processing\<close>
  wp_cancelled :: bool                 \<comment> \<open>\<open>ctx\<close> was cancelled\<close>
  wp_closed :: bool
  wp_circuitOpen :: bool
  wp_failCount :: int
  wp_maxFails :: int
  wp_backpressure :: Backpressure
  wp_useWal :: bool                    \<comment> \<open>\<open>walWriter\<close> is not nil\<close>
  wp_submitTimeout :: duration
  wp_walFallbacks :: int
  wp_recoveryInterval :: duration
  wp_recovery :: recovery
  wp_recoveryStop :: "bool option"     \<comment> \<open>nil, or a channel that is closed or not\<close>
  wp_metricsStopped :: bool
  wp_shutdown :: bool                  \<comment> \<open>the function of \<open>shutdownOnce\<close> has run\<close>
  wp_metrics :: "metric_call list"     \<comment> \<open>what the pool told the metrics package\<close>

record WorkerPoolConfig =
  wc_Sink :: bytes
  wc_Workers :: int
  wc_ChannelSize :: int
  wc_MaxFails :: int
  wc_Backpressure :: Backpressure
  wc_WALWriter :: bool
  wc_SubmitTimeout :: duration

record world =
  wd_heap :: msg_heap
  wd_wal :: Writer
  wd_disk :: disk

datatype submit_error =
    PoolClosed
  | CircuitIsOpen
  | ChannelFull
  | ChannelFullTimeout
  | ChannelFullDropped
  | SendOnClosed                       \<comment> \<open>a panic, not an error value\<close>

definition NewWorkerPool :: "WorkerPoolConfig \<Rightarrow> WorkerPool" where
  "NewWorkerPool cfg =
     \<lparr>wp_name = wc_Sink cfg,
      wp_workers = (if wc_Workers cfg \<le> 0 then 16 else wc_Workers cfg),
      wp_ch = make_chan (nat (if wc_ChannelSize cfg \<le> 0 then 16384 else wc_ChannelSize cfg)),
      wp_busy = [],
      wp_cancelled = False, wp_closed = False, wp_circuitOpen = False, wp_failCount = 0,
      wp_maxFails = (if wc_MaxFails cfg \<le> 0 then 10 else wc_MaxFails cfg),
      wp_backpressure = wc_Backpressure cfg,
      wp_useWal = wc_WALWriter cfg,
      wp_submitTimeout = (if wc_SubmitTimeout cfg \<le> 0 then 100 * Millisecond else wc_SubmitTimeout cfg),
      wp_walFallbacks = 0,
      wp_recoveryInterval = 15 * Second,
      wp_recovery = RecNone, wp_recoveryStop = None, wp_metricsStopped = False, wp_shutdown = False,
      wp_metrics = []\<rparr>"

definition record_metric :: "metric_call \<Rightarrow> WorkerPool \<Rightarrow> WorkerPool" where
  "record_metric c wp = wp\<lparr>wp_metrics := wp_metrics wp @ [c]\<rparr>"

lemma record_metric_fields [simp]:
  "wp_name (record_metric c wp) = wp_name wp" "wp_workers (record_metric c wp) = wp_workers wp" "wp_ch (record_metric c wp) = wp_ch wp"
  "wp_busy (record_metric c wp) = wp_busy wp" "wp_cancelled (record_metric c wp) = wp_cancelled wp" "wp_closed (record_metric c wp) = wp_closed wp"
  "wp_circuitOpen (record_metric c wp) = wp_circuitOpen wp" "wp_failCount (record_metric c wp) = wp_failCount wp"
  "wp_maxFails (record_metric c wp) = wp_maxFails wp" "wp_backpressure (record_metric c wp) = wp_backpressure wp"
  "wp_useWal (record_metric c wp) = wp_useWal wp" "wp_walFallbacks (record_metric c wp) = wp_walFallbacks wp"
  "wp_recovery (record_metric c wp) = wp_recovery wp" "wp_recoveryStop (record_metric c wp) = wp_recoveryStop wp"
  "wp_metricsStopped (record_metric c wp) = wp_metricsStopped wp" "wp_shutdown (record_metric c wp) = wp_shutdown wp"
  "wp_metrics (record_metric c wp) = wp_metrics wp @ [c]"
  by (simp_all add: record_metric_def)

subsection \<open>Circuit breaker\<close>

definition startRecovery :: "WorkerPool \<Rightarrow> WorkerPool" where
  "startRecovery wp =
     (if wp_recovery wp = RecNone then wp\<lparr>wp_recovery := RecRunning, wp_recoveryStop := Some False\<rparr> else wp)"

definition recordFailure :: "WorkerPool \<Rightarrow> WorkerPool" where
  "recordFailure wp =
     (let wp = wp\<lparr>wp_failCount := wp_failCount wp + 1\<rparr>
      in if wp_failCount wp \<ge> wp_maxFails wp \<and> \<not> wp_circuitOpen wp
         then startRecovery (record_metric (SetCircuitState (wp_name wp) True) (wp\<lparr>wp_circuitOpen := True\<rparr>)) else wp)"

definition resetFailures :: "WorkerPool \<Rightarrow> WorkerPool" where
  "resetFailures wp =
     (let wp = wp\<lparr>wp_failCount := 0\<rparr>
      in if wp_circuitOpen wp then record_metric (SetCircuitState (wp_name wp) False) (wp\<lparr>wp_circuitOpen := False\<rparr>) else wp)"

text \<open>
  A tick of \<open>recoveryLoop\<close>, with what the sink's health check did: \<open>Some\<close> of its verdict, or \<open>None\<close> when
  it panicked, which the deferred function recovers, so that the loop ends. In one round the
  stop channel ends the loop when it is closed; Go may take a tick that is ready as well, so the
  step relations have \<open>recovery_tick\<close> in every state. Last the deferred function.
\<close>

definition recovery_tick :: "bool option \<Rightarrow> WorkerPool \<Rightarrow> WorkerPool" where
  "recovery_tick health wp =
     (if wp_recovery wp \<noteq> RecRunning then wp
      else if \<not> wp_circuitOpen wp then wp\<lparr>wp_recovery := RecExiting\<rparr>
      else case health of
        None \<Rightarrow> wp\<lparr>wp_recovery := RecExiting\<rparr>
      | Some healthy \<Rightarrow> if \<not> healthy then wp else (resetFailures wp)\<lparr>wp_recovery := RecExiting\<rparr>)"

definition recovery_round :: "bool \<Rightarrow> WorkerPool \<Rightarrow> WorkerPool" where
  "recovery_round healthy wp =
     (if wp_recovery wp = RecRunning \<and> wp_recoveryStop wp = Some True then wp\<lparr>wp_recovery := RecExiting\<rparr>
      else recovery_tick (Some healthy) wp)"

definition recovery_exit :: "WorkerPool \<Rightarrow> WorkerPool" where
  "recovery_exit wp = (if wp_recovery wp = RecExiting then wp\<lparr>wp_recovery := RecNone\<rparr> else wp)"

subsection \<open>Rejecting a message\<close>

definition handleRejected :: "addr \<Rightarrow> WorkerPool \<Rightarrow> world \<Rightarrow> WorkerPool \<times> world" where
  "handleRejected a wp wd =
     (let (wp, wd) =
        (if wp_backpressure wp = BackpressureFallback \<and> wp_useWal wp
         then (case hp_mem (wd_heap wd) a of
                 None \<Rightarrow> (wp, wd)
               | Some m \<Rightarrow>
                   (case WriteMessage m (wd_wal wd) (wd_disk wd) of
                      (Inl _, w, d) \<Rightarrow> (wp, wd\<lparr>wd_wal := w, wd_disk := d\<rparr>)
                    | (Inr _, w, d) \<Rightarrow>
                        (wp\<lparr>wp_walFallbacks := wp_walFallbacks wp + 1\<rparr>, wd\<lparr>wd_wal := w, wd_disk := d\<rparr>)))
         else (wp, wd))
      in (wp, wd\<lparr>wd_heap := ReleaseMessage (Some a) (wd_heap wd)\<rparr>))"

subsection \<open>Processing a message\<close>

datatype send_result = SendOk | SendErr | SendPanics

datatype outcome = Delivered | Rejected

text \<open>
  The environment of one call of \<open>safeProcess\<close>: what the i-th \<open>Send\<close> returns, and whether the
  context is cancelled during the wait before the i-th one. A context that was cancelled before
  ends every wait at once.
\<close>

type_synonym send_env = "(nat \<Rightarrow> send_result) \<times> (nat \<Rightarrow> bool)"

definition reject :: "addr \<Rightarrow> WorkerPool \<Rightarrow> world \<Rightarrow> outcome \<times> WorkerPool \<times> world" where
  "reject a wp wd = (Rejected, handleRejected a wp wd)"

text \<open>The retry loop; \<open>n\<close> is the number of attempts left.\<close>

fun attempt_loop :: "send_env \<Rightarrow> nat \<Rightarrow> nat \<Rightarrow> addr \<Rightarrow> WorkerPool \<Rightarrow> world \<Rightarrow> outcome \<times> WorkerPool \<times> world" where
  "attempt_loop env 0 i a wp wd = reject a (recordFailure (record_metric (RecordSinkFailure (wp_name wp)) wp)) wd"
| "attempt_loop env (Suc n) i a wp wd =
     (let wp = (if i > 0 then record_metric (RecordSinkRetry (wp_name wp)) wp else wp)
      in if i > 0 \<and> (wp_cancelled wp \<or> snd env i) then reject a wp wd
         else case fst env i of
           SendPanics \<Rightarrow> reject a wp wd
         | SendErr \<Rightarrow> attempt_loop env n (Suc i) a wp wd
         | SendOk \<Rightarrow> (Delivered, resetFailures (record_metric (RecordSinkSuccess (wp_name wp)) wp),
                       wd\<lparr>wd_heap := ReleaseMessage (Some a) (wd_heap wd)\<rparr>))"

definition backoff :: "nat \<Rightarrow> duration" where
  "backoff attempt = int (push_bit attempt 1) * 100 * Millisecond"

definition max_attempts :: nat where "max_attempts = 3"

text \<open>
  \<open>safeProcess\<close> with \<open>processWithContext\<close>: a panic of the sink is recovered and the message rejected.
\<close>

definition safeProcess :: "send_env \<Rightarrow> addr \<Rightarrow> WorkerPool \<Rightarrow> world \<Rightarrow> outcome \<times> WorkerPool \<times> world" where
  "safeProcess env a wp wd =
     (if wp_circuitOpen wp then reject a wp wd else attempt_loop env max_attempts 0 a wp wd)"

text \<open>A worker takes the next message; later it finishes it.\<close>

definition worker_take :: "WorkerPool \<Rightarrow> WorkerPool option" where
  "worker_take wp =
     (if int (length (wp_busy wp)) < wp_workers wp
      then map_option (\<lambda>(a, c). wp\<lparr>wp_ch := c, wp_busy := a # wp_busy wp\<rparr>) (try_recv (wp_ch wp)) else None)"

definition worker_finish :: "send_env \<Rightarrow> addr \<Rightarrow> WorkerPool \<Rightarrow> world \<Rightarrow> outcome \<times> WorkerPool \<times> world" where
  "worker_finish env a wp wd =
     (case safeProcess env a wp wd of
        (r, wp, wd) \<Rightarrow> (r, wp\<lparr>wp_busy := remove1 a (wp_busy wp)\<rparr>, wd))"

subsection \<open>Submitting\<close>

text \<open>
  \<open>Submit\<close> first reads \<open>closed\<close> under the lock. The rest runs without it: by then a shutdown may have
  closed the channel. \<open>during\<close> is what the other goroutines do while a blocked send waits.
\<close>

definition submit_send :: "(WorkerPool \<times> world \<Rightarrow> WorkerPool \<times> world) \<Rightarrow> addr \<Rightarrow> WorkerPool \<Rightarrow> world
    \<Rightarrow> (submit_error + unit) \<times> WorkerPool \<times> world" where
  "submit_send during a wp wd =
     (case try_send a (wp_ch wp) of
        (Sent, c) \<Rightarrow> (Inr (), wp\<lparr>wp_ch := c\<rparr>, wd)
      | (SendPanic, _) \<Rightarrow> (Inl SendOnClosed, wp, wd)
      | (Full, _) \<Rightarrow>
          (case wp_backpressure wp of
             BackpressureBlock \<Rightarrow>
               (let (wp, wd) = during (wp, wd)
                in case try_send a (wp_ch wp) of
                     (Sent, c) \<Rightarrow> (Inr (), wp\<lparr>wp_ch := c\<rparr>, wd)
                   | (SendPanic, _) \<Rightarrow> (Inl SendOnClosed, wp, wd)
                   | (Full, _) \<Rightarrow> (Inl ChannelFullTimeout, handleRejected a wp wd))
           | BackpressureFallback \<Rightarrow> (Inr (), handleRejected a wp wd)
           | BackpressureDrop \<Rightarrow> (Inl ChannelFullDropped, handleRejected a wp wd)))"

definition Submit :: "(WorkerPool \<times> world \<Rightarrow> WorkerPool \<times> world) \<Rightarrow> addr \<Rightarrow> WorkerPool \<Rightarrow> world
    \<Rightarrow> (submit_error + unit) \<times> WorkerPool \<times> world" where
  "Submit during a wp wd =
     (if wp_closed wp
      then (Inl PoolClosed, wp, wd\<lparr>wd_heap := ReleaseMessage (Some a) (wd_heap wd)\<rparr>)
      else submit_send during a wp wd)"

definition SubmitStrict :: "addr \<Rightarrow> WorkerPool \<Rightarrow> world \<Rightarrow> (submit_error + unit) \<times> WorkerPool \<times> world" where
  "SubmitStrict a wp wd =
     (let rel = wd\<lparr>wd_heap := ReleaseMessage (Some a) (wd_heap wd)\<rparr>
      in if wp_closed wp then (Inl PoolClosed, wp, rel)
         else if wp_circuitOpen wp then (Inl CircuitIsOpen, wp, rel)
         else case try_send a (wp_ch wp) of
           (Sent, c) \<Rightarrow> (Inr (), wp\<lparr>wp_ch := c\<rparr>, wd)
         | (SendPanic, _) \<Rightarrow> (Inl SendOnClosed, wp, wd)
         | (Full, _) \<Rightarrow> (Inl ChannelFull, wp, rel))"

subsection \<open>Queries\<close>

definition CircuitOpen :: "WorkerPool \<Rightarrow> bool" where "CircuitOpen wp = wp_circuitOpen wp"

definition WorkerCount :: "WorkerPool \<Rightarrow> int" where "WorkerCount wp = wp_workers wp"

definition ChannelCapacity :: "WorkerPool \<Rightarrow> nat" where "ChannelCapacity wp = ch_cap (wp_ch wp)"

definition WALFallbackCount :: "WorkerPool \<Rightarrow> int" where "WALFallbackCount wp = wp_walFallbacks wp"

definition ChannelUsage :: "WorkerPool \<Rightarrow> rat" where
  "ChannelUsage wp =
     (if ch_cap (wp_ch wp) = 0 then 0
      else fl (of_nat (length (ch_buf (wp_ch wp))) / of_nat (ch_cap (wp_ch wp))))"

text \<open>One tick of \<open>reportMetrics\<close>.\<close>

definition wp_reportMetrics :: "WorkerPool \<Rightarrow> WorkerPool" where
  "wp_reportMetrics wp =
     (if wp_metricsStopped wp then wp
      else record_metric (SetCircuitState (wp_name wp) (CircuitOpen wp))
             (record_metric (SetChannelUsage (wp_name wp) (ChannelUsage wp)) wp))"

definition replayPauseHighWatermark :: rat where "replayPauseHighWatermark = fl (4 / 5)"

definition replaySlowHighWatermark :: rat where "replaySlowHighWatermark = fl (1 / 2)"

text \<open>\<open>None\<close> when replay must wait, otherwise the delay before the next entry.\<close>

definition CanAcceptReplay :: "WorkerPool \<Rightarrow> duration option" where
  "CanAcceptReplay wp =
     (if wp_closed wp \<or> wp_circuitOpen wp then None
      else let usage = ChannelUsage wp
           in if usage \<ge> replayPauseHighWatermark then None
              else if usage \<ge> replaySlowHighWatermark then
                (let delay = \<lfloor>fl (fl (usage - replaySlowHighWatermark) * 1000)\<rfloor> * Millisecond;
                     delay = (if delay < 10 * Millisecond then 10 * Millisecond else delay)
                 in Some (if delay > 300 * Millisecond then 300 * Millisecond else delay))
              else Some 0)"

subsection \<open>Shutdown\<close>

definition shutdown_begin :: "WorkerPool \<Rightarrow> WorkerPool" where
  "shutdown_begin wp =
     wp\<lparr>wp_closed := True, wp_cancelled := True, wp_metricsStopped := True, wp_ch := close_chan (wp_ch wp),
        wp_recoveryStop := map_option (\<lambda>_. True) (wp_recoveryStop wp), wp_shutdown := True\<rparr>"

datatype shutdown_result = ShutdownOk | ShutdownSinkError | ShutdownTimeout

text \<open>
  Then the call waits until the workers are done (\<open>during\<close>) or the timeout passes; only in the
  first case is the sink closed, and \<open>sink_ok\<close> says whether that went well.
\<close>

definition Shutdown :: "(WorkerPool \<times> world \<Rightarrow> WorkerPool \<times> world) \<Rightarrow> bool \<Rightarrow> WorkerPool \<Rightarrow> world
    \<Rightarrow> shutdown_result \<times> WorkerPool \<times> world" where
  "Shutdown during sink_ok wp wd =
     (if wp_shutdown wp then (ShutdownOk, wp, wd)
      else let (wp, wd) = during (shutdown_begin wp, wd)
           in (if ch_buf (wp_ch wp) = [] \<and> wp_busy wp = []
               then (if sink_ok then ShutdownOk else ShutdownSinkError) else ShutdownTimeout, wp, wd))"

end
