(* ===== verification/Worker_Laws.thy ===== *)
theory Worker_Laws
  imports Worker
begin

text \<open>
  What the worker pool guarantees: the invariant of a pool over all interleavings of its clients,
  workers, recovery probe and shutdown; the fate of every message, with the write-ahead log as an
  interpretation of the interface a pool falls back to; the circuit breaker; replay admission.
\<close>

subsection \<open>What the operations leave unchanged\<close>

text \<open>The part of a pool the circuit breaker does not touch.\<close>

definition same_queue :: "WorkerPool \<Rightarrow> WorkerPool \<Rightarrow> bool" where
  "same_queue wp wp' \<longleftrightarrow> wp_ch wp' = wp_ch wp \<and> wp_busy wp' = wp_busy wp \<and> wp_workers wp' = wp_workers wp
     \<and> wp_closed wp' = wp_closed wp \<and> wp_maxFails wp' = wp_maxFails wp \<and> wp_backpressure wp' = wp_backpressure wp
     \<and> wp_useWal wp' = wp_useWal wp \<and> wp_cancelled wp' = wp_cancelled wp"

lemma same_queue_refl [simp]: "same_queue wp wp"
  by (simp add: same_queue_def)

lemma same_queue_trans: "same_queue wp wp' \<Longrightarrow> same_queue wp' wp'' \<Longrightarrow> same_queue wp wp''"
  by (simp add: same_queue_def)

definition circuit_ok :: "WorkerPool \<Rightarrow> bool" where
  "circuit_ok wp \<longleftrightarrow> 0 < wp_maxFails wp \<and> 0 \<le> wp_failCount wp \<and> (wp_circuitOpen wp \<longleftrightarrow> wp_maxFails wp \<le> wp_failCount wp)"

lemma record_metric_frame [simp]:
  "same_queue (record_metric c wp) w = same_queue wp w" "same_queue w (record_metric c wp) = same_queue w wp"
  "circuit_ok (record_metric c wp) = circuit_ok wp"
  by (simp_all add: same_queue_def circuit_ok_def)

lemma recordFailure_frame [frame]: "same_queue wp (recordFailure wp)"
  by (simp add: same_queue_def recordFailure_def startRecovery_def Let_def)

lemma resetFailures_frame [frame]: "same_queue wp (resetFailures wp)"
  by (simp add: same_queue_def resetFailures_def Let_def)

lemma recordFailure_circuit [preserves]: "circuit_ok wp \<Longrightarrow> circuit_ok (recordFailure wp)"
  by (auto simp: circuit_ok_def recordFailure_def startRecovery_def Let_def)

lemma resetFailures_circuit [preserves]: "circuit_ok wp \<Longrightarrow> circuit_ok (resetFailures wp)"
  by (auto simp: circuit_ok_def resetFailures_def Let_def)

lemma recovery_round_frame [frame]: "same_queue wp (recovery_tick v wp)" "same_queue wp (recovery_round h wp)" "same_queue wp (recovery_exit wp)"
  by (simp_all add: same_queue_def recovery_tick_def recovery_round_def recovery_exit_def resetFailures_def Let_def split: option.split)

lemma recovery_round_circuit [preserves]:
  "circuit_ok wp \<Longrightarrow> circuit_ok (recovery_tick v wp)" "circuit_ok wp \<Longrightarrow> circuit_ok (recovery_round h wp)" "circuit_ok wp \<Longrightarrow> circuit_ok (recovery_exit wp)"
  by (auto simp: circuit_ok_def recovery_tick_def recovery_round_def recovery_exit_def resetFailures_def Let_def split: option.split)

lemma wp_reportMetrics_frame [frame]: "same_queue wp (wp_reportMetrics wp)"
  and wp_reportMetrics_circuit [preserves]: "circuit_ok wp \<Longrightarrow> circuit_ok (wp_reportMetrics wp)"
  by (simp_all add: wp_reportMetrics_def same_queue_refl)

text \<open>
  \<open>handleRejected\<close> gives the message up, in every case; otherwise it only counts and writes to the
  log.
\<close>

lemma handleRejected_frame [frame]:
  assumes "handleRejected a wp wd = (wp', wd')"
  shows "same_queue wp wp'" and "wd_heap wd' = ReleaseMessage (Some a) (wd_heap wd)"
    and "wp_circuitOpen wp' = wp_circuitOpen wp" and "wp_failCount wp' = wp_failCount wp" and "wp_recovery wp' = wp_recovery wp"
    and "wp_recoveryStop wp' = wp_recoveryStop wp" and "wp_metrics wp' = wp_metrics wp" and "wp_name wp' = wp_name wp"
  using assms
  by (auto simp: handleRejected_def same_queue_def Let_def split: if_splits option.splits prod.splits sum.splits)

lemma handleRejected_circuit [preserves]:
  "handleRejected a wp wd = (wp', wd') \<Longrightarrow> circuit_ok wp \<Longrightarrow> circuit_ok wp'"
  using handleRejected_frame [of a wp wd wp' wd'] by (simp add: circuit_ok_def same_queue_def)

lemma attempt_loop_frame:
  assumes "attempt_loop env n i a wp wd = (r, wp', wd')"
  shows "same_queue wp wp'" and "wd_heap wd' = ReleaseMessage (Some a) (wd_heap wd)"
    and "circuit_ok wp \<Longrightarrow> circuit_ok wp'"
  using assms
proof (induction env n i a wp wd rule: attempt_loop.induct)
  case (1 env i a wp wd)
  let ?v = "record_metric (RecordSinkFailure (wp_name wp)) wp"
  { case 1 then show ?case using handleRejected_frame(1) [of a "recordFailure ?v" wd wp' wd'] recordFailure_frame [of ?v]
      by (auto simp: reject_def intro: same_queue_trans) }
  { case 2 then show ?case using handleRejected_frame(2) [of a "recordFailure ?v" wd wp' wd'] by (simp add: reject_def) }
  { case 3 then show ?case using handleRejected_circuit [of a "recordFailure ?v" wd wp' wd'] recordFailure_circuit [of ?v]
      by (simp add: reject_def) }
next
  case (2 env n i a wp wd)
  define v where "v = (if i > 0 then record_metric (RecordSinkRetry (wp_name wp)) wp else wp)"
  define u where "u = record_metric (RecordSinkSuccess (wp_name v)) v"
  have v: "same_queue v w = same_queue wp w" "circuit_ok v = circuit_ok wp" "same_queue u w = same_queue wp w" "circuit_ok u = circuit_ok wp" for w
    by (simp_all add: u_def v_def)
  note IH = "2.IH" [OF v_def] and body = attempt_loop.simps(2) [of env n i a wp wd, folded v_def, unfolded Let_def, folded u_def]
  { case 1 then show ?case using IH(1) handleRejected_frame(1) [of a v wd wp' wd'] resetFailures_frame [of u]
      unfolding body v by (auto simp: reject_def v split: if_splits send_result.splits) }
  { case 2 then show ?case using IH(2) handleRejected_frame(2) [of a v wd wp' wd']
      unfolding body by (auto simp: reject_def split: if_splits send_result.splits) }
  { case 3 then show ?case using IH(3) handleRejected_circuit [of a v wd wp' wd'] resetFailures_circuit [of u]
      unfolding body v by (auto simp: reject_def v split: if_splits send_result.splits) }
qed

lemma safeProcess_frame:
  assumes "safeProcess env a wp wd = (r, wp', wd')"
  shows "same_queue wp wp'" and "wd_heap wd' = ReleaseMessage (Some a) (wd_heap wd)"
    and "circuit_ok wp \<Longrightarrow> circuit_ok wp'"
  using assms attempt_loop_frame [of env max_attempts 0 a wp wd r wp' wd'] handleRejected_frame(1,2) [of a wp wd wp' wd']
    handleRejected_circuit [of a wp wd wp' wd']
  by (auto simp: safeProcess_def reject_def split: if_splits)

subsection \<open>Steps of a pool and its clients\<close>

text \<open>
  One pool among the goroutines that use it: clients acquire, fill in, release and submit
  messages they hold, workers take and finish them, the recovery probe and the metrics report run,
  somebody shuts the pool down, and the log is written to by others. \<open>late_submit\<close> is a client that found the pool
  open and gets to its send later (or whose blocked send wakes up), \<open>late_finish\<close> a worker that
  found the circuit closed and gets to its attempts later.
\<close>

type_synonym pool_state = "WorkerPool \<times> world"

definition owned :: "WorkerPool \<Rightarrow> addr set" where
  "owned wp = set (ch_buf (wp_ch wp)) \<union> set (wp_busy wp)"

inductive pool_step :: "pool_state \<Rightarrow> pool_state \<Rightarrow> bool" where
  acquire: "AcquireMessage pick (wd_heap wd) = (a, h) \<Longrightarrow> pool_step (wp, wd) (wp, wd\<lparr>wd_heap := h\<rparr>)"
| fill: "a \<in> live (wd_heap wd) \<Longrightarrow> a \<notin> owned wp \<Longrightarrow>
    pool_step (wp, wd) (wp, wd\<lparr>wd_heap := put_message a m (wd_heap wd)\<rparr>)"
| release: "a \<in> live (wd_heap wd) \<Longrightarrow> a \<notin> owned wp \<Longrightarrow>
    pool_step (wp, wd) (wp, wd\<lparr>wd_heap := ReleaseMessage (Some a) (wd_heap wd)\<rparr>)"
| late_submit: "a \<in> live (wd_heap wd) \<Longrightarrow> a \<notin> owned wp \<Longrightarrow> submit_send id a wp wd = (r, wp', wd') \<Longrightarrow>
    pool_step (wp, wd) (wp', wd')"
| submit: "a \<in> live (wd_heap wd) \<Longrightarrow> a \<notin> owned wp \<Longrightarrow> Submit id a wp wd = (r, wp', wd') \<Longrightarrow>
    pool_step (wp, wd) (wp', wd')"
| strict: "a \<in> live (wd_heap wd) \<Longrightarrow> a \<notin> owned wp \<Longrightarrow> SubmitStrict a wp wd = (r, wp', wd') \<Longrightarrow>
    pool_step (wp, wd) (wp', wd')"
| take: "worker_take wp = Some wp' \<Longrightarrow> pool_step (wp, wd) (wp', wd)"
| finish: "a \<in> set (wp_busy wp) \<Longrightarrow> worker_finish env a wp wd = (r, wp', wd') \<Longrightarrow> pool_step (wp, wd) (wp', wd')"
| late_finish: "a \<in> set (wp_busy wp) \<Longrightarrow> attempt_loop env max_attempts 0 a wp wd = (r, wp', wd') \<Longrightarrow>
    pool_step (wp, wd) (wp'\<lparr>wp_busy := remove1 a (wp_busy wp')\<rparr>, wd')"
| others: "pool_step (wp, wd) (wp, wd\<lparr>wd_wal := w, wd_disk := d\<rparr>)"
| probe: "pool_step (wp, wd) (recovery_round healthy wp, wd)"
| tick: "pool_step (wp, wd) (recovery_tick health wp, wd)"
| probe_exit: "pool_step (wp, wd) (recovery_exit wp, wd)"
| shutdown: "\<not> wp_shutdown wp \<Longrightarrow> pool_step (wp, wd) (shutdown_begin wp, wd)"
| report: "pool_step (wp, wd) (wp_reportMetrics wp, wd)"

inductive_cases pool_stepE: "pool_step (wp, wd) (wp', wd')"

inductive pool_reach :: "pool_state \<Rightarrow> pool_state \<Rightarrow> bool" for s0 where
  start: "pool_reach s0 s0"
| more: "pool_reach s0 s \<Longrightarrow> pool_step s s' \<Longrightarrow> pool_reach s0 s'"

definition pool_inv :: "pool_state \<Rightarrow> bool" where
  "pool_inv s \<longleftrightarrow>
     (case s of (wp, wd) \<Rightarrow>
        heap_ok (wd_heap wd) \<and> distinct (ch_buf (wp_ch wp) @ wp_busy wp) \<and> owned wp \<subseteq> live (wd_heap wd)
        \<and> length (ch_buf (wp_ch wp)) \<le> ch_cap (wp_ch wp) \<and> int (length (wp_busy wp)) \<le> wp_workers wp
        \<and> circuit_ok wp \<and> (ch_closed (wp_ch wp) \<longleftrightarrow> wp_closed wp))"

lemma pool_inv_new:
  "heap_ok (wd_heap wd) \<Longrightarrow> pool_inv (NewWorkerPool cfg, wd)"
  by (simp add: pool_inv_def NewWorkerPool_def owned_def make_chan_def circuit_ok_def)

lemma pool_inv_same:
  assumes "pool_inv (wp, wd)" and "same_queue wp wp'" and "circuit_ok wp \<Longrightarrow> circuit_ok wp'"
  shows "pool_inv (wp', wd)"
  using assms by (auto simp: pool_inv_def owned_def same_queue_def)

lemma pool_inv_release:
  assumes "pool_inv (wp, wd)" and "a \<in> live (wd_heap wd)" and "a \<notin> owned wp"
  shows "pool_inv (wp, wd\<lparr>wd_heap := ReleaseMessage (Some a) (wd_heap wd)\<rparr>)"
  using assms ReleaseMessage_ok [of "wd_heap wd" a] by (auto simp: pool_inv_def)

lemma pool_inv_rejected:
  assumes "pool_inv (wp, wd)" and "a \<in> live (wd_heap wd)" and "a \<notin> owned wp" and "handleRejected a wp wd = (wp', wd')"
  shows "pool_inv (wp', wd')"
  using assms ReleaseMessage_ok [of "wd_heap wd" a] handleRejected_frame(1,2) [OF assms(4)] handleRejected_circuit [OF assms(4)]
  by (auto simp: pool_inv_def owned_def same_queue_def)

lemma pool_inv_sent:
  assumes "pool_inv (wp, wd)" and "a \<in> live (wd_heap wd)" and "a \<notin> owned wp" and "try_send a (wp_ch wp) = (Sent, c)"
  shows "pool_inv (wp\<lparr>wp_ch := c\<rparr>, wd)"
  using assms by (auto simp: pool_inv_def owned_def circuit_ok_def try_send_def split: if_splits)

lemma pool_inv_submit_send:
  assumes "pool_inv (wp, wd)" and "a \<in> live (wd_heap wd)" and "a \<notin> owned wp" and "submit_send id a wp wd = (r, wp', wd')"
  shows "pool_inv (wp', wd')"
  using assms(4) pool_inv_sent [OF assms(1-3)] pool_inv_rejected [OF assms(1-3), of wp' wd'] assms(1)
  by (auto simp: submit_send_def split: prod.splits send_outcome.splits Backpressure.splits)

lemma pool_inv_worked:
  assumes "pool_inv (wp, wd)" and "a \<in> set (wp_busy wp)" and "same_queue wp wp'"
    and "wd_heap wd' = ReleaseMessage (Some a) (wd_heap wd)" and "circuit_ok wp \<Longrightarrow> circuit_ok wp'"
  shows "pool_inv (wp'\<lparr>wp_busy := remove1 a (wp_busy wp')\<rparr>, wd')"
proof -
  have a: "a \<in> live (wd_heap wd)" using assms(1,2) by (auto simp: pool_inv_def owned_def)
  have "length (remove1 a (wp_busy wp)) \<le> length (wp_busy wp)" by (simp add: length_remove1)
  with assms a ReleaseMessage_ok [of "wd_heap wd" a] show ?thesis
    by (auto simp: pool_inv_def owned_def same_queue_def circuit_ok_def distinct_remove1)
qed

lemma pool_inv_step:
  assumes "pool_step s s'" and "pool_inv s"
  shows "pool_inv s'"
  using assms
proof (induction rule: pool_step.induct)
  case (acquire pick wd a h wp)
  then show ?case using AcquireMessage_ok [of "wd_heap wd" pick a h] by (auto simp: pool_inv_def)
next
  case fill
  then show ?case by (simp add: pool_inv_def put_message_ok(1,2))
next
  case (submit a wd wp r wp' wd')
  then show ?case using pool_inv_submit_send [of wp wd a r wp' wd'] pool_inv_release [of wp wd a]
    by (auto simp: Submit_def split: if_splits)
next
  case (strict a wd wp r wp' wd')
  then show ?case using pool_inv_sent [of wp wd a] pool_inv_release [of wp wd a]
    by (auto simp: SubmitStrict_def Let_def split: if_splits prod.splits send_outcome.splits)
next
  case (take wp wp' wd)
  then show ?case
    by (auto simp: worker_take_def pool_inv_def owned_def circuit_ok_def try_recv_def split: if_splits list.splits)
next
  case (finish a wp env wd r wp' wd')
  obtain wp1 where s: "safeProcess env a wp wd = (r, wp1, wd')" and "wp' = wp1\<lparr>wp_busy := remove1 a (wp_busy wp1)\<rparr>"
    using finish.hyps(2) by (auto simp: worker_finish_def split: prod.splits)
  then show ?case using pool_inv_worked [OF finish.prems finish.hyps(1) safeProcess_frame [OF s]] by simp
next
  case (late_finish a wp env wd r wp' wd')
  then show ?case using pool_inv_worked [OF late_finish.prems late_finish.hyps(1) attempt_loop_frame [OF late_finish.hyps(2)]] by simp
next
  case (tick wp wd v)
  then show ?case using pool_inv_same [OF _ recovery_round_frame(1) recovery_round_circuit(1)] by blast
next
  case (probe wp wd h)
  then show ?case using pool_inv_same [OF _ recovery_round_frame(2) recovery_round_circuit(2)] by blast
next
  case (probe_exit wp wd)
  then show ?case using pool_inv_same [OF _ recovery_round_frame(3) recovery_round_circuit(3)] by blast
next
  case (report wp wd)
  then show ?case using pool_inv_same [OF _ wp_reportMetrics_frame wp_reportMetrics_circuit] by blast
next
  case (shutdown wp wd)
  then show ?case by (auto simp: pool_inv_def owned_def circuit_ok_def shutdown_begin_def close_chan_def)
next
  case release
  then show ?case by (metis pool_inv_release)
next
  case late_submit
  then show ?case by (metis pool_inv_submit_send)
next
  case others
  then show ?case by (simp add: pool_inv_def)
qed

lemma pool_inv_reach: "pool_reach s0 s \<Longrightarrow> pool_inv s0 \<Longrightarrow> pool_inv s"
  by (induction rule: pool_reach.induct) (auto intro: pool_inv_step)

subsection \<open>The log a pool falls back to\<close>

text \<open>
  What the pool relies on: as long as the log is ready for another entry, an entry that has a
  line is appended. The write-ahead log is ready for \<open>n\<close> entries when its invariant holds, no call
  will fail, and there are \<open>n\<close> segment numbers left.
\<close>

locale append_log =
  fixes ready :: "nat \<Rightarrow> 's \<Rightarrow> bool" and contents :: "'s \<Rightarrow> bytes" and line :: "'e \<Rightarrow> bytes option"
    and append :: "'e \<Rightarrow> 's \<Rightarrow> ('x + unit) \<times> 's"
  assumes append_ok: "ready (Suc n) s \<Longrightarrow> line e = Some l \<Longrightarrow>
      \<exists>s'. append e s = (Inr (), s') \<and> ready n s' \<and> contents s' = contents s @ l"
    and ready_less: "ready (Suc n) s \<Longrightarrow> ready n s"
begin

fun append_all :: "'e list \<Rightarrow> 's \<Rightarrow> 's" where
  "append_all [] s = s"
| "append_all (e # es) s = append_all es (snd (append e s))"

text \<open>Entries come out in the order they went in, and none is lost.\<close>

lemma append_all_contents:
  "ready (length es) s \<Longrightarrow> (\<And>e. e \<in> set es \<Longrightarrow> line e \<noteq> None) \<Longrightarrow>
   contents (append_all es s) = contents s @ concat (map (the \<circ> line) es)"
proof (induction es arbitrary: s)
  case (Cons e es)
  then obtain l where l: "line e = Some l" by fastforce
  with Cons.prems(1) obtain s' where "append e s = (Inr (), s')" "ready (length es) s'" "contents s' = contents s @ l"
    using append_ok [of "length es" s e l] by auto
  with Cons l show ?case by simp
qed simp

end

definition wal_ready :: "nat \<Rightarrow> Writer \<times> disk \<Rightarrow> bool" where
  "wal_ready n s \<longleftrightarrow> (case s of (w, d) \<Rightarrow> wal_inv w d \<and> quiet d \<and> seg_max d + int n < 2 ^ 63)"

definition msg_line :: "Message \<Rightarrow> bytes option" where
  "msg_line m = map_option (\<lambda>s. s @ [newline]) (marshal_entry (entry_of_message m))"

definition wal_write :: "Message \<Rightarrow> Writer \<times> disk \<Rightarrow> (wal_error + unit) \<times> Writer \<times> disk" where
  "wal_write m s = (case s of (w, d) \<Rightarrow> WriteMessage m w d)"

definition wal_contents :: "Writer \<times> disk \<Rightarrow> bytes" where
  "wal_contents s = (case s of (w, d) \<Rightarrow> wal_log w d)"

interpretation wal: append_log wal_ready wal_contents msg_line wal_write
proof
  fix n :: nat and s :: "Writer \<times> disk" and e :: Message and l :: bytes
  assume r: "wal_ready (Suc n) s" and l: "msg_line e = Some l"
  obtain w d where s: "s = (w, d)" by (cases s)
  from l obtain b where b: "marshal_entry (entry_of_message e) = Some b" "l = b @ [newline]"
    by (auto simp: msg_line_def)
  have i: "wal_inv w d" "quiet d" "seg_max d + 1 < 2 ^ 63" using r s by (simp_all add: wal_ready_def)
  obtain w' d' where W: "Write (entry_of_message e) w d = (Inr (), w', d')" "quiet d'" "wal_inv w' d'"
    "wal_parts w' d' = abs_append (cfg_MaxSegmentBytes (w_cfg w)) (w_activeSeg w \<noteq> None) (b @ [newline]) (wal_parts w d)"
    "seg_max d' \<le> seg_max d + 1"
    by (rule Write_ok [OF i b(1)]) blast
  have "wal_log w' d' = wal_log w d @ b @ [newline]"
    unfolding wal_log_def W(4) using wal_parts_size(2) [OF i(1)] by (rule concat_abs_append)
  with W r b(2) show "\<exists>s'. wal_write e s = (Inr (), s') \<and> wal_ready n s' \<and> wal_contents s' = wal_contents s @ l"
    by (simp add: s wal_write_def WriteMessage_def wal_ready_def wal_contents_def)
qed (auto simp: wal_ready_def)

abbreviation log_state :: "world \<Rightarrow> Writer \<times> disk" where
  "log_state wd \<equiv> (wd_wal wd, wd_disk wd)"

lemma handleRejected_logs:
  assumes "wp_backpressure wp = BackpressureFallback" "wp_useWal wp" "hp_mem (wd_heap wd) a = Some m"
    and "msg_line m = Some l" "wal_ready (Suc n) (log_state wd)" "handleRejected a wp wd = (wp', wd')"
  shows "wal_ready n (log_state wd')" and "wal_contents (log_state wd') = wal_contents (log_state wd) @ l"
    and "wp_walFallbacks wp' = wp_walFallbacks wp + 1"
proof -
  obtain w d where W: "WriteMessage m (wd_wal wd) (wd_disk wd) = (Inr (), w, d)" "wal_ready n (w, d)"
    "wal_contents (w, d) = wal_contents (log_state wd) @ l"
    using wal.append_ok [OF assms(5,4)] by (auto simp: wal_write_def)
  then have "wp' = wp\<lparr>wp_walFallbacks := wp_walFallbacks wp + 1\<rparr>"
    "wd' = wd\<lparr>wd_wal := w, wd_disk := d, wd_heap := ReleaseMessage (Some a) (wd_heap wd)\<rparr>"
    using assms by (simp_all add: handleRejected_def)
  with W show "wal_ready n (log_state wd')" "wal_contents (log_state wd') = wal_contents (log_state wd) @ l"
    "wp_walFallbacks wp' = wp_walFallbacks wp + 1" by simp_all
qed

lemma attempt_loop_logs:
  assumes "attempt_loop env k i a wp wd = (r, wp', wd')"
    and "wp_backpressure wp = BackpressureFallback" "wp_useWal wp" "hp_mem (wd_heap wd) a = Some m"
    and "msg_line m = Some l" "wal_ready (Suc n) (log_state wd)"
  shows "wal_ready n (log_state wd') \<and>
    wal_contents (log_state wd') = wal_contents (log_state wd) @ (if r = Rejected then l else [])"
  using assms
proof (induction env k i a wp wd rule: attempt_loop.induct)
  case (1 env i a wp wd)
  let ?v = "record_metric (RecordSinkFailure (wp_name wp)) wp"
  have "same_queue wp (recordFailure ?v)" using recordFailure_frame [of ?v] by simp
  with 1 show ?case using handleRejected_logs [of "recordFailure ?v" wd a m l n wp' wd'] by (auto simp: reject_def same_queue_def)
next
  case (2 env k i a wp wd)
  define v where "v = (if i > 0 then record_metric (RecordSinkRetry (wp_name wp)) wp else wp)"
  have v: "wp_backpressure v = wp_backpressure wp" "wp_useWal v = wp_useWal wp" by (simp_all add: v_def)
  note IH = "2.IH" [OF v_def] and body = attempt_loop.simps(2) [of env k i a wp wd, folded v_def, unfolded Let_def]
  show ?case using "2.prems" IH handleRejected_logs [of v wd a m l n wp' wd'] wal.ready_less [of n "log_state wd"]
    unfolding body v by (auto simp: reject_def split: if_splits send_result.splits)
qed

lemma safeProcess_logs:
  assumes "safeProcess env a wp wd = (r, wp', wd')"
    and "wp_backpressure wp = BackpressureFallback" "wp_useWal wp" "hp_mem (wd_heap wd) a = Some m"
    and "msg_line m = Some l" "wal_ready (Suc n) (log_state wd)"
  shows "wal_ready n (log_state wd')"
    and "wal_contents (log_state wd') = wal_contents (log_state wd) @ (if r = Rejected then l else [])"
  using assms attempt_loop_logs [of env max_attempts 0 a wp wd r wp' wd' m l n] handleRejected_logs [of wp wd a m l n wp' wd']
  by (auto simp: safeProcess_def reject_def split: if_splits)

subsection \<open>Nothing is lost\<close>

text \<open>
  A run of a pool in fallback mode, with a ledger of what was accepted, what the sink took and what
  went to the log. Submissions are by owners of a message; a blocked send plays no role in
  fallback mode.
\<close>

datatype pool_op = OpSubmit addr | OpTake | OpFinish send_env addr

record ledger =
  lg_accepted :: "Message list"
  lg_delivered :: "Message list"
  lg_logged :: "Message list"

definition content :: "world \<Rightarrow> addr \<Rightarrow> Message" where
  "content wd a = the (hp_mem (wd_heap wd) a)"

fun pool_exec :: "pool_op \<Rightarrow> WorkerPool \<times> world \<times> ledger \<Rightarrow> WorkerPool \<times> world \<times> ledger" where
  "pool_exec (OpSubmit a) (wp, wd, lg) =
     (if a \<in> live (wd_heap wd) \<and> a \<notin> owned wp \<and> \<not> wp_closed wp
      then case Submit id a wp wd of
        (_, wp', wd') \<Rightarrow> (wp', wd', lg\<lparr>lg_accepted := content wd a # lg_accepted lg,
          lg_logged := (if a \<in> owned wp' then lg_logged lg else lg_logged lg @ [content wd a])\<rparr>)
      else (wp, wd, lg))"
| "pool_exec OpTake (wp, wd, lg) = (case worker_take wp of None \<Rightarrow> (wp, wd, lg) | Some wp' \<Rightarrow> (wp', wd, lg))"
| "pool_exec (OpFinish env a) (wp, wd, lg) =
     (if a \<in> set (wp_busy wp)
      then case worker_finish env a wp wd of
        (Delivered, wp', wd') \<Rightarrow> (wp', wd', lg\<lparr>lg_delivered := content wd a # lg_delivered lg\<rparr>)
      | (Rejected, wp', wd') \<Rightarrow> (wp', wd', lg\<lparr>lg_logged := lg_logged lg @ [content wd a]\<rparr>)
      else (wp, wd, lg))"

definition held :: "WorkerPool \<Rightarrow> addr list" where
  "held wp = ch_buf (wp_ch wp) @ wp_busy wp"

definition books_ok :: "bytes \<Rightarrow> nat \<Rightarrow> WorkerPool \<times> world \<times> ledger \<Rightarrow> bool" where
  "books_ok log0 n s \<longleftrightarrow>
     (case s of (wp, wd, lg) \<Rightarrow>
        pool_inv (wp, wd) \<and> wp_backpressure wp = BackpressureFallback \<and> wp_useWal wp \<and> wal_ready n (log_state wd)
        \<and> (\<forall>a\<in>live (wd_heap wd). msg_line (content wd a) \<noteq> None)
        \<and> mset (lg_accepted lg) = mset (map (content wd) (held wp)) + mset (lg_delivered lg) + mset (lg_logged lg)
        \<and> wal_contents (log_state wd) = log0 @ concat (map (the \<circ> msg_line) (lg_logged lg)))"

lemma content_release:
  assumes "heap_ok (wd_heap wd)" "a \<in> live (wd_heap wd)" "wd_heap wd' = ReleaseMessage (Some a) (wd_heap wd)"
  shows "b \<noteq> a \<Longrightarrow> content wd' b = content wd b" and "live (wd_heap wd') = live (wd_heap wd) - {a}"
  using ReleaseMessage_ok(2,3) [OF assms(1,2)] assms(3) by (simp_all add: content_def)

lemma held_owned: "set (held wp) = owned wp"
  by (simp add: held_def owned_def)

lemma Submit_fallback_cases:
  assumes "pool_inv (wp, wd)" "wp_backpressure wp = BackpressureFallback" "\<not> wp_closed wp" "a \<notin> owned wp"
  obtains "Submit f a wp wd = (Inr (), wp\<lparr>wp_ch := (wp_ch wp)\<lparr>ch_buf := ch_buf (wp_ch wp) @ [a]\<rparr>\<rparr>, wd)"
  | wp' wd' where "Submit f a wp wd = (Inr (), wp', wd')" "handleRejected a wp wd = (wp', wd')"
      "length (ch_buf (wp_ch wp)) = ch_cap (wp_ch wp)" "a \<notin> owned wp'"
proof (cases "length (ch_buf (wp_ch wp)) < ch_cap (wp_ch wp)")
  case True
  with assms show ?thesis by (intro that(1)) (simp add: Submit_def submit_send_def try_send_def pool_inv_def)
next
  case False
  obtain wp' wd' where H: "handleRejected a wp wd = (wp', wd')" by (cases "handleRejected a wp wd")
  with False assms handleRejected_frame(1) [OF H] show ?thesis
    by (intro that(2) [of wp' wd']) (simp_all add: Submit_def submit_send_def try_send_def pool_inv_def owned_def same_queue_def)
qed

lemma mset_content_release:
  assumes "heap_ok (wd_heap wd)" "a \<in> live (wd_heap wd)" "wd_heap wd' = ReleaseMessage (Some a) (wd_heap wd)" "a \<notin> set xs"
  shows "image_mset (content wd') (mset xs) = image_mset (content wd) (mset xs)"
  using assms(4) content_release(1) [OF assms(1-3)] by (intro image_mset_cong) (metis set_mset_mset)

lemma books_submit:
  assumes B: "books_ok log0 (Suc n) (wp, wd, lg)"
  shows "books_ok log0 n (pool_exec (OpSubmit a) (wp, wd, lg))"
proof (cases "a \<in> live (wd_heap wd) \<and> a \<notin> owned wp \<and> \<not> wp_closed wp")
  case False
  with B wal.ready_less [of n "log_state wd"] show ?thesis by (auto simp: books_ok_def)
next
  case True
  note b = B [unfolded books_ok_def prod.case]
  have I: "pool_inv (wp, wd)" and F: "wp_backpressure wp = BackpressureFallback" using b by auto
  have h: "heap_ok (wd_heap wd)" using I by (simp add: pool_inv_def)
  obtain m where m: "hp_mem (wd_heap wd) a = Some m" using True by (auto simp: live_def)
  then have c: "content wd a = m" by (simp add: content_def)
  obtain l where l: "msg_line m = Some l" using b True c by auto
  have "\<not> wp_closed wp" "a \<notin> owned wp" using True by auto
  with I F show ?thesis
  proof (cases rule: Submit_fallback_cases [of wp wd a id])
    case 1
    have "pool_step (wp, wd) (wp\<lparr>wp_ch := (wp_ch wp)\<lparr>ch_buf := ch_buf (wp_ch wp) @ [a]\<rparr>\<rparr>, wd)"
      using True 1 by (intro pool_step.submit) auto
    with pool_inv_step I have "pool_inv (wp\<lparr>wp_ch := (wp_ch wp)\<lparr>ch_buf := ch_buf (wp_ch wp) @ [a]\<rparr>\<rparr>, wd)" by blast
    with b True 1 wal.ready_less [of n "log_state wd"] show ?thesis by (simp add: books_ok_def held_def owned_def)
  next
    case (2 wp' wd')
    note f = handleRejected_frame [OF 2(2)]
    have "pool_inv (wp', wd')" using pool_inv_rejected [OF I _ _ 2(2)] True by blast
    moreover have "held wp' = held wp" using f(1) by (simp add: held_def same_queue_def)
    moreover have "a \<notin> set (held wp)" using True by (simp add: held_owned)
    moreover note mset_content_release [OF h _ f(2), of "held wp"] content_release [OF h _ f(2)]
      handleRejected_logs [OF F _ m l _ 2(2)]
    ultimately show ?thesis using b True 2 f(1) l c by (auto simp: books_ok_def same_queue_def)
  qed
qed

lemma books_take:
  assumes B: "books_ok log0 (Suc n) (wp, wd, lg)"
  shows "books_ok log0 n (pool_exec OpTake (wp, wd, lg))"
proof (cases "worker_take wp")
  case None
  with B wal.ready_less [of n "log_state wd"] show ?thesis by (auto simp: books_ok_def)
next
  case (Some wp')
  then have "pool_step (wp, wd) (wp', wd)" by (rule pool_step.take)
  with B have "pool_inv (wp', wd)" by (auto simp: books_ok_def intro: pool_inv_step)
  moreover have "mset (held wp') = mset (held wp) \<and> wp_backpressure wp' = wp_backpressure wp \<and> wp_useWal wp' = wp_useWal wp"
    using Some by (auto simp: worker_take_def held_def try_recv_def split: if_splits list.splits)
  ultimately show ?thesis using B Some wal.ready_less [of n "log_state wd"] by (auto simp: books_ok_def mset_map simp del: map_append)
qed

lemma books_finish:
  assumes B: "books_ok log0 (Suc n) (wp, wd, lg)"
  shows "books_ok log0 n (pool_exec (OpFinish env a) (wp, wd, lg))"
proof (cases "a \<in> set (wp_busy wp)")
  case False
  with B wal.ready_less [of n "log_state wd"] show ?thesis by (auto simp: books_ok_def)
next
  case True
  note b = B [unfolded books_ok_def prod.case]
  have I: "pool_inv (wp, wd)" using b by auto
  have h: "heap_ok (wd_heap wd)" and a: "a \<in> live (wd_heap wd)" and d: "distinct (held wp)"
    using I True by (auto simp: pool_inv_def owned_def held_def)
  obtain m where m: "hp_mem (wd_heap wd) a = Some m" using a by (auto simp: live_def)
  then have c: "content wd a = m" by (simp add: content_def)
  obtain l where l: "msg_line m = Some l" using b a c by auto
  obtain r wp1 wd' where s: "safeProcess env a wp wd = (r, wp1, wd')" by (cases "safeProcess env a wp wd")
  define wp' where "wp' = wp1\<lparr>wp_busy := remove1 a (wp_busy wp1)\<rparr>"
  have w: "worker_finish env a wp wd = (r, wp', wd')" using s by (simp add: worker_finish_def wp'_def)
  note f = safeProcess_frame [OF s]
  have inv: "pool_inv (wp', wd')" by (rule pool_inv_step [OF pool_step.finish [OF True w] I])
  have modes: "wp_backpressure wp' = wp_backpressure wp" "wp_useWal wp' = wp_useWal wp"
    using f(1) by (simp_all add: wp'_def same_queue_def)
  have "a \<notin> set (held wp')" and mh: "mset (held wp) = add_mset a (mset (held wp'))"
    using f(1) True d by (auto simp: held_def wp'_def same_queue_def)
  then have "mset (map (content wd) (held wp)) = add_mset m (mset (map (content wd') (held wp')))"
    using c mset_content_release [OF h a f(2), of "held wp'"] by simp
  then have books: "mset (lg_accepted lg) =
      add_mset m (mset (map (content wd') (held wp')) + mset (lg_delivered lg) + mset (lg_logged lg))"
    using b by simp
  have lines: "\<forall>b\<in>live (wd_heap wd'). msg_line (content wd' b) \<noteq> None"
    using b content_release [OF h a f(2)] by simp
  have "wal_ready n (log_state wd')"
    "wal_contents (log_state wd') = wal_contents (log_state wd) @ (if r = Rejected then l else [])"
    using safeProcess_logs [OF s _ _ m l, of n] b by simp_all
  with inv modes books lines b True w l c show ?thesis by (cases r) (simp_all add: books_ok_def)
qed

lemma books_run:
  "books_ok log0 (length ops) (wp, wd, lg) \<Longrightarrow> books_ok log0 0 (fold pool_exec ops (wp, wd, lg))"
proof (induction ops arbitrary: wp wd lg)
  case (Cons op ops)
  have "books_ok log0 (length ops) (pool_exec op (wp, wd, lg))"
    using Cons.prems books_submit [of log0 "length ops"] books_take [of log0 "length ops"] books_finish [of log0 "length ops"]
    by (cases op) (auto simp del: pool_exec.simps)
  then show ?case using Cons.IH by (cases "pool_exec op (wp, wd, lg)") (simp del: pool_exec.simps)
qed simp

subsection \<open>Retries and the circuit breaker\<close>

text \<open>The pool after the retries before the given attempt.\<close>

definition retried :: "nat \<Rightarrow> WorkerPool \<Rightarrow> WorkerPool" where
  "retried k wp = wp\<lparr>wp_metrics := wp_metrics wp @ replicate k (RecordSinkRetry (wp_name wp))\<rparr>"

definition sent_ok :: "addr \<Rightarrow> WorkerPool \<Rightarrow> world \<Rightarrow> outcome \<times> WorkerPool \<times> world" where
  "sent_ok a wp wd =
     (Delivered, resetFailures (record_metric (RecordSinkSuccess (wp_name wp)) wp), wd\<lparr>wd_heap := ReleaseMessage (Some a) (wd_heap wd)\<rparr>)"

definition sent_failed :: "WorkerPool \<Rightarrow> WorkerPool" where
  "sent_failed wp = recordFailure (record_metric (RecordSinkFailure (wp_name wp)) wp)"

lemma retried_step:
  "retried 0 wp = wp" "record_metric (RecordSinkRetry (wp_name wp)) (retried k wp) = retried (Suc k) wp"
  by (simp_all add: retried_def record_metric_def replicate_append_same)

lemma retried_fields [simp]:
  "wp_name (retried k wp) = wp_name wp" "wp_cancelled (retried k wp) = wp_cancelled wp" "wp_circuitOpen (retried k wp) = wp_circuitOpen wp"
  "wp_failCount (retried k wp) = wp_failCount wp" "wp_maxFails (retried k wp) = wp_maxFails wp" "wp_recovery (retried k wp) = wp_recovery wp"
  "wp_recoveryStop (retried k wp) = wp_recoveryStop wp"
  by (simp_all add: retried_def)

lemma safeProcess_cases:
  assumes "\<not> wp_circuitOpen wp"
  shows "safeProcess (s, c) a wp wd =
    (case s 0 of SendOk \<Rightarrow> sent_ok a wp wd
     | SendPanics \<Rightarrow> reject a wp wd
     | SendErr \<Rightarrow> if wp_cancelled wp \<or> c 1 then reject a (retried 1 wp) wd else
       (case s 1 of SendOk \<Rightarrow> sent_ok a (retried 1 wp) wd
        | SendPanics \<Rightarrow> reject a (retried 1 wp) wd
        | SendErr \<Rightarrow> if c 2 then reject a (retried 2 wp) wd else
          (case s 2 of SendOk \<Rightarrow> sent_ok a (retried 2 wp) wd
           | SendPanics \<Rightarrow> reject a (retried 2 wp) wd
           | SendErr \<Rightarrow> reject a (sent_failed (retried 2 wp)) wd)))"
proof -
  have r: "record_metric (RecordSinkRetry (wp_name wp)) wp = retried (Suc 0) wp"
    "record_metric (RecordSinkRetry (wp_name wp)) (retried (Suc 0) wp) = retried (Suc (Suc 0)) wp"
    using retried_step(1) [of wp] retried_step(2) [of wp 0] retried_step(2) [of wp "Suc 0"] by simp_all
  have m: "max_attempts = Suc (Suc (Suc 0))" by (simp add: max_attempts_def)
  show ?thesis unfolding safeProcess_def if_not_P [OF assms] m
    by (simp add: r sent_ok_def sent_failed_def Let_def numeral_2_eq_2 split: send_result.split)
qed

text \<open>How often a call was made on the metrics package.\<close>

definition call_count :: "metric_call \<Rightarrow> WorkerPool \<Rightarrow> nat" where
  "call_count c wp = length (filter ((=) c) (wp_metrics wp))"

lemma sink_calls_distinct:
  "RecordSinkSuccess n \<noteq> RecordSinkFailure n'" "RecordSinkSuccess n \<noteq> RecordSinkRetry n'" "RecordSinkSuccess n \<noteq> SetCircuitState n' b"
  "RecordSinkFailure n \<noteq> RecordSinkRetry n'" "RecordSinkFailure n \<noteq> SetCircuitState n' b"
  by (simp_all add: RecordSinkSuccess_def RecordSinkFailure_def RecordSinkRetry_def SetCircuitState_def)

lemma call_count_simps [simp]:
  "call_count c (record_metric c' wp) = call_count c wp + (if c = c' then 1 else 0)"
  "call_count (RecordSinkSuccess n) (retried k wp) = call_count (RecordSinkSuccess n) wp"
  "call_count (RecordSinkFailure n) (retried k wp) = call_count (RecordSinkFailure n) wp"
  "call_count (RecordSinkSuccess n) (resetFailures wp) = call_count (RecordSinkSuccess n) wp"
  "call_count (RecordSinkFailure n) (resetFailures wp) = call_count (RecordSinkFailure n) wp"
  "call_count (RecordSinkSuccess n) (recordFailure wp) = call_count (RecordSinkSuccess n) wp"
  "call_count (RecordSinkFailure n) (recordFailure wp) = call_count (RecordSinkFailure n) wp"
  by (simp_all add: call_count_def retried_def resetFailures_def recordFailure_def startRecovery_def Let_def sink_calls_distinct)

lemma open_circuit_sticks:
  assumes "safeProcess env a wp wd = (r, wp', wd')" "wp_circuitOpen wp"
  shows "r = Rejected" "wp_circuitOpen wp'" "wp_failCount wp' = wp_failCount wp" "wp_maxFails wp' = wp_maxFails wp"
    "wp_recovery wp' = wp_recovery wp" "wp_recoveryStop wp' = wp_recoveryStop wp" "wp_metrics wp' = wp_metrics wp"
  using assms handleRejected_frame [of a wp wd wp' wd'] by (auto simp: safeProcess_def reject_def same_queue_def)

abbreviation failing_env :: send_env where
  "failing_env \<equiv> (\<lambda>_. SendErr, \<lambda>_. False)"

lemma safeProcess_failing:
  assumes "\<not> wp_circuitOpen wp" "\<not> wp_cancelled wp"
  shows "safeProcess failing_env a wp wd = reject a (sent_failed (retried 2 wp)) wd"
  using assms by (simp add: safeProcess_cases)

text \<open>Messages processed one after the other while every \<open>Send\<close> fails.\<close>

fun process_failing :: "addr list \<Rightarrow> WorkerPool \<times> world \<Rightarrow> WorkerPool \<times> world" where
  "process_failing [] s = s"
| "process_failing (a # as) (wp, wd) = process_failing as (snd (safeProcess failing_env a wp wd))"

definition probing :: "WorkerPool \<Rightarrow> bool" where
  "probing wp \<longleftrightarrow> (wp_circuitOpen wp \<longrightarrow> wp_recovery wp = RecRunning \<and> wp_recoveryStop wp = Some False)"

lemma process_failing_ok:
  assumes "circuit_ok wp" "wp_failCount wp \<le> wp_maxFails wp" "\<not> wp_cancelled wp" "process_failing as (wp, wd) = (wp', wd')"
    and "wp_circuitOpen wp \<or> wp_recovery wp = RecNone" "probing wp"
  shows "circuit_ok wp' \<and> wp_failCount wp' = min (wp_maxFails wp) (wp_failCount wp + int (length as))
    \<and> wp_maxFails wp' = wp_maxFails wp \<and> probing wp'"
  using assms
proof (induction as arbitrary: wp wd)
  case (Cons a as)
  obtain r wp1 wd1 where s: "safeProcess failing_env a wp wd = (r, wp1, wd1)" by (cases "safeProcess failing_env a wp wd")
  then have rest: "process_failing as (wp1, wd1) = (wp', wd')" using Cons.prems(4) by simp
  note f = safeProcess_frame [OF s]
  show ?case
  proof (cases "wp_circuitOpen wp")
    case True
    note o = open_circuit_sticks [OF s True]
    from True Cons.prems(1,2) have full: "wp_failCount wp = wp_maxFails wp" by (simp add: circuit_ok_def)
    have "probing wp1" using o True Cons.prems(6) by (simp add: probing_def)
    then show ?thesis using Cons.IH [OF f(3) _ _ rest] Cons.prems(1,3) f(1) o full by (simp add: same_queue_def min_def)
  next
    case False
    let ?v = "sent_failed (retried 2 wp)"
    from False have h: "handleRejected a ?v wd = (wp1, wd1)"
      using s safeProcess_failing [OF _ Cons.prems(3)] by (simp add: reject_def)
    note g = handleRejected_frame [OF h] 
    have "wp_failCount wp < wp_maxFails wp" using False Cons.prems(1) by (simp add: circuit_ok_def)
    moreover have "wp_failCount ?v = wp_failCount wp + 1" "wp_circuitOpen ?v \<or> wp_recovery ?v = RecNone" "probing ?v"
      using False Cons.prems(5) by (auto simp: sent_failed_def recordFailure_def startRecovery_def probing_def Let_def)
    ultimately show ?thesis using Cons.IH [OF f(3) _ _ rest] Cons.prems(1,3) f(1) g
      by (simp add: same_queue_def probing_def)
  qed
qed (simp add: min_def)

lemma live_code [code_unfold]: "a \<in> live h \<longleftrightarrow> hp_mem h a \<noteq> None \<and> a \<notin> set (hp_free h)"
  by (auto simp: live_def)

declare clear_message [code]

subsection \<open>Replay admission\<close>

lemma usage_watermarks:
  assumes "0 < c" "c < 2 ^ 49" "n \<le> c"
  shows "replayPauseHighWatermark \<le> fl (of_nat n / of_nat c) \<longleftrightarrow> 4 * c \<le> 5 * n"
    and "replaySlowHighWatermark \<le> fl (of_nat n / of_nat c) \<longleftrightarrow> c \<le> 2 * n"
proof -
  have c: "int 5 * int c < 2 ^ 52" "int 2 * int c < 2 ^ 52" using assms(2) by simp_all
  have "\<bar>fl (4 / 5) - 4 / 5\<bar> \<le> 1 / 2 ^ 53" by (rule fl_error) simp_all
  then have "0 < fl (4 / 5)" by (simp only: abs_le_iff) (simp add: field_simps)
  then have pos: "0 < replayPauseHighWatermark" "0 < replaySlowHighWatermark"
    by (simp_all add: replayPauseHighWatermark_def replaySlowHighWatermark_def fl_half)
  show "replayPauseHighWatermark \<le> fl (of_nat n / of_nat c) \<longleftrightarrow> 4 * c \<le> 5 * n"
    using fl_quotient_le [of 5 c n 4] c assms pos by (cases "n = 0") (auto simp: replayPauseHighWatermark_def)
  show "replaySlowHighWatermark \<le> fl (of_nat n / of_nat c) \<longleftrightarrow> c \<le> 2 * n"
    using fl_quotient_le [of 2 c n 1] c assms pos by (cases "n = 0") (auto simp: replaySlowHighWatermark_def)
qed

lemma replay_decision:
  assumes "0 < ch_cap (wp_ch wp)" "ch_cap (wp_ch wp) < 2 ^ 49" "length (ch_buf (wp_ch wp)) \<le> ch_cap (wp_ch wp)"
  shows "case CanAcceptReplay wp of
      None \<Rightarrow> wp_closed wp \<or> wp_circuitOpen wp \<or> 4 * ch_cap (wp_ch wp) \<le> 5 * length (ch_buf (wp_ch wp))
    | Some delay \<Rightarrow> \<not> wp_closed wp \<and> \<not> wp_circuitOpen wp \<and> 5 * length (ch_buf (wp_ch wp)) < 4 * ch_cap (wp_ch wp)
        \<and> (if 2 * length (ch_buf (wp_ch wp)) < ch_cap (wp_ch wp) then delay = 0
            else 10 * Millisecond \<le> delay \<and> delay \<le> 300 * Millisecond)"
  using usage_watermarks [OF assms] assms(1)
  by (auto simp: CanAcceptReplay_def ChannelUsage_def Let_def not_le)

lemma recordFailure_fields:
  "wp_failCount (recordFailure wp) = wp_failCount wp + 1" "wp_maxFails (recordFailure wp) = wp_maxFails wp"
  "wp_recovery wp \<noteq> RecNone \<Longrightarrow> wp_recovery (recordFailure wp) = wp_recovery wp"
  by (simp_all add: recordFailure_def startRecovery_def Let_def)

text \<open>The two ways a message leaves the hands of a client.\<close>

lemma Submit_outcomes:
  assumes "Submit id a wp wd = (r, wp', wd')" "r \<noteq> Inl SendOnClosed"
  shows "wd' = wd \<and> r = Inr () \<and> held wp' = ch_buf (wp_ch wp) @ a # wp_busy wp
    \<or> held wp' = held wp \<and> wd_heap wd' = ReleaseMessage (Some a) (wd_heap wd)"
proof -
  have rej: "held v = held wp \<and> wd_heap wd1 = ReleaseMessage (Some a) (wd_heap wd)" if "handleRejected a wp wd = (v, wd1)" for v wd1
    using handleRejected_frame(1,2) [OF that] by (simp add: held_def same_queue_def)
  show ?thesis
  proof (cases "wp_closed wp")
    case True
    then show ?thesis using assms(1) by (auto simp: Submit_def)
  next
    case False
    then have s: "submit_send id a wp wd = (r, wp', wd')" using assms(1) by (simp add: Submit_def)
    show ?thesis
    proof (cases "fst (try_send a (wp_ch wp))")
      case Sent
      then show ?thesis using s by (auto simp: submit_send_def try_send_def held_def split: if_splits)
    next
      case SendPanic
      then show ?thesis using s assms(2) by (auto simp: submit_send_def split: prod.splits)
    next
      case Full
      then have "try_send a (wp_ch wp) = (Full, wp_ch wp)" by (auto simp: try_send_def split: if_splits)
      then have "(wp', wd') = handleRejected a wp wd"
        using s by (auto simp: submit_send_def split: Backpressure.splits)
      then show ?thesis using rej [of wp' wd'] by simp
    qed
  qed
qed

lemma SubmitStrict_outcomes:
  assumes "SubmitStrict a wp wd = (r, wp', wd')" "r \<noteq> Inl SendOnClosed"
  shows "wd' = wd \<and> r = Inr () \<and> held wp' = ch_buf (wp_ch wp) @ a # wp_busy wp
    \<or> held wp' = held wp \<and> wd_heap wd' = ReleaseMessage (Some a) (wd_heap wd) \<and> log_state wd' = log_state wd \<and> r \<noteq> Inr ()"
  using assms by (auto simp: SubmitStrict_def try_send_def held_def Let_def split: if_splits)

subsection \<open>Properties\<close>

text \<open>
  C11: the state of a pool in every interleaving of clients, workers, probe and shutdown. The
  message pool stays consistent; a message is held by the queue or a worker at most once and
  only while it is live (so it is never processed twice, and never after it went back to the
  pool); queue and workers stay within their bounds; the channel is closed exactly when the pool
  is; and the circuit is open exactly when \<open>maxFails\<close> failures were counted.
\<close>

theorem pool_reach_invariant:
  assumes "heap_ok (wd_heap wd)" and "pool_reach (NewWorkerPool cfg, wd) (wp, wd')"
  shows "heap_ok (wd_heap wd') \<and> distinct (ch_buf (wp_ch wp) @ wp_busy wp)
    \<and> set (ch_buf (wp_ch wp) @ wp_busy wp) \<subseteq> live (wd_heap wd')
    \<and> length (ch_buf (wp_ch wp)) \<le> ch_cap (wp_ch wp) \<and> int (length (wp_busy wp)) \<le> wp_workers wp
    \<and> ch_closed (wp_ch wp) = wp_closed wp
    \<and> (wp_circuitOpen wp \<longleftrightarrow> wp_maxFails wp \<le> wp_failCount wp)"
proof -
  have "pool_inv (NewWorkerPool cfg, wd)" by (rule pool_inv_new [OF assms(1)])
  from pool_inv_reach [OF assms(2) this] show ?thesis by (simp add: pool_inv_def owned_def circuit_ok_def)
qed

definition sample_pool_config :: WorkerPoolConfig where
  "sample_pool_config = \<lparr>wc_Sink = ''k'', wc_Workers = 1, wc_ChannelSize = 1, wc_MaxFails = 2,
     wc_Backpressure = BackpressureFallback, wc_WALWriter = True, wc_SubmitTimeout = 0\<rparr>"

definition sample_message :: Message where
  "sample_message = empty_message\<lparr>msg_RequestID := ''r'', msg_Project := ''p'', msg_Data := Some ''[1, 2]''\<rparr>"

text \<open>Two messages are live; nothing is queued.\<close>

definition sample_world :: world where
  "sample_world = \<lparr>wd_heap = \<lparr>hp_mem = [0 \<mapsto> sample_message, 1 \<mapsto> sample_message], hp_free = [], hp_next = 2\<rparr>,
     wd_wal = blank_writer (sample_config 0), wd_disk = empty_disk\<rparr>"

lemma sample_world_ok: "heap_ok (wd_heap sample_world)" "live (wd_heap sample_world) = {0, 1}"
  by (auto simp: sample_world_def heap_ok_def live_def)

theorem pool_reach_invariant_witness:
  "\<exists>wp wd. pool_reach (NewWorkerPool sample_pool_config, sample_world) (wp, wd) \<and> ch_buf (wp_ch wp) = [0]
     \<and> set (ch_buf (wp_ch wp) @ wp_busy wp) \<subseteq> live (wd_heap wd)"
proof -
  let ?p = "NewWorkerPool sample_pool_config"
  obtain r wp wd where S: "Submit id 0 ?p sample_world = (r, wp, wd)" by (cases "Submit id 0 ?p sample_world")
  have "ch_buf (wp_ch (fst (snd (Submit id 0 ?p sample_world)))) = [0]" by code_simp
  then have q: "ch_buf (wp_ch wp) = [0]" using S by simp
  have "0 \<notin> owned ?p" by (simp add: owned_def NewWorkerPool_def make_chan_def)
  with S have "pool_reach (?p, sample_world) (wp, wd)"
    by (intro pool_reach.more [OF pool_reach.start] pool_step.submit [of 0]) (simp_all add: sample_world_ok)
  with pool_reach_invariant [OF sample_world_ok(1) this] q show ?thesis by blast
qed



text \<open>
  When replay may put messages into a pool. Although the usage is computed in floating point,
  the decision is the exact one for every channel below \<open>2 ^ 49\<close> slots: replay waits when the pool
  is closed, its circuit open or the channel four fifths full, runs at full speed below half,
  and in between pauses for 10 to 300 milliseconds per entry.
\<close>

theorem CanAcceptReplay_exact:
  assumes "0 < ch_cap (wp_ch wp)" "ch_cap (wp_ch wp) < 2 ^ 49" "length (ch_buf (wp_ch wp)) \<le> ch_cap (wp_ch wp)"
  shows "case CanAcceptReplay wp of
      None \<Rightarrow> wp_closed wp \<or> wp_circuitOpen wp \<or> 4 * ch_cap (wp_ch wp) \<le> 5 * length (ch_buf (wp_ch wp))
    | Some delay \<Rightarrow> \<not> wp_closed wp \<and> \<not> wp_circuitOpen wp \<and> 5 * length (ch_buf (wp_ch wp)) < 4 * ch_cap (wp_ch wp)
        \<and> (if 2 * length (ch_buf (wp_ch wp)) < ch_cap (wp_ch wp) then delay = 0
            else 10 * Millisecond \<le> delay \<and> delay \<le> 300 * Millisecond)"
  by (rule replay_decision [OF assms])

theorem CanAcceptReplay_exact_witness:
  "let wp = (NewWorkerPool sample_pool_config)\<lparr>wp_ch := \<lparr>ch_buf = [2, 3, 4], ch_cap = 5, ch_closed = False\<rparr>\<rparr>
   in \<exists>delay. CanAcceptReplay wp = Some delay \<and> 10 * Millisecond \<le> delay \<and> delay \<le> 300 * Millisecond"
  using CanAcceptReplay_exact [of "(NewWorkerPool sample_pool_config)\<lparr>wp_ch := \<lparr>ch_buf = [2, 3, 4], ch_cap = 5, ch_closed = False\<rparr>\<rparr>"]
  by (simp add: NewWorkerPool_def sample_pool_config_def split: option.splits)

text \<open>
  C23: what becomes of a message a worker takes. It is delivered exactly when the circuit is closed
  and one of the three attempts succeeds, the earlier ones having failed with an error (not a panic) and no
  cancellation having ended a wait. Delivery clears the failure count and closes the circuit; three
  errors count as one failure; every other way out leaves the count alone. The metrics count each delivery and each such failure
  once. The message goes back to the pool in every case.
\<close>

theorem safeProcess_outcome:
  assumes "safeProcess (s, c) a wp wd = (r, wp', wd')"
  shows "(r = Delivered \<longleftrightarrow> \<not> wp_circuitOpen wp \<and>
      (s 0 = SendOk \<or> s 0 = SendErr \<and> \<not> wp_cancelled wp \<and> \<not> c 1 \<and>
        (s 1 = SendOk \<or> s 1 = SendErr \<and> \<not> c 2 \<and> s 2 = SendOk)))
    \<and> wp_failCount wp' =
        (if r = Delivered then 0
         else if \<not> wp_circuitOpen wp \<and> s 0 = SendErr \<and> \<not> wp_cancelled wp \<and> \<not> c 1 \<and> s 1 = SendErr \<and> \<not> c 2 \<and> s 2 = SendErr
         then wp_failCount wp + 1 else wp_failCount wp)
    \<and> (r = Delivered \<longrightarrow> \<not> wp_circuitOpen wp')
    \<and> call_count (RecordSinkSuccess (wp_name wp)) wp' = call_count (RecordSinkSuccess (wp_name wp)) wp + (if r = Delivered then 1 else 0)
    \<and> call_count (RecordSinkFailure (wp_name wp)) wp' = call_count (RecordSinkFailure (wp_name wp)) wp
        + (if r \<noteq> Delivered \<and> wp_failCount wp' = wp_failCount wp + 1 then 1 else 0)
    \<and> wd_heap wd' = ReleaseMessage (Some a) (wd_heap wd)"
proof (cases "wp_circuitOpen wp")
  case True
  then show ?thesis using open_circuit_sticks [OF assms] safeProcess_frame(2) [OF assms] by (simp add: call_count_def)
next
  case False
  have f: "wp_failCount (resetFailures v) = 0" "\<not> wp_circuitOpen (resetFailures v)"
    "wp_failCount (recordFailure v) = wp_failCount v + 1" for v
    by (simp_all add: resetFailures_def recordFailure_def startRecovery_def Let_def)
  have rej: "r = Rejected \<and> wp_failCount wp' = wp_failCount v \<and> (\<forall>c. call_count c wp' = call_count c v)" if "reject a v wd = (r, wp', wd')" for v
    using that handleRejected_frame(4,7) [of a v wd wp' wd'] by (auto simp: reject_def call_count_def)
  show ?thesis using assms [unfolded safeProcess_cases [OF False]] False f safeProcess_frame(2) [OF assms]
    by (auto simp: sent_ok_def sent_failed_def sink_calls_distinct sink_calls_distinct [symmetric] split: send_result.splits if_splits dest!: rej)
qed

theorem safeProcess_outcome_witness:
  "\<exists>wp' wd'. safeProcess ((\<lambda>i. if i = 2 then SendOk else SendErr), (\<lambda>_. False)) 0 (NewWorkerPool sample_pool_config) sample_world = (Delivered, wp', wd')
    \<and> wp_failCount wp' = 0"
proof -
  let ?s = "\<lambda>i. if i = 2 then SendOk else SendErr" and ?c = "\<lambda>_. False"
  obtain r wp' wd' where S: "safeProcess (?s, ?c) 0 (NewWorkerPool sample_pool_config) sample_world = (r, wp', wd')"
    by (cases "safeProcess (?s, ?c) 0 (NewWorkerPool sample_pool_config) sample_world")
  with safeProcess_outcome [OF S] show ?thesis by (simp add: NewWorkerPool_def)
qed

text \<open>
  C24: the circuit breaker. While every \<open>Send\<close> fails, a fresh pool opens its circuit at the
  \<open>maxFails\<close>-th message and not before; messages after that are not tried and not counted. From
  then on the probe runs, so the next round that finds the sink healthy closes the circuit and
  clears the count.
\<close>

theorem circuit_opens_and_recovers:
  assumes "process_failing as (NewWorkerPool cfg, wd) = (wp, wd')"
  shows "wp_failCount wp = min (wp_maxFails (NewWorkerPool cfg)) (int (length as))
    \<and> (wp_circuitOpen wp \<longleftrightarrow> wp_maxFails (NewWorkerPool cfg) \<le> int (length as))
    \<and> (wp_circuitOpen wp \<longrightarrow> \<not> wp_circuitOpen (recovery_round True wp) \<and> wp_failCount (recovery_round True wp) = 0
        \<and> recovery_round False wp = wp)"
proof -
  have "circuit_ok wp \<and> wp_failCount wp = min (wp_maxFails (NewWorkerPool cfg)) (wp_failCount (NewWorkerPool cfg) + int (length as))
      \<and> wp_maxFails wp = wp_maxFails (NewWorkerPool cfg) \<and> probing wp"
    using assms by (intro process_failing_ok) (auto simp: NewWorkerPool_def circuit_ok_def probing_def)
  moreover have "wp_failCount (NewWorkerPool cfg) = 0" by (simp add: NewWorkerPool_def)
  ultimately show ?thesis
    by (auto simp: circuit_ok_def probing_def recovery_round_def recovery_tick_def resetFailures_def Let_def)
qed

theorem circuit_opens_and_recovers_witness:
  "wp_circuitOpen (fst (process_failing [0, 1] (NewWorkerPool sample_pool_config, sample_world)))
   \<and> \<not> wp_circuitOpen (fst (process_failing [0] (NewWorkerPool sample_pool_config, sample_world)))"
proof -
  have "wp_maxFails (NewWorkerPool sample_pool_config) = 2" by (simp add: NewWorkerPool_def sample_pool_config_def)
  then show ?thesis
    using circuit_opens_and_recovers [OF prod.collapse [symmetric], of "[0, 1]" sample_pool_config sample_world]
      circuit_opens_and_recovers [OF prod.collapse [symmetric], of "[0]" sample_pool_config sample_world] by simp
qed

text \<open>
  Who owns a message after \<open>Submit\<close> or \<open>SubmitStrict\<close>. Unless the send hits a channel that was
  closed in between, the caller has given the message up: it is at the end of the queue, or it went back
  to the pool; \<open>SubmitStrict\<close> reports success exactly in the first case and never writes to the
  log, and what other owners hold is untouched.
\<close>

theorem Submit_transfers_ownership:
  assumes "pool_inv (wp, wd)" "a \<in> live (wd_heap wd)" "a \<notin> owned wp"
    and "Submit id a wp wd = (r, wp', wd') \<or> SubmitStrict a wp wd = (r, wp', wd')" "r \<noteq> Inl SendOnClosed"
  shows "(if a \<in> owned wp' then held wp' = ch_buf (wp_ch wp) @ a # wp_busy wp \<and> wd' = wd \<and> r = Inr ()
          else held wp' = held wp \<and> live (wd_heap wd') = live (wd_heap wd) - {a})
    \<and> (\<forall>b. b \<noteq> a \<longrightarrow> hp_mem (wd_heap wd') b = hp_mem (wd_heap wd) b)
    \<and> (SubmitStrict a wp wd = (r, wp', wd') \<longrightarrow>
         log_state wd' = log_state wd \<and> (a \<in> owned wp' \<longleftrightarrow> r = Inr ()))"
proof -
  have h: "heap_ok (wd_heap wd)" using assms(1) by (simp add: pool_inv_def)
  have n: "a \<notin> set (held wp)" using assms(3) by (simp add: held_owned)
  from assms(4,5) consider
      "wd' = wd" "r = Inr ()" "held wp' = ch_buf (wp_ch wp) @ a # wp_busy wp"
    | "held wp' = held wp" "wd_heap wd' = ReleaseMessage (Some a) (wd_heap wd)"
    using Submit_outcomes SubmitStrict_outcomes by metis
  then show ?thesis
  proof cases
    case 1
    then show ?thesis by (simp add: held_owned [symmetric])
  next
    case 2
    with SubmitStrict_outcomes [of a wp wd r wp' wd'] assms(5) n have "SubmitStrict a wp wd = (r, wp', wd') \<Longrightarrow>
        log_state wd' = log_state wd \<and> r \<noteq> Inr ()" by (auto simp: held_def)
    with 2 n ReleaseMessage_ok [OF h assms(2)] show ?thesis by (simp add: held_owned [symmetric])
  qed
qed

theorem Submit_transfers_ownership_witness:
  "held (fst (snd (Submit id 0 (NewWorkerPool sample_pool_config) sample_world))) = [0]
   \<and> fst (Submit id 0 (NewWorkerPool sample_pool_config) sample_world) = Inr ()"
proof -
  let ?p = "NewWorkerPool sample_pool_config"
  obtain r wp wd where S: "Submit id 0 ?p sample_world = (r, wp, wd)" by (cases "Submit id 0 ?p sample_world")
  have "fst (Submit id 0 ?p sample_world) = Inr ()" by code_simp
  then have r: "r = Inr ()" using S by simp
  have "0 \<in> owned (fst (snd (Submit id 0 ?p sample_world)))" unfolding owned_def by code_simp
  then have o: "0 \<in> owned wp" using S by simp
  have "ch_buf (wp_ch ?p) = []" "wp_busy ?p = []" by (simp_all add: NewWorkerPool_def make_chan_def)
  with Submit_transfers_ownership [of ?p sample_world 0 r wp wd] pool_inv_new [OF sample_world_ok(1)] S r o show ?thesis
    by (simp add: sample_world_ok owned_def)
qed

text \<open>
  C25: a circuit that never closes again. The probe found the sink healthy and closed the circuit, but
  its deferred function has not run yet; if \<open>maxFails\<close> messages fail in this window the circuit opens
  without starting a probe, because \<open>recoveryOnce\<close> has not been renewed. When the deferred
  function has run the circuit is open and there is no probe, and neither a message that is taken
  from then on nor another round changes this.
\<close>

theorem circuit_stuck_open:
  assumes "circuit_ok wp" "wp_recovery wp = RecRunning" "wp_circuitOpen wp" "wp_recoveryStop wp = Some False"
  shows "\<exists>wp'. wp' = recovery_exit ((recordFailure ^^ nat (wp_maxFails wp)) (recovery_round True wp))
    \<and> wp_circuitOpen wp' \<and> wp_recovery wp' = RecNone
    \<and> (\<forall>healthy. recovery_round healthy wp' = wp' \<and> recovery_exit wp' = wp')
    \<and> (\<forall>env a wd r v wd'. safeProcess env a wp' wd = (r, v, wd') \<longrightarrow>
         r = Rejected \<and> wp_circuitOpen v \<and> wp_recovery v = RecNone)"
proof -
  define v where "v = recovery_round True wp"
  have v: "circuit_ok v" "wp_failCount v = 0" "wp_recovery v = RecExiting" "wp_maxFails v = wp_maxFails wp"
    using assms by (auto simp: v_def recovery_round_def recovery_tick_def resetFailures_def circuit_ok_def Let_def)
  have "circuit_ok ((recordFailure ^^ n) v) \<and> wp_failCount ((recordFailure ^^ n) v) = int n
      \<and> wp_maxFails ((recordFailure ^^ n) v) = wp_maxFails wp \<and> wp_recovery ((recordFailure ^^ n) v) = RecExiting" for n
  proof (induction n)
    case (Suc n)
    let ?u = "(recordFailure ^^ n) v"
    show ?case using Suc.IH recordFailure_circuit [of ?u] recordFailure_fields [of ?u] by simp
  qed (use v in simp)
  note u = this [of "nat (wp_maxFails wp)"]
  moreover have "0 < wp_maxFails wp" using assms(1) by (simp add: circuit_ok_def)
  ultimately have "wp_circuitOpen ((recordFailure ^^ nat (wp_maxFails wp)) v)" by (simp add: circuit_ok_def)
  with u have w: "wp_circuitOpen (recovery_exit ((recordFailure ^^ nat (wp_maxFails wp)) v))"
    "wp_recovery (recovery_exit ((recordFailure ^^ nat (wp_maxFails wp)) v)) = RecNone"
    by (simp_all add: recovery_exit_def)
  then show ?thesis unfolding v_def [symmetric] using open_circuit_sticks
    by (auto simp: recovery_round_def recovery_tick_def recovery_exit_def)
qed

theorem circuit_stuck_open_witness:
  "let wp = fst (process_failing [0, 1] (NewWorkerPool sample_pool_config, sample_world))
   in wp_circuitOpen (recovery_exit ((recordFailure ^^ 2) (recovery_round True wp)))"
proof -
  let ?w = "fst (process_failing [0, 1] (NewWorkerPool sample_pool_config, sample_world))"
  have "wp_circuitOpen ?w" "wp_recovery ?w = RecRunning" "wp_recoveryStop ?w = Some False" "wp_maxFails ?w = 2" "wp_failCount ?w = 2"
    by code_simp+
  moreover from this have "circuit_ok ?w" by (simp add: circuit_ok_def)
  ultimately show ?thesis using circuit_stuck_open [of ?w] by (auto simp: Let_def)
qed

text \<open>
  The race between \<open>Submit\<close> and \<open>Shutdown\<close>. A client that read \<open>closed = false\<close> and is then overtaken
  by a shutdown sends on a closed channel. The call panics, and the message is neither queued nor
  released: it stays live with no owner.
\<close>

theorem submit_after_shutdown_panics:
  assumes "\<not> wp_closed wp" "a \<in> live (wd_heap wd)" "a \<notin> owned wp"
  shows "submit_send during a (shutdown_begin wp) wd = (Inl SendOnClosed, shutdown_begin wp, wd)
    \<and> a \<in> live (wd_heap wd) \<and> a \<notin> owned (shutdown_begin wp)
    \<and> fst (Submit during a (shutdown_begin wp) wd) = Inl PoolClosed"
  using assms by (simp add: submit_send_def try_send_def shutdown_begin_def close_chan_def owned_def Submit_def)

theorem submit_after_shutdown_panics_witness:
  "fst (submit_send id 0 (shutdown_begin (NewWorkerPool sample_pool_config)) sample_world) = Inl SendOnClosed"
  using submit_after_shutdown_panics [of "NewWorkerPool sample_pool_config" 0 sample_world id] sample_world_ok(2)
  by (simp add: NewWorkerPool_def owned_def make_chan_def)

end
