(* ===== verification/Sink_Health.thy ===== *)
theory Sink_Health
  imports Sinks Worker_Laws
begin

text \<open>
  \<open>HealthCheck\<close> and \<open>Close\<close> of the sinks (\<open>internal/sink/redis_sink.go\<close>, \<open>kafka_sink.go\<close>), and what the
  recovery probe of a worker pool makes of them. The clients of Redis and Kafka and the network are the environment: what
  they answer is the record \<open>sink_env\<close>. \<open>net.SplitHostPort\<close>, on which every dial depends, is
  modelled.
\<close>

subsection \<open>net.SplitHostPort and the dialer\<close>

text \<open>
  The port follows the last colon. A host that starts with a bracket ends at the first closing one, which must be
  right before that colon; any other host has no colon. No further brackets.
\<close>

definition SplitHostPort :: "bytes \<Rightarrow> (bytes \<times> bytes) option" where
  "SplitHostPort s =
     (if CHR '':'' \<notin> set s then None
      else let port = rev (takeWhile (\<lambda>c. c \<noteq> CHR '':'') (rev s));
               before = take (length s - Suc (length port)) s
           in if hd s = CHR ''[''
              then let host = takeWhile (\<lambda>c. c \<noteq> CHR '']'') (tl s)
                   in if before = CHR ''['' # host @ [CHR '']''] \<and> CHR ''['' \<notin> set (tl s) \<and> CHR '']'' \<notin> set port
                      then Some (host, port) else None
              else if CHR '':'' \<in> set before \<or> CHR ''['' \<in> set s \<or> CHR '']'' \<in> set s then None
              else Some (before, port))"

text \<open>What the third-party clients and the network answer.\<close>

record sink_env =
  se_ping :: "RedisConfig \<Rightarrow> duration \<Rightarrow> bool"           \<comment> \<open>\<open>Ping\<close> succeeds within a timeout\<close>
  se_dial :: "duration \<Rightarrow> bytes \<Rightarrow> bytes \<Rightarrow> bool"        \<comment> \<open>host and port accept a TCP connection within a timeout\<close>
  se_addr :: "bytes list \<Rightarrow> bytes"                       \<comment> \<open>\<open>kafka.TCP(brokers...).String()\<close>\<close>
  se_close :: "bytes \<Rightarrow> bool"                            \<comment> \<open>closing the client of the named sink succeeds\<close>
  se_health :: "bytes \<Rightarrow> bool"                           \<comment> \<open>the health check of a sink of another type\<close>

text \<open>\<open>net.Dialer.DialContext\<close> for TCP: an address that does not split is refused before any packet is sent.\<close>

definition dial_tcp :: "sink_env \<Rightarrow> duration \<Rightarrow> bytes \<Rightarrow> bool" where
  "dial_tcp e timeout address =
     (case (if address = [] then Some ([], ''0'') else SplitHostPort address) of
        None \<Rightarrow> False
      | Some (host, port) \<Rightarrow> se_dial e timeout host port)"

subsection \<open>Health and closing\<close>

definition RedisSink_HealthCheck :: "sink_env \<Rightarrow> RedisSink \<Rightarrow> bool" where
  "RedisSink_HealthCheck e s = se_ping e (rk_client s) (2 * Second)"

definition RedisSink_Close :: "sink_env \<Rightarrow> RedisSink \<Rightarrow> bool" where
  "RedisSink_Close e s = se_close e (rk_name s)"

definition KafkaSink_HealthCheck :: "sink_env \<Rightarrow> KafkaSink \<Rightarrow> bool" where
  "KafkaSink_HealthCheck e s = dial_tcp e (2 * Second) (se_addr e (kk_brokers s))"

definition KafkaSink_Close :: "sink_env \<Rightarrow> KafkaSink \<Rightarrow> bool" where
  "KafkaSink_Close e s = se_close e (kk_name s)"

text \<open>Calls through the interface.\<close>

definition sink_HealthCheck :: "sink_env \<Rightarrow> sink \<Rightarrow> bool" where
  "sink_HealthCheck e s = (case s of Redis r \<Rightarrow> RedisSink_HealthCheck e r | Kafka k \<Rightarrow> KafkaSink_HealthCheck e k | Custom n \<Rightarrow> se_health e n)"

definition sink_Close :: "sink_env \<Rightarrow> sink \<Rightarrow> bool" where
  "sink_Close e s = (case s of Redis r \<Rightarrow> RedisSink_Close e r | Kafka k \<Rightarrow> KafkaSink_Close e k | Custom n \<Rightarrow> se_close e n)"

subsection \<open>Joined addresses do not split\<close>

lemma SplitHostPort_colon: "SplitHostPort s = Some hp \<Longrightarrow> CHR '':'' \<in> set s"
  by (auto simp: SplitHostPort_def split: if_splits)

lemma take_before_port:
  assumes "CHR '':'' \<in> set b"
  defines "port \<equiv> rev (takeWhile (\<lambda>c. c \<noteq> CHR '':'') (rev b))"
  shows "rev (takeWhile (\<lambda>c. c \<noteq> CHR '':'') (rev (a @ b))) = port"
    "\<exists>rest. take (length (a @ b) - Suc (length port)) (a @ b) = a @ rest"
proof -
  show "rev (takeWhile (\<lambda>c. c \<noteq> CHR '':'') (rev (a @ b))) = port"
    using assms(1) by (simp add: port_def takeWhile_append1 [of "CHR '':''"])
  have "dropWhile (\<lambda>c. c \<noteq> CHR '':'') (rev b) \<noteq> []" using assms(1) by (simp add: dropWhile_eq_Nil_conv)
  moreover have "length (takeWhile (\<lambda>c. c \<noteq> CHR '':'') (rev b)) + length (dropWhile (\<lambda>c. c \<noteq> CHR '':'') (rev b)) = length b"
    by (metis length_append length_rev takeWhile_dropWhile_id)
  ultimately have "length port < length b" unfolding port_def by (metis length_greater_0_conv length_rev less_add_same_cancel1)
  then show "\<exists>rest. take (length (a @ b) - Suc (length port)) (a @ b) = a @ rest" by simp
qed

lemma SplitHostPort_joined:
  assumes "SplitHostPort a = Some hp" and "CHR '':'' \<in> set b"
  shows "SplitHostPort (a @ CHR '','' # b) = None"
proof -
  have a: "CHR '':'' \<in> set a" "a \<noteq> []" using SplitHostPort_colon [OF assms(1)] by auto
  let ?s = "a @ CHR '','' # b"
  define port where "port = rev (takeWhile (\<lambda>c. c \<noteq> CHR '':'') (rev (CHR '','' # b)))"
  define before where "before = take (length ?s - Suc (length port)) ?s"
  obtain rest where s: "rev (takeWhile (\<lambda>c. c \<noteq> CHR '':'') (rev ?s)) = port" "before = a @ rest"
    using take_before_port [of "CHR '','' # b" a] assms(2) by (auto simp: port_def before_def)
  note split = SplitHostPort_def [of ?s, unfolded Let_def s(1), folded before_def, unfolded s(2)]
  show ?thesis
  proof (cases "hd a = CHR ''[''")
    case False
    then show ?thesis using a by (simp add: split)
  next
    case True
    let ?n = "length a - Suc (length (rev (takeWhile (\<lambda>c. c \<noteq> CHR '':'') (rev a))))" and ?h = "takeWhile (\<lambda>c. c \<noteq> CHR '']'')"
    have h: "take ?n a = CHR ''['' # ?h (tl a) @ [CHR '']'']"
      using assms(1) a(1) True by (simp add: SplitHostPort_def Let_def split: if_splits)
    have "?n < length a" using a(2) by simp
    moreover have "length (take ?n a) \<le> ?n" by simp
    ultimately have l: "Suc (Suc (length (?h (tl a)))) < length a" by (simp only: h) simp
    have "CHR '']'' \<in> set (take ?n a)" by (simp only: h) simp
    then have "CHR '']'' \<in> set a" by (rule in_set_takeD)
    then have "CHR '']'' \<in> set (tl a)" using True by (cases a) auto
    then have "?h (tl ?s) = ?h (tl a)" using a(2) by (simp add: takeWhile_append1 [of "CHR '']''"])
    moreover have "a @ rest \<noteq> CHR ''['' # ?h (tl a) @ [CHR '']'']"
    proof
      assume "a @ rest = CHR ''['' # ?h (tl a) @ [CHR '']'']"
      then have "length (a @ rest) = Suc (Suc (length (?h (tl a))))" by simp
      with l show False by simp
    qed
    ultimately show ?thesis using True a(2) by (simp add: split)
  qed
qed

lemma joined_colon:
  assumes "as \<noteq> []" and "\<forall>a\<in>set as. SplitHostPort a \<noteq> None"
  shows "CHR '':'' \<in> set (Join '','' as)"
  using assms by (induction "'','' :: bytes" as rule: Join.induct) (auto dest: SplitHostPort_colon)

lemma joined_unsplit:
  assumes "2 \<le> length as" and "\<forall>a\<in>set as. SplitHostPort a \<noteq> None"
  shows "SplitHostPort (Join '','' as) = None" "Join '','' as \<noteq> []"
proof -
  obtain a b as' where as: "as = a # b # as'" using assms(1) by (cases as rule: remdups_adj.cases) auto
  obtain hp where "SplitHostPort a = Some hp" using assms(2) by (auto simp: as)
  then show "SplitHostPort (Join '','' as) = None" using joined_colon [of "b # as'"] assms(2) by (simp add: as SplitHostPort_joined)
qed (use assms(1) in \<open>cases as rule: remdups_adj.cases; simp\<close>)

text \<open>With one broker the probe dials it.\<close>

lemma KafkaSink_HealthCheck_single:
  "SplitHostPort (se_addr e (kk_brokers k)) = Some (host, port) \<Longrightarrow> KafkaSink_HealthCheck e k = se_dial e (2 * Second) host port"
  using SplitHostPort_colon [of "se_addr e (kk_brokers k)" "(host, port)"] by (auto simp: KafkaSink_HealthCheck_def dial_tcp_def)

subsection \<open>A pool in front of Kafka\<close>

text \<open>
  The goroutines of such a pool, at the grain at which the circuit matters. The set holds the messages whose worker has
  read the circuit closed and will now try to send; the others are refused when their worker reads it open.
  The environment answers every probe as it likes, only the text of the brokers' address stays the same.
\<close>

inductive kafka_step :: "(bytes list \<Rightarrow> bytes) \<Rightarrow> KafkaSink \<Rightarrow> WorkerPool \<times> world \<times> addr set \<Rightarrow> WorkerPool \<times> world \<times> addr set \<Rightarrow> bool"
  for address k where
  submit: "Submit id a wp wd = (r, wp', wd') \<Longrightarrow> kafka_step address k (wp, wd, P) (wp', wd', P)"
| late_submit: "submit_send id a wp wd = (r, wp', wd') \<Longrightarrow> kafka_step address k (wp, wd, P) (wp', wd', P)"
| strict: "SubmitStrict a wp wd = (r, wp', wd') \<Longrightarrow> kafka_step address k (wp, wd, P) (wp', wd', P)"
| take: "worker_take wp = Some wp' \<Longrightarrow> kafka_step address k (wp, wd, P) (wp', wd, P)"
| refuse: "a \<in> set (wp_busy wp) \<Longrightarrow> a \<notin> P \<Longrightarrow> wp_circuitOpen wp \<Longrightarrow> worker_finish env a wp wd = (r, wp', wd') \<Longrightarrow>
    kafka_step address k (wp, wd, P) (wp', wd', P)"
| pass: "a \<in> set (wp_busy wp) \<Longrightarrow> \<not> wp_circuitOpen wp \<Longrightarrow> kafka_step address k (wp, wd, P) (wp, wd, insert a P)"
| attempt: "a \<in> P \<Longrightarrow> attempt_loop env max_attempts 0 a wp wd = (r, wp', wd') \<Longrightarrow>
    kafka_step address k (wp, wd, P) (wp'\<lparr>wp_busy := remove1 a (wp_busy wp')\<rparr>, wd', P - {a})"
| round: "se_addr e = address \<Longrightarrow> kafka_step address k (wp, wd, P) (recovery_round (KafkaSink_HealthCheck e k) wp, wd, P)"
| tick: "se_addr e = address \<Longrightarrow> kafka_step address k (wp, wd, P) (recovery_tick (Some (KafkaSink_HealthCheck e k)) wp, wd, P)"
| leave: "kafka_step address k (wp, wd, P) (recovery_exit wp, wd, P)"
| shutdown: "kafka_step address k (wp, wd, P) (shutdown_begin wp, wd, P)"
| report: "kafka_step address k (wp, wd, P) (wp_reportMetrics wp, wd, P)"
| others: "kafka_step address k (wp, wd, P) (wp, wd', P)"

lemma submit_circuit:
  "submit_send id a wp wd = (r, wp', wd') \<Longrightarrow> wp_circuitOpen wp' = wp_circuitOpen wp"
  "Submit id a wp wd = (r, wp', wd') \<Longrightarrow> wp_circuitOpen wp' = wp_circuitOpen wp"
  "SubmitStrict a wp wd = (r, wp', wd') \<Longrightarrow> wp_circuitOpen wp' = wp_circuitOpen wp"
  using handleRejected_frame(3) [of a wp wd wp' wd']
  by (auto simp: Submit_def submit_send_def SubmitStrict_def Let_def split: if_splits prod.splits send_outcome.splits Backpressure.splits)

lemma unhealthy_probe_circuit:
  "wp_circuitOpen wp \<Longrightarrow> wp_circuitOpen (recovery_round False wp)" "wp_circuitOpen wp \<Longrightarrow> wp_circuitOpen (recovery_tick (Some False) wp)"
  by (simp_all add: recovery_round_def recovery_tick_def)

lemma kafka_step_open:
  assumes "kafka_step address k s s'" and "\<And>e. se_addr e = address \<Longrightarrow> \<not> KafkaSink_HealthCheck e k"
    and "wp_circuitOpen (fst s)" "snd (snd s) = {}"
  shows "wp_circuitOpen (fst s') \<and> snd (snd s') = {}"
  using assms
proof (induction rule: kafka_step.induct)
  case (refuse a wp P env wd r wp' wd')
  then show ?case by (auto simp: worker_finish_def split: prod.splits dest: open_circuit_sticks(2))
next
  case (take wp wp' wd P)
  then show ?case by (auto simp: worker_take_def split: if_splits)
qed (auto simp: submit_circuit unhealthy_probe_circuit recovery_exit_def shutdown_begin_def wp_reportMetrics_def)

subsection \<open>Property\<close>

text \<open>
  C15: with two or more brokers the circuit of a Kafka sink never closes again once it is open. The health check dials the text
  of the writer's address, and the text of several brokers, their addresses joined by commas, is not an address: the dialer
  refuses it whatever the brokers would answer. So once the circuit is open and no worker is left that read it closed,
  it stays open under every sequence of steps, and every message a worker takes is rejected unsent.
\<close>

theorem kafka_multi_broker_stuck:
  assumes "address (kk_brokers k) = Join '','' as" and "2 \<le> length as" and "\<forall>a\<in>set as. SplitHostPort a \<noteq> None"
    and "wp_circuitOpen wp" and "(kafka_step address k)\<^sup>*\<^sup>* (wp, wd, {}) (wp', wd', P)"
  shows "(\<forall>e. se_addr e = address \<longrightarrow> \<not> KafkaSink_HealthCheck e k) \<and> wp_circuitOpen wp' \<and> P = {}
    \<and> (\<forall>env a r v w. worker_finish env a wp' wd' = (r, v, w) \<longrightarrow> r = Rejected)"
proof -
  have unhealthy: "\<not> KafkaSink_HealthCheck e k" if "se_addr e = address" for e
    using joined_unsplit [OF assms(2,3)] by (simp add: KafkaSink_HealthCheck_def dial_tcp_def that assms(1))
  have "wp_circuitOpen (fst (wp', wd', P)) \<and> snd (snd (wp', wd', P)) = {}" using assms(5)
  proof (induction rule: rtranclp_induct)
    case (step s s')
    then show ?case using kafka_step_open [OF step.hyps(2) unhealthy] by blast
  qed (use assms(4) in simp)
  then have "wp_circuitOpen wp'" "P = {}" by simp_all
  then show ?thesis using unhealthy open_circuit_sticks(1) by (auto simp: worker_finish_def split: prod.splits)
qed

definition sample_kafka :: KafkaSink where
  "sample_kafka = \<lparr>kk_name = ''kafka'', kk_brokers = [''kafka1:9092'', ''kafka2:9092''], kk_topic = ''events'', kk_batchSize = 100,
     kk_batchTimeout = 100 * Millisecond, kk_compression = Snappy, kk_partitionKey = ''UID''\<rparr>"

text \<open>The brokers of \<open>configs/examples/kafka.yaml\<close>, a network that accepts every connection, and a pool opened by two failing messages.\<close>

theorem kafka_multi_broker_stuck_witness:
  "let e = \<lparr>se_ping = (\<lambda>_ _. True), se_dial = (\<lambda>_ _ _. True), se_addr = Join '','', se_close = (\<lambda>_. True), se_health = (\<lambda>_. True)\<rparr>;
       wp = fst (process_failing [0, 1] (NewWorkerPool sample_pool_config, sample_world))
   in wp_circuitOpen (recovery_round (KafkaSink_HealthCheck e sample_kafka) wp)"
proof -
  let ?e = "\<lparr>se_ping = (\<lambda>_ _. True), se_dial = (\<lambda>_ _ _. True), se_addr = Join '','', se_close = (\<lambda>_. True), se_health = (\<lambda>_. True)\<rparr> :: sink_env"
  let ?s = "process_failing [0, 1] (NewWorkerPool sample_pool_config, sample_world)"
  have o: "wp_circuitOpen (fst ?s)" by code_simp
  have b: "Join '','' (kk_brokers sample_kafka) = Join '','' [''kafka1:9092'', ''kafka2:9092'']" by (simp add: sample_kafka_def)
  have h: "\<forall>a\<in>set [''kafka1:9092'', ''kafka2:9092'']. SplitHostPort a \<noteq> None" by code_simp
  have step: "(kafka_step (Join '','') sample_kafka)\<^sup>*\<^sup>* (fst ?s, snd ?s, {})
      (recovery_round (KafkaSink_HealthCheck ?e sample_kafka) (fst ?s), snd ?s, {})"
    by (intro r_into_rtranclp kafka_step.round) simp
  have l: "2 \<le> length [''kafka1:9092'', ''kafka2:9092'']" by simp
  from kafka_multi_broker_stuck [OF b l h o step] show ?thesis unfolding Let_def by blast
qed

end
