(* ===== verification/Http.thy ===== *)
theory Http
  imports Message
begin

text \<open>
  A request as the handlers of the gateway see it through \<open>gin.Context\<close>: what they read of the request, the
  keys they store for each other, and what they have answered. A handler either ends the chain with an
  answer (\<open>Abort\<close>) or calls \<open>Next\<close>: \<open>step\<close> says which, with what it did to its own state before.
\<close>

datatype ctx_val = VBytes bytes | VStr bytes

text \<open>The body as a reader: nil, read to its end, or broken off with an error after some bytes.\<close>

datatype req_body = NilBody | FullBody bytes | BrokenBody bytes

datatype reply = RUpload UploadResponse | RJson json | RMetrics

record request_ctx =
  cx_Method :: bytes
  cx_Path :: bytes
  cx_Header :: "bytes \<Rightarrow> bytes"          \<comment> \<open>empty when the header is absent\<close>
  cx_Body :: req_body
  cx_Keys :: "bytes \<rightharpoonup> ctx_val"
  cx_OutHeader :: "bytes \<rightharpoonup> bytes"
  cx_Status :: int
  cx_Replies :: "reply list"
  cx_Aborted :: bool

type_synonym 's step = "'s \<Rightarrow> request_ctx \<Rightarrow> bool \<times> 's \<times> request_ctx"

definition new_ctx :: "bytes \<Rightarrow> bytes \<Rightarrow> (bytes \<Rightarrow> bytes) \<Rightarrow> req_body \<Rightarrow> request_ctx" where
  "new_ctx meth path hdr body =
     \<lparr>cx_Method = meth, cx_Path = path, cx_Header = hdr, cx_Body = body, cx_Keys = Map.empty, cx_OutHeader = Map.empty,
      cx_Status = 200, cx_Replies = [], cx_Aborted = False\<rparr>"

definition ctx_set :: "bytes \<Rightarrow> ctx_val \<Rightarrow> request_ctx \<Rightarrow> request_ctx" where
  "ctx_set k v c = c\<lparr>cx_Keys := (cx_Keys c)(k \<mapsto> v)\<rparr>"

definition answer :: "int \<Rightarrow> reply \<Rightarrow> request_ctx \<Rightarrow> request_ctx" where
  "answer code r c = c\<lparr>cx_Status := code, cx_Replies := cx_Replies c @ [r]\<rparr>"

definition response :: "int \<Rightarrow> bytes \<Rightarrow> reply" where
  "response code msg = RUpload \<lparr>resp_Code = code, resp_Message = msg, resp_RequestID = [], resp_TraceID = []\<rparr>"

text \<open>\<open>c.JSON\<close> of an error and \<open>c.Abort\<close>, or \<open>c.AbortWithStatusJSON\<close>.\<close>

definition refuse :: "int \<Rightarrow> bytes \<Rightarrow> request_ctx \<Rightarrow> request_ctx" where
  "refuse code msg c = (answer code (response code msg) c)\<lparr>cx_Aborted := True\<rparr>"

text \<open>\<open>GetString\<close>: empty unless the key holds a string.\<close>

definition ctx_string :: "bytes \<Rightarrow> request_ctx \<Rightarrow> bytes" where
  "ctx_string k c = (case cx_Keys c k of Some (VStr s) \<Rightarrow> s | _ \<Rightarrow> [])"

lemma ctx_set_keys [simp]: "cx_Keys (ctx_set k v c) = (cx_Keys c)(k \<mapsto> v)"
  and ctx_set_frame [simp]: "cx_Method (ctx_set k v c) = cx_Method c" "cx_Path (ctx_set k v c) = cx_Path c"
    "cx_Header (ctx_set k v c) = cx_Header c" "cx_Body (ctx_set k v c) = cx_Body c"
    "cx_Status (ctx_set k v c) = cx_Status c" "cx_Replies (ctx_set k v c) = cx_Replies c"
    "cx_Aborted (ctx_set k v c) = cx_Aborted c" "cx_OutHeader (ctx_set k v c) = cx_OutHeader c"
  by (simp_all add: ctx_set_def)

lemma refuse_fields [simp]:
  "cx_Status (refuse code msg c) = code" "cx_Replies (refuse code msg c) = cx_Replies c @ [response code msg]"
  "cx_Aborted (refuse code msg c)" "cx_Keys (refuse code msg c) = cx_Keys c" "cx_Header (refuse code msg c) = cx_Header c"
  by (simp_all add: refuse_def answer_def)

lemma answer_fields [simp]:
  "cx_Status (answer code r c) = code" "cx_Replies (answer code r c) = cx_Replies c @ [r]"
  "cx_Aborted (answer code r c) = cx_Aborted c" "cx_Keys (answer code r c) = cx_Keys c" "cx_Header (answer code r c) = cx_Header c"
  by (simp_all add: answer_def)

lemma new_ctx_fields [simp]:
  "cx_Keys (new_ctx meth path hdr body) = Map.empty" "cx_Header (new_ctx meth path hdr body) = hdr"
  "cx_Body (new_ctx meth path hdr body) = body" "cx_Status (new_ctx meth path hdr body) = 200"
  "cx_Replies (new_ctx meth path hdr body) = []" "\<not> cx_Aborted (new_ctx meth path hdr body)"
  by (simp_all add: new_ctx_def)

subsection \<open>Chains of handlers\<close>

text \<open>
  A handler gets \<open>c.Next()\<close> as a function: running it runs the handlers that follow. \<open>handler\<close> makes one of a
  step. How the framework runs a chain is an argument \<open>serve\<close> of what is said about whole routes; what is relied
  on is its documented behaviour: the handlers run in the order they were registered, each reaching the
  next by calling \<open>Next\<close>, and an aborted request reaches no further handler.
\<close>

type_synonym 's handler = "('s \<times> request_ctx \<Rightarrow> 's \<times> request_ctx) \<Rightarrow> 's \<times> request_ctx \<Rightarrow> 's \<times> request_ctx"

definition handler :: "'s step \<Rightarrow> 's handler" where
  "handler step next sc =
     (case step (fst sc) (snd sc) of (True, s, c) \<Rightarrow> next (s, c) | (False, s, c) \<Rightarrow> (s, c))"

definition serves_in_order :: "('s handler list \<Rightarrow> 's \<times> request_ctx \<Rightarrow> 's \<times> request_ctx) \<Rightarrow> bool" where
  "serves_in_order serve \<longleftrightarrow> (\<forall>sc. serve [] sc = sc) \<and> (\<forall>h hs sc. serve (h # hs) sc = h (serve hs) sc)"

fun serve_chain :: "'s handler list \<Rightarrow> 's \<times> request_ctx \<Rightarrow> 's \<times> request_ctx" where
  "serve_chain [] sc = sc"
| "serve_chain (h # hs) sc = h (serve_chain hs) sc"

lemma serves_in_order_chain: "serves_in_order serve_chain"
  by (simp add: serves_in_order_def)

lemma serves_unique: "serves_in_order serve \<Longrightarrow> serve = serve_chain"
proof (intro ext)
  fix hs :: "'a handler list" and sc
  assume s: "serves_in_order serve"
  then show "serve hs sc = serve_chain hs sc"
  proof (induction hs arbitrary: sc)
    case (Cons h hs)
    from Cons have "serve hs = serve_chain hs" by blast
    moreover from s have "serve (h # hs) sc = h (serve hs) sc" unfolding serves_in_order_def by blast
    ultimately show ?case by simp
  qed (simp add: serves_in_order_def del: split_paired_All)
qed

end
