(* ===== verification/Sha256.thy ===== *)
theory Sha256
  imports Go_Strings
begin

text \<open>
  The packages \<open>crypto/sha256\<close>, \<open>crypto/hmac\<close> and \<open>encoding/hex\<close> as the gateway and its example client use
  them: the hash of FIPS 180-4 over 32-bit words, the keyed hash of FIPS 198-1, and hexadecimal text.
\<close>

unbundle bit_operations_syntax

subsection \<open>SHA-256\<close>

type_synonym w32 = "32 word"

definition sha_k :: "w32 list" where
  "sha_k =
     [1116352408, 1899447441, 3049323471, 3921009573, 961987163, 1508970993, 2453635748, 2870763221,
      3624381080, 310598401, 607225278, 1426881987, 1925078388, 2162078206, 2614888103, 3248222580,
      3835390401, 4022224774, 264347078, 604807628, 770255983, 1249150122, 1555081692, 1996064986,
      2554220882, 2821834349, 2952996808, 3210313671, 3336571891, 3584528711, 113926993, 338241895,
      666307205, 773529912, 1294757372, 1396182291, 1695183700, 1986661051, 2177026350, 2456956037,
      2730485921, 2820302411, 3259730800, 3345764771, 3516065817, 3600352804, 4094571909, 275423344,
      430227734, 506948616, 659060556, 883997877, 958139571, 1322822218, 1537002063, 1747873779,
      1955562222, 2024104815, 2227730452, 2361852424, 2428436474, 2756734187, 3204031479, 3329325298]"

type_synonym sha_state = "w32 \<times> w32 \<times> w32 \<times> w32 \<times> w32 \<times> w32 \<times> w32 \<times> w32"

definition sha_init :: sha_state where
  "sha_init =
     (1779033703, 3144134277, 1013904242, 2773480762, 1359893119, 2600822924, 528734635, 1541459225)"

text \<open>
  The constants are what they are meant to be: the first 32 bits of the fractions of the cube roots of the first 64 primes, and of the
  square roots of the first eight.
\<close>

definition first_primes :: "nat list" where
  "first_primes =
     [2, 3, 5, 7, 11, 13, 17, 19, 23, 29, 31, 37, 41, 43, 47, 53, 59, 61, 67, 71, 73, 79, 83, 89, 97,
      101, 103, 107, 109, 113, 127, 131, 137, 139, 149, 151, 157, 163, 167, 173, 179, 181, 191, 193,
      197, 199, 211, 223, 227, 229, 233, 239, 241, 251, 257, 263, 269, 271, 277, 281, 283, 293, 307,
      311]"

definition root_frac :: "nat \<Rightarrow> nat \<Rightarrow> nat \<Rightarrow> bool" where
  "root_frac n p k =
     (let x = length (filter (\<lambda>i. i ^ n \<le> p) [1, 2, 3, 4, 5, 6]) * 2 ^ 32 + k in x ^ n \<le> p * 2 ^ (32 * n) \<and> p * 2 ^ (32 * n) < (x + 1) ^ n)"

lemma sha_k_cube_roots: "list_all2 (\<lambda>p k. root_frac 3 p (unat k)) first_primes sha_k"
  by (simp add: sha_k_def first_primes_def root_frac_def)

lemma sha_init_square_roots:
  "case sha_init of (a, b, c, d, e, f, g, h) \<Rightarrow> list_all2 (\<lambda>p k. root_frac 2 p (unat k)) (take 8 first_primes) [a, b, c, d, e, f, g, h]"
  by (simp add: sha_init_def first_primes_def root_frac_def)

definition word_of_bytes :: "bytes \<Rightarrow> w32" where
  "word_of_bytes s = foldl (\<lambda>w c. push_bit 8 w OR word_of_nat (of_char c)) 0 s"

definition bytes_of_word :: "w32 \<Rightarrow> bytes" where
  "bytes_of_word w = map (\<lambda>k. char_of (unat (drop_bit k w AND 0xFF))) [24, 16, 8, 0]"

text \<open>The message schedule: the sixteen words of the block, then words from those before; newest first.\<close>

definition schedule_next :: "w32 list \<Rightarrow> w32" where
  "schedule_next ws =
     (let w2 = ws ! 1; w7 = ws ! 6; w15 = ws ! 14; w16 = ws ! 15;
          s0 = word_rotr 7 w15 XOR word_rotr 18 w15 XOR drop_bit 3 w15;
          s1 = word_rotr 17 w2 XOR word_rotr 19 w2 XOR drop_bit 10 w2
      in s1 + w7 + s0 + w16)"

fun schedule :: "nat \<Rightarrow> w32 list \<Rightarrow> w32 list" where
  "schedule 0 ws = ws"
| "schedule (Suc n) ws = schedule n (schedule_next ws # ws)"

fun chunks :: "nat \<Rightarrow> nat \<Rightarrow> 'a list \<Rightarrow> 'a list list" where
  "chunks 0 n xs = []"
| "chunks (Suc k) n xs = take n xs # chunks k n (drop n xs)"

definition block_words :: "bytes \<Rightarrow> w32 list" where
  "block_words b = rev (schedule 48 (rev (map word_of_bytes (chunks 16 4 b))))"

definition sha_round :: "sha_state \<Rightarrow> w32 \<times> w32 \<Rightarrow> sha_state" where
  "sha_round st kw =
     (case st of (a, b, c, d, e, f, g, h) \<Rightarrow>
        (let t1 = h + (word_rotr 6 e XOR word_rotr 11 e XOR word_rotr 25 e) + ((e AND f) XOR (NOT e AND g)) + fst kw + snd kw;
             t2 = (word_rotr 2 a XOR word_rotr 13 a XOR word_rotr 22 a) + ((a AND b) XOR (a AND c) XOR (b AND c))
         in (t1 + t2, a, b, c, d + t1, e, f, g)))"

definition sha_block :: "sha_state \<Rightarrow> bytes \<Rightarrow> sha_state" where
  "sha_block st b =
     (case (st, foldl sha_round st (zip sha_k (block_words b))) of
        ((a, b, c, d, e, f, g, h), (a', b', c', d', e', f', g', h')) \<Rightarrow>
          (a + a', b + b', c + c', d + d', e + e', f + f', g + g', h + h'))"

definition be64 :: "nat \<Rightarrow> bytes" where
  "be64 n = map (\<lambda>i. char_of (n div 256 ^ i mod 256)) (rev [0..<8])"

definition sha_pad :: "bytes \<Rightarrow> bytes" where
  "sha_pad s = s @ CHR 0x80 # replicate ((119 - length s mod 64) mod 64) (CHR 0x00) @ be64 (8 * length s)"

definition Sum256 :: "bytes \<Rightarrow> bytes" where
  "Sum256 s =
     (let p = sha_pad s
      in case foldl sha_block sha_init (chunks (length p div 64) 64 p) of
           (a, b, c, d, e, f, g, h) \<Rightarrow> concat (map bytes_of_word [a, b, c, d, e, f, g, h]))"

lemma length_bytes_of_word [simp]: "length (bytes_of_word w) = 4"
  by (simp add: bytes_of_word_def)

lemma length_Sum256: "length (Sum256 s) = 32"
  by (simp add: Sum256_def Let_def split: prod.split)

lemma sha_pad_blocks: "64 dvd length (sha_pad s)"
proof -
  define q r where "q = length s div 64" and "r = length s mod 64"
  have s: "length s = 64 * q + r" and r: "r < 64" by (simp_all add: q_def r_def)
  have "(119 - r) mod 64 = (if r \<le> 55 then 55 - r else 119 - r)"
    using r by (simp add: mod_if)
  with s r have "length s + 1 + (119 - r) mod 64 + 8 = 64 * (if r \<le> 55 then q + 1 else q + 2)" by simp
  then have "length (sha_pad s) = 64 * (if r \<le> 55 then q + 1 else q + 2)"
    unfolding sha_pad_def be64_def r_def by simp
  then show ?thesis by simp
qed

subsection \<open>HMAC\<close>

definition xor_byte :: "nat \<Rightarrow> char \<Rightarrow> char" where
  "xor_byte n c = char_of (of_char c XOR n)"

definition hmac_key :: "bytes \<Rightarrow> bytes" where
  "hmac_key k = (let k = (if length k > 64 then Sum256 k else k) in k @ replicate (64 - length k) (CHR 0x00))"

definition HMAC :: "bytes \<Rightarrow> bytes \<Rightarrow> bytes" where
  "HMAC key s =
     (let k = hmac_key key
      in Sum256 (map (xor_byte 0x5C) k @ Sum256 (map (xor_byte 0x36) k @ s)))"

lemma length_HMAC [simp]: "length (HMAC k s) = 32"
  by (simp add: HMAC_def Let_def length_Sum256)

subsection \<open>Hexadecimal text\<close>

definition hex_char :: "nat \<Rightarrow> char" where
  "hex_char n = char_of (if n < 10 then 48 + n else 87 + n)"

definition hex_val :: "char \<Rightarrow> nat option" where
  "hex_val c =
     (let n = of_char c
      in if 48 \<le> n \<and> n \<le> 57 then Some (n - 48)
         else if 97 \<le> n \<and> n \<le> 102 then Some (n - 87)
         else if 65 \<le> n \<and> n \<le> 70 then Some (n - 55)
         else None)"

fun EncodeToString :: "bytes \<Rightarrow> bytes" where
  "EncodeToString [] = []"
| "EncodeToString (c # s) = hex_char (of_char c div 16) # hex_char (of_char c mod 16) # EncodeToString s"

text \<open>\<open>None\<close> stands for an invalid byte and for an odd length alike.\<close>

fun DecodeString :: "bytes \<Rightarrow> bytes option" where
  "DecodeString [] = Some []"
| "DecodeString [c] = None"
| "DecodeString (a # b # s) =
     (case (hex_val a, hex_val b) of
        (Some x, Some y) \<Rightarrow> map_option (Cons (char_of (16 * x + y))) (DecodeString s)
      | _ \<Rightarrow> None)"

lemma hex_digit_roundtrip [simp]: "n < 16 \<Longrightarrow> hex_val (hex_char n) = Some n"
  by (auto simp: hex_val_def hex_char_def Let_def)

lemma DecodeString_EncodeToString [simp]: "DecodeString (EncodeToString s) = Some s"
proof (induction s)
  case (Cons c s)
  have "of_char c div 16 < (16 :: nat)" using nat_of_char_less_256 [of c] by (intro less_mult_imp_div_less) simp
  with Cons show ?case by simp
qed simp

lemma EncodeToString_Nil [simp]: "EncodeToString s = [] \<longleftrightarrow> s = []"
  by (cases s) simp_all

end
