(* ===== verification/Config.thy ===== *)
theory Config
  imports Dynval
begin

text \<open>
  \<open>internal/config/config.go\<close>: the configuration as YAML is decoded into, its defaults, lookup of a
  project, and the manager that loads, reloads and watches the file. Decoding YAML and watching
  files are third-party packages: the decoder is an argument of \<open>load\<close>, and what the watcher reports
  is the sequence of events the watch loop gets.
\<close>

subsection \<open>Data\<close>

record ServerConfig =
  sv_ListenAddr :: bytes
  sv_ReadTimeout :: duration
  sv_WriteTimeout :: duration
  sv_MaxBodyBytes :: int
  sv_MaxConnsPerIP :: int
  sv_GlobalRateLimit :: int
  sv_AntsPoolSize :: int
  sv_Backpressure :: bytes
  sv_IdleTimeout :: duration
  sv_Env :: bytes

record AuthConfig =
  au_Enabled :: bool
  au_TimestampWindow :: int
  au_NonceTTLSeconds :: int
  au_NonceCacheSize :: int

record PipelineRef =
  pr_Type :: bytes
  pr_Config :: dynmap

record SinkRef =
  sr_Type :: bytes
  sr_Instance :: bytes
  sr_Workers :: int
  sr_ChannelSize :: int
  sr_Config :: dynmap

record SinkInstanceConfig =
  si_Type :: bytes
  si_Workers :: int
  si_ChannelSize :: int
  si_Config :: dynmap

record ProjectConfig =
  pc_Name :: bytes
  pc_Enabled :: bool
  pc_Sinks :: "SinkRef list"
  pc_RateLimit :: int
  pc_MaxBodyBytes :: int
  pc_AuthRequired :: bool
  pc_Pipelines :: "PipelineRef list"

record RedisSinkConfig =
  rs_Addr :: bytes
  rs_Password :: bytes
  rs_DB :: int
  rs_PoolSize :: int
  rs_MinIdleConns :: int
  rs_DialTimeout :: duration
  rs_ReadTimeout :: duration
  rs_WriteTimeout :: duration
  rs_Key :: bytes
  rs_Type :: bytes
  rs_MaxLen :: int

record KafkaSinkConfig =
  ks_Brokers :: "bytes list"
  ks_Topic :: bytes
  ks_PartitionKey :: bytes
  ks_Compression :: bytes
  ks_BatchSize :: int
  ks_BatchTimeout :: duration

record SinksConfig =
  sk_Redis :: RedisSinkConfig
  sk_Kafka :: KafkaSinkConfig

record PipelineConfig =
  pl_MaxDepth :: int

record ConsoleLogConf =
  co_Enabled :: bool
  co_Format :: bytes

record FileLogConf =
  fi_Enabled :: bool
  fi_Dir :: bytes
  fi_Levels :: "bytes list"
  fi_MaxAge :: int

record LogConfig =
  lo_Level :: bytes
  lo_Console :: ConsoleLogConf
  lo_File :: FileLogConf

record MetricsConfig =
  me_Enabled :: bool
  me_Path :: bytes
  me_Port :: int

record PprofConfig =
  pp_Enabled :: bool
  pp_Path :: bytes

record WALConfig =
  wa_Enabled :: bool
  wa_Dir :: bytes
  wa_MaxSegmentBytes :: int
  wa_MaxSegments :: int
  wa_SyncInterval :: duration

record Config =
  cf_Server :: ServerConfig
  cf_Auth :: AuthConfig
  cf_Projects :: "ProjectConfig list"
  cf_Sinks :: SinksConfig
  cf_SinkInstances :: "bytes \<rightharpoonup> SinkInstanceConfig"
  cf_Pipeline :: PipelineConfig
  cf_Log :: LogConfig
  cf_Metrics :: MetricsConfig
  cf_WAL :: WALConfig
  cf_Pprof :: PprofConfig

subsection \<open>Defaults\<close>

definition dflt :: "'a \<Rightarrow> 'a \<Rightarrow> 'a \<Rightarrow> 'a" where
  "dflt zero d x = (if x = zero then d else x)"

definition server_defaults :: "ServerConfig \<Rightarrow> ServerConfig" where
  "server_defaults s =
     s\<lparr>sv_ListenAddr := dflt [] '':8080'' (sv_ListenAddr s),
       sv_ReadTimeout := dflt 0 (3 * Second) (sv_ReadTimeout s),
       sv_WriteTimeout := dflt 0 (5 * Second) (sv_WriteTimeout s),
       sv_MaxBodyBytes := dflt 0 (2 ^ 20) (sv_MaxBodyBytes s),
       sv_AntsPoolSize := dflt 0 10000 (sv_AntsPoolSize s),
       sv_GlobalRateLimit := (if sv_GlobalRateLimit s \<le> 0 then 20000 else sv_GlobalRateLimit s),
       sv_Backpressure := dflt [] ''drop'' (sv_Backpressure s),
       sv_IdleTimeout := dflt 0 (120 * Second) (sv_IdleTimeout s)\<rparr>"

definition auth_defaults :: "AuthConfig \<Rightarrow> AuthConfig" where
  "auth_defaults a =
     a\<lparr>au_TimestampWindow := dflt 0 300 (au_TimestampWindow a),
       au_NonceTTLSeconds := dflt 0 300 (au_NonceTTLSeconds a),
       au_NonceCacheSize := dflt 0 100000 (au_NonceCacheSize a)\<rparr>"

definition wal_defaults :: "WALConfig \<Rightarrow> WALConfig" where
  "wal_defaults w =
     w\<lparr>wa_Dir := dflt [] ''data/wal'' (wa_Dir w),
       wa_MaxSegmentBytes := dflt 0 (64 * 2 ^ 20) (wa_MaxSegmentBytes w),
       wa_MaxSegments := dflt 0 10 (wa_MaxSegments w),
       wa_SyncInterval := dflt 0 (100 * Millisecond) (wa_SyncInterval w)\<rparr>"

definition redis_defaults :: "RedisSinkConfig \<Rightarrow> RedisSinkConfig" where
  "redis_defaults r =
     r\<lparr>rs_MinIdleConns := dflt 0 10 (rs_MinIdleConns r),
       rs_DialTimeout := dflt 0 (5 * Second) (rs_DialTimeout r),
       rs_ReadTimeout := dflt 0 (3 * Second) (rs_ReadTimeout r),
       rs_WriteTimeout := dflt 0 (3 * Second) (rs_WriteTimeout r),
       rs_PoolSize := dflt 0 100 (rs_PoolSize r)\<rparr>"

definition log_defaults :: "LogConfig \<Rightarrow> LogConfig" where
  "log_defaults l = l\<lparr>lo_File := (lo_File l)\<lparr>fi_Dir := dflt [] ''logs'' (fi_Dir (lo_File l))\<rparr>\<rparr>"

definition applyDefaults :: "Config \<Rightarrow> Config" where
  "applyDefaults c =
     c\<lparr>cf_Server := server_defaults (cf_Server c), cf_Auth := auth_defaults (cf_Auth c),
       cf_Log := log_defaults (cf_Log c), cf_WAL := wal_defaults (cf_WAL c),
       cf_Sinks := (cf_Sinks c)\<lparr>sk_Redis := redis_defaults (sk_Redis (cf_Sinks c))\<rparr>\<rparr>"

subsection \<open>The manager\<close>

text \<open>
  A reload callback works on some state of its client and may panic after it has changed part of
  it; the flag says it did.
\<close>

type_synonym 's reload_fn = "Config \<Rightarrow> 's \<Rightarrow> bool \<times> 's"

record 's Manager =
  mg_current :: "Config option"        \<comment> \<open>\<open>atomic.Value\<close>: nothing stored at first\<close>
  mg_path :: bytes
  mg_watching :: bool                  \<comment> \<open>\<open>watcher\<close> is not nil\<close>
  mg_stopped :: bool                   \<comment> \<open>\<open>stopCh\<close> is closed\<close>
  mg_onReload :: "'s reload_fn list"

datatype config_error = EReadFile | EYaml

fun run_callbacks :: "'s reload_fn list \<Rightarrow> Config \<Rightarrow> 's \<Rightarrow> 's" where
  "run_callbacks [] c s = s"
| "run_callbacks (f # fs) c s = run_callbacks fs c (snd (f c s))"

text \<open>\<open>file\<close> is what reading the file returned, \<open>yaml\<close> the decoder.\<close>

definition load :: "(bytes \<Rightarrow> Config option) \<Rightarrow> bytes option \<Rightarrow> 's Manager \<Rightarrow> 's
    \<Rightarrow> (config_error + unit) \<times> 's Manager \<times> 's" where
  "load yaml file m s =
     (case file of
        None \<Rightarrow> (Inl EReadFile, m, s)
      | Some data \<Rightarrow>
          (case yaml data of
             None \<Rightarrow> (Inl EYaml, m, s)
           | Some c \<Rightarrow>
               (let c = applyDefaults c
                in (Inr (), m\<lparr>mg_current := Some c\<rparr>, run_callbacks (mg_onReload m) c s))))"

definition NewManager :: "(bytes \<Rightarrow> Config option) \<Rightarrow> bytes option \<Rightarrow> bytes \<Rightarrow> 's \<Rightarrow> (config_error + 's Manager) \<times> 's" where
  "NewManager yaml file path s =
     (case load yaml file \<lparr>mg_current = None, mg_path = path, mg_watching = False, mg_stopped = False, mg_onReload = []\<rparr> s of
        (Inl e, _, s) \<Rightarrow> (Inl e, s)
      | (Inr _, m, s) \<Rightarrow> (Inr m, s))"

definition OnReload :: "'s reload_fn \<Rightarrow> 's Manager \<Rightarrow> 's Manager" where
  "OnReload f m = m\<lparr>mg_onReload := mg_onReload m @ [f]\<rparr>"

definition Reload :: "(bytes \<Rightarrow> Config option) \<Rightarrow> bytes option \<Rightarrow> 's Manager \<Rightarrow> 's
    \<Rightarrow> (config_error + unit) \<times> 's Manager \<times> 's" where
  "Reload yaml file m s = load yaml file m s"

text \<open>\<open>Watch\<close>: creating the watcher and adding the path may fail.\<close>

definition Watch :: "bool \<Rightarrow> bool \<Rightarrow> 's Manager \<Rightarrow> bool \<times> 's Manager" where
  "Watch created added m =
     (if mg_watching m then (True, m)
      else if \<not> created then (False, m)
      else if \<not> added then (False, m)
      else (True, m\<lparr>mg_watching := True\<rparr>))"

definition Close_manager :: "'s Manager \<Rightarrow> 's Manager" where
  "Close_manager m = m\<lparr>mg_stopped := True\<rparr>"

text \<open>\<open>Get\<close> panics when nothing was loaded.\<close>

definition Get :: "'s Manager \<Rightarrow> Config option" where
  "Get m = mg_current m"

fun find_project :: "bytes \<Rightarrow> ProjectConfig list \<Rightarrow> ProjectConfig option" where
  "find_project name [] = None"
| "find_project name (p # ps) = (if pc_Name p = name \<and> pc_Enabled p then Some p else find_project name ps)"

definition GetProject :: "bytes \<Rightarrow> Config \<Rightarrow> ProjectConfig option" where
  "GetProject name c = find_project name (cf_Projects c)"

subsection \<open>The watch loop\<close>

datatype fs_op = OpCreate | OpWrite | OpRemove | OpRename | OpChmod

text \<open>
  What \<open>select\<close> picked, with the time: the stop channel, an event, a closed event or error channel, an
  error, or the timer. The timer can be picked once its time has come.
\<close>

datatype watch_event = WStop | WEvent "fs_op list" | WEventsClosed | WError | WErrorsClosed | WTimer

record watch_state =
  ws_running :: bool
  ws_timer :: "instant option"
  ws_reloads :: "instant list"         \<comment> \<open>the times of the reloads, latest first\<close>

definition watch_start :: watch_state where
  "watch_start = \<lparr>ws_running = True, ws_timer = None, ws_reloads = []\<rparr>"

definition debounce :: duration where "debounce = 500 * Millisecond"

fun watch_step :: "instant \<Rightarrow> watch_event \<Rightarrow> watch_state \<Rightarrow> watch_state" where
  "watch_step t WStop w = w\<lparr>ws_running := False, ws_timer := None\<rparr>"
| "watch_step t (WEvent ops) w =
     (if OpWrite \<in> set ops \<or> OpCreate \<in> set ops then w\<lparr>ws_timer := Some (t + debounce)\<rparr> else w)"
| "watch_step t WEventsClosed w = w\<lparr>ws_running := False\<rparr>"
| "watch_step t WError w = w"
| "watch_step t WErrorsClosed w = w\<lparr>ws_running := False\<rparr>"
| "watch_step t WTimer w =
     (case ws_timer w of
        None \<Rightarrow> w
      | Some d \<Rightarrow> if d \<le> t then w\<lparr>ws_timer := None, ws_reloads := t # ws_reloads w\<rparr> else w)"

fun watch_loop :: "(instant \<times> watch_event) list \<Rightarrow> watch_state \<Rightarrow> watch_state" where
  "watch_loop [] w = w"
| "watch_loop ((t, e) # es) w = (if ws_running w then watch_loop es (watch_step t e w) else w)"

subsection \<open>Laws\<close>

lemma dflt_dflt [simp]: "d \<noteq> z \<Longrightarrow> dflt z d (dflt z d x) = dflt z d x"
  by (simp add: dflt_def)

lemma dflt_neq [simp]: "d \<noteq> z \<Longrightarrow> dflt z d x \<noteq> z"
  by (simp add: dflt_def)

lemma find_project_eq: "find_project name ps = List.find (\<lambda>p. pc_Name p = name \<and> pc_Enabled p) ps"
  by (induction ps) simp_all

lemma find_project_None: "find_project name ps = None \<longleftrightarrow> (\<forall>p\<in>set ps. pc_Name p = name \<longrightarrow> \<not> pc_Enabled p)"
  by (induction ps) auto

lemma GetProject_Some:
  "GetProject name c = Some p \<Longrightarrow> p \<in> set (cf_Projects c) \<and> pc_Name p = name \<and> pc_Enabled p"
  by (auto simp: GetProject_def find_project_eq find_Some_iff)

lemma run_callbacks_fold: "run_callbacks fs c s = fold (\<lambda>f s. snd (f c s)) fs s"
  by (induction fs arbitrary: s) simp_all

lemma watch_loop_append: "watch_loop (es @ fs) w = watch_loop fs (watch_loop es w)"
proof (induction es arbitrary: w)
  case (Cons e es)
  have "\<not> ws_running w \<Longrightarrow> watch_loop fs w = w" by (cases fs rule: list.exhaust) auto
  with Cons show ?case by (cases e) simp
qed simp

lemma watch_loop_stopped: "\<not> ws_running w \<Longrightarrow> watch_loop es w = w"
  by (cases es) auto

definition is_change :: "watch_event \<Rightarrow> bool" where
  "is_change e \<longleftrightarrow> (case e of WEvent ops \<Rightarrow> OpWrite \<in> set ops \<or> OpCreate \<in> set ops | _ \<Rightarrow> False)"

text \<open>The times at which the file changed, in order.\<close>

definition changes :: "(instant \<times> watch_event) list \<Rightarrow> instant list" where
  "changes es = map fst (filter (is_change \<circ> snd) es)"

definition settled :: "(instant \<times> watch_event) list \<Rightarrow> instant \<Rightarrow> bool" where
  "settled es t \<longleftrightarrow> (\<exists>xs ys. es = xs @ (t, WTimer) # ys \<and> changes xs \<noteq> [] \<and> last (changes xs) + debounce \<le> t)"

lemma settled_snoc: "settled es t \<Longrightarrow> settled (es @ [e]) t"
  by (force simp: settled_def)

lemma watch_invariant:
  fixes es :: "(instant \<times> watch_event) list"
  defines "w \<equiv> watch_loop es watch_start"
  shows "(\<forall>t\<in>set (ws_reloads w). settled es t)
    \<and> (\<forall>d. ws_timer w = Some d \<longrightarrow> ws_running w \<longrightarrow> changes es \<noteq> [] \<and> d = last (changes es) + debounce)
    \<and> length (ws_reloads w) + (if ws_timer w = None then 0 else 1) \<le> length (changes es)"
  unfolding w_def
proof (induction es rule: rev_induct)
  case (snoc e es)
  obtain t ev where e: "e = (t, ev)" by (cases e)
  let ?w = "watch_loop es watch_start"
  have ch: "changes (es @ [e]) = changes es @ (if is_change ev then [t] else [])" by (simp add: changes_def e)
  show ?case
  proof (cases "ws_running ?w")
    case False
    then have "watch_loop (es @ [e]) watch_start = ?w" by (simp add: watch_loop_append watch_loop_stopped)
    with snoc False ch show ?thesis by (auto intro: settled_snoc)
  next
    case True
    then have w: "watch_loop (es @ [e]) watch_start = watch_step t ev ?w" by (simp add: watch_loop_append e)
    show ?thesis
    proof (cases ev)
      case (WEvent ops)
      then show ?thesis using snoc True ch w by (auto simp: is_change_def intro: settled_snoc split: if_splits)
    next
      case WTimer
      have "settled (es @ [e]) t" if "ws_timer ?w = Some d" "d \<le> t" for d
        unfolding settled_def e WTimer using that snoc True by (intro exI [of _ es] exI [of _ "[]"]) auto
      then show ?thesis using snoc True ch w WTimer
        by (auto simp: is_change_def intro: settled_snoc split: option.splits if_splits)
    qed (use snoc True ch w in \<open>auto simp: is_change_def intro: settled_snoc split: if_splits\<close>)
  qed
qed (simp_all add: watch_start_def changes_def)

subsection \<open>Properties\<close>



definition zero_config :: Config where
  "zero_config =
     \<lparr>cf_Server = \<lparr>sv_ListenAddr = [], sv_ReadTimeout = 0, sv_WriteTimeout = 0, sv_MaxBodyBytes = 0, sv_MaxConnsPerIP = 0,
        sv_GlobalRateLimit = 0, sv_AntsPoolSize = 0, sv_Backpressure = [], sv_IdleTimeout = 0, sv_Env = []\<rparr>,
      cf_Auth = \<lparr>au_Enabled = False, au_TimestampWindow = 0, au_NonceTTLSeconds = 0, au_NonceCacheSize = 0\<rparr>,
      cf_Projects = [],
      cf_Sinks = \<lparr>sk_Redis = \<lparr>rs_Addr = [], rs_Password = [], rs_DB = 0, rs_PoolSize = 0, rs_MinIdleConns = 0, rs_DialTimeout = 0,
          rs_ReadTimeout = 0, rs_WriteTimeout = 0, rs_Key = [], rs_Type = [], rs_MaxLen = 0\<rparr>,
        sk_Kafka = \<lparr>ks_Brokers = [], ks_Topic = [], ks_PartitionKey = [], ks_Compression = [], ks_BatchSize = 0, ks_BatchTimeout = 0\<rparr>\<rparr>,
      cf_SinkInstances = Map.empty, cf_Pipeline = \<lparr>pl_MaxDepth = 0\<rparr>,
      cf_Log = \<lparr>lo_Level = [], lo_Console = \<lparr>co_Enabled = False, co_Format = []\<rparr>,
        lo_File = \<lparr>fi_Enabled = False, fi_Dir = [], fi_Levels = [], fi_MaxAge = 0\<rparr>\<rparr>,
      cf_Metrics = \<lparr>me_Enabled = False, me_Path = [], me_Port = 0\<rparr>,
      cf_WAL = \<lparr>wa_Enabled = False, wa_Dir = [], wa_MaxSegmentBytes = 0, wa_MaxSegments = 0, wa_SyncInterval = 0\<rparr>,
      cf_Pprof = \<lparr>pp_Enabled = False, pp_Path = []\<rparr>\<rparr>"


text \<open>
  C28: the watch loop waits until a burst of changes is over. In any sequence of events, at whatever
  times the loop gets to them, a reload happens only when the timer was picked and the last change
  before that is at least 500 ms old; there are no more reloads than changes; and as long as the loop
  runs, a change with no reload since has a timer pending for 500 ms after the last change.
\<close>

theorem watch_debounced:
  "(\<forall>t. t \<in> set (ws_reloads (watch_loop es watch_start)) \<longrightarrow>
      (\<exists>xs ys. es = xs @ (t, WTimer) # ys \<and> changes xs \<noteq> [] \<and> last (changes xs) + 500 * Millisecond \<le> t))
   \<and> length (ws_reloads (watch_loop es watch_start)) \<le> length (changes es)
   \<and> (ws_running (watch_loop (es @ [(t, WEvent [OpWrite])]) watch_start) \<longrightarrow>
        ws_timer (watch_loop (es @ [(t, WEvent [OpWrite])]) watch_start) = Some (t + 500 * Millisecond))"
proof -
  have "watch_loop (es @ [(t, WEvent [OpWrite])]) watch_start =
      (if ws_running (watch_loop es watch_start) then (watch_loop es watch_start)\<lparr>ws_timer := Some (t + debounce)\<rparr>
       else watch_loop es watch_start)"
    by (simp add: watch_loop_append)
  with watch_invariant [of es] show ?thesis by (auto simp: settled_def debounce_def split: if_splits)
qed

theorem watch_debounced_witness:
  "let es = [(0, WEvent [OpWrite]), (100 * Millisecond, WEvent [OpCreate]), (700 * Millisecond, WTimer)]
   in ws_reloads (watch_loop es watch_start) = [700 * Millisecond]
      \<and> (\<exists>xs ys. es = xs @ (700 * Millisecond, WTimer) # ys \<and> last (changes xs) + 500 * Millisecond \<le> 700 * Millisecond)"
proof -
  let ?es = "[(0, WEvent [OpWrite]), (100 * Millisecond, WEvent [OpCreate]), (700 * Millisecond, WTimer)]"
  have r: "ws_reloads (watch_loop ?es watch_start) = [700 * Millisecond]" by code_simp
  then have "700 * Millisecond \<in> set (ws_reloads (watch_loop ?es watch_start))" by simp
  from watch_debounced [THEN conjunct1, rule_format, OF this] r show ?thesis unfolding Let_def by blast
qed

end
