(* ===== verification/Auth.thy ===== *)
theory Auth
  imports Http Sha256 Config
begin

text \<open>
  \<open>internal/auth/auth.go\<close>: the check of the signature headers and the cache of nonces. The clock is an argument,
  once for each \<open>time.Now\<close>. Ranging over a Go map visits it in any order: the cache is an association list that
  each loop visits in the order \<open>sort_key\<close> gives for keys the environment picks.
\<close>

subsection \<open>State\<close>

record AppKeyStore =
  ks_GetSecret :: "bytes \<Rightarrow> unit + bytes"
  ks_IsAuthorized :: "bytes \<Rightarrow> bytes \<Rightarrow> unit + bool"

type_synonym nonce_cache = "(bytes \<times> instant) list"

record Middleware =
  mw_nonceCache :: nonce_cache

definition NewMiddleware :: Middleware where
  "NewMiddleware = \<lparr>mw_nonceCache = []\<rparr>"

record auth_env =
  ae_now :: instant                  \<comment> \<open>when the timestamp is checked\<close>
  ae_consumed :: instant             \<comment> \<open>when the nonce is consumed\<close>
  ae_order :: "nat \<Rightarrow> bytes \<Rightarrow> nat"

subsection \<open>Signatures\<close>

definition computeHMACBytes :: "bytes \<Rightarrow> bytes \<Rightarrow> bytes" where
  "computeHMACBytes secret data = HMAC secret data"

definition computeHMAC :: "bytes \<Rightarrow> bytes \<Rightarrow> bytes \<Rightarrow> bytes \<Rightarrow> bytes" where
  "computeHMAC secret body timestamp nonce =
     (let data = body @ timestamp; data = data @ nonce in EncodeToString (computeHMACBytes secret data))"

definition verifyHMAC :: "bytes \<Rightarrow> bytes \<Rightarrow> bytes \<Rightarrow> bytes \<Rightarrow> bytes \<Rightarrow> bool" where
  "verifyHMAC secret body timestamp nonce signature =
     (if signature = [] then False
      else case DecodeString signature of
        None \<Rightarrow> False
      | Some got \<Rightarrow>
          (let data = []; data = data @ body; data = data @ timestamp; data = data @ nonce
           in computeHMACBytes secret data = got))"

subsection \<open>The nonce cache\<close>

definition nonce_ttl :: "int \<Rightarrow> int" where
  "nonce_ttl ttlSeconds = (if ttlSeconds \<le> 0 then 300 else ttlSeconds)"

definition nonce_max :: "int \<Rightarrow> int" where
  "nonce_max maxNonces = (if maxNonces \<le> 0 then 100000 else maxNonces)"

definition nonce_key :: "bytes \<Rightarrow> bytes \<Rightarrow> bytes" where
  "nonce_key appKey nonce = appKey @ CHR 0x00 # nonce"

text \<open>Deleting what expired; the order of the visit makes no difference here.\<close>

definition purge_expired :: "instant \<Rightarrow> nonce_cache \<Rightarrow> nonce_cache" where
  "purge_expired expireBefore c = filter (\<lambda>(k, seenAt). \<not> seenAt < expireBefore) c"

fun scan_oldest :: "nonce_cache \<Rightarrow> bytes \<times> instant \<Rightarrow> bytes \<times> instant" where
  "scan_oldest [] best = best"
| "scan_oldest ((k, seenAt) # c) (oldestKey, oldestTime) =
     scan_oldest c (if oldestKey = [] \<or> seenAt < oldestTime then (k, seenAt) else (oldestKey, oldestTime))"

definition visit :: "(bytes \<Rightarrow> nat) \<Rightarrow> nonce_cache \<Rightarrow> nonce_cache" where
  "visit rnk c = sort_key (\<lambda>(k, _). rnk k) c"

definition oldest :: "(bytes \<Rightarrow> nat) \<Rightarrow> nonce_cache \<Rightarrow> bytes \<times> instant" where
  "oldest rnk c = scan_oldest (visit rnk c) ([], 0)"

lemma scan_oldest_mem: "scan_oldest c b = b \<or> scan_oldest c b \<in> set c"
  by (induction c b rule: scan_oldest.induct) (auto split: if_splits)

lemma set_visit [simp]: "set (visit rnk c) = set c"
  by (simp add: visit_def)

lemma oldest_mem: "fst (oldest rnk c) \<noteq> [] \<Longrightarrow> oldest rnk c \<in> set c"
  using scan_oldest_mem [of "visit rnk c" "([], 0)"] by (auto simp: oldest_def)

function evict :: "(nat \<Rightarrow> bytes \<Rightarrow> nat) \<Rightarrow> nat \<Rightarrow> int \<Rightarrow> nonce_cache \<Rightarrow> nonce_cache" where
  "evict rnk i maxNonces c =
     (if int (length c) \<ge> maxNonces then
        (let oldestKey = fst (oldest (rnk i) c)
         in if oldestKey = [] then c else evict rnk (Suc i) maxNonces (AList.delete oldestKey c))
      else c)"
  by pat_completeness auto

termination
proof (relation "measure (\<lambda>(_, _, _, c). length c)", goal_cases)
  case (2 rnk i maxNonces c oldestKey)
  then have "oldest (rnk i) c \<in> set c" by (intro oldest_mem) simp
  then have "length (filter (\<lambda>(k, _). oldestKey \<noteq> k) c) < length c"
    using 2 by (intro length_filter_less [of "oldest (rnk i) c"]) (auto simp: case_prod_beta)
  then show ?case by (simp add: AList.delete_eq case_prod_beta)
qed simp

declare evict.simps [simp del]

definition consumeNonce :: "(nat \<Rightarrow> bytes \<Rightarrow> nat) \<Rightarrow> bytes \<Rightarrow> bytes \<Rightarrow> int \<Rightarrow> int \<Rightarrow> instant \<Rightarrow> Middleware \<Rightarrow> bool \<times> Middleware" where
  "consumeNonce rnk appKey nonce ttlSeconds maxNonces now m =
     (let ttlSeconds = nonce_ttl ttlSeconds; maxNonces = nonce_max maxNonces;
          key = nonce_key appKey nonce;
          expireBefore = now + wrap64 (wrap64 (- ttlSeconds) * Second);
          c = purge_expired expireBefore (mw_nonceCache m)
      in if map_of c key \<noteq> None then (True, m\<lparr>mw_nonceCache := c\<rparr>)
         else (False, m\<lparr>mw_nonceCache := AList.update key now (evict rnk 0 maxNonces c)\<rparr>))"

subsection \<open>The handler\<close>

definition rawBodyFromContext :: "request_ctx \<Rightarrow> bytes option \<times> request_ctx" where
  "rawBodyFromContext c =
     (case cx_Keys c ''raw_body'' of
        Some (VBytes raw) \<Rightarrow> (Some raw, c)
      | Some (VStr _) \<Rightarrow> (None, c)
      | None \<Rightarrow>
          (case cx_Body c of
             NilBody \<Rightarrow> (None, c)
           | BrokenBody _ \<Rightarrow> (None, c)
           | FullBody raw \<Rightarrow> (Some raw, ctx_set ''raw_body'' (VBytes raw) (c\<lparr>cx_Body := FullBody raw\<rparr>))))"

definition authorizeProject :: "AppKeyStore \<Rightarrow> bytes \<Rightarrow> bytes \<Rightarrow> bool" where
  "authorizeProject store appKey project =
     (case ks_IsAuthorized store appKey project of Inl _ \<Rightarrow> False | Inr ok \<Rightarrow> ok)"

definition writeAuthError :: "int \<Rightarrow> bytes \<Rightarrow> request_ctx \<Rightarrow> request_ctx" where
  "writeAuthError code msg c = answer code (response code msg) c"

definition abs64 :: "int \<Rightarrow> int" where
  "abs64 x = (if x < 0 then wrap64 (- x) else x)"

text \<open>The project of a body, decoded into a struct with that field alone.\<close>

definition peek_project :: "bytes \<Rightarrow> bytes option" where
  "peek_project body = unmarshal_struct [(''project'', str_field (\<lambda>s _. s))] [] body"

definition Unix :: "instant \<Rightarrow> int" where
  "Unix t = t div Second"

definition denied :: "int \<Rightarrow> bytes \<Rightarrow> 's \<Rightarrow> request_ctx \<Rightarrow> bool \<times> 's \<times> request_ctx" where
  "denied code msg m c = (False, m, (writeAuthError code msg c)\<lparr>cx_Aborted := True\<rparr>)"

text \<open>The checks from the app key to the project's authorization, in order: the first that fails gives the answer.\<close>

definition check_request :: "AuthConfig \<Rightarrow> AppKeyStore \<Rightarrow> instant \<Rightarrow> bytes \<Rightarrow> request_ctx \<Rightarrow> (int \<times> bytes) + unit" where
  "check_request authCfg store now bodyBytes c =
     (let appKey = cx_Header c ''X-App-Key''; timestampStr = cx_Header c ''X-Timestamp'';
          nonce = cx_Header c ''X-Nonce''; signature = cx_Header c ''X-Signature''
      in if appKey = [] then Inl (401, ''missing X-App-Key header'')
         else case ks_GetSecret store appKey of
           Inl _ \<Rightarrow> Inl (401, ''invalid app key'')
         | Inr secret \<Rightarrow>
             if secret = [] then Inl (401, ''invalid app key'')
             else case ParseInt64 timestampStr of
               None \<Rightarrow> Inl (401, ''invalid timestamp'')
             | Some ts \<Rightarrow>
                 if abs64 (wrap64 (Unix now - ts)) > au_TimestampWindow authCfg then Inl (401, ''timestamp out of window'')
                 else if nonce = [] then Inl (401, ''missing nonce'')
                 else if \<not> verifyHMAC secret bodyBytes timestampStr nonce signature then Inl (401, ''signature mismatch'')
                 else (case peek_project bodyBytes of
                         None \<Rightarrow> Inr ()
                       | Some project \<Rightarrow>
                           if project \<noteq> [] \<and> \<not> authorizeProject store appKey project
                           then Inl (403, ''app key is not authorized for project'') else Inr ()))"

definition Handler :: "AuthConfig \<Rightarrow> AppKeyStore \<Rightarrow> auth_env \<Rightarrow> Middleware step" where
  "Handler authCfg store env m c =
     (if \<not> au_Enabled authCfg then (True, m, c)
      else case rawBodyFromContext c of
        (None, c) \<Rightarrow> denied 400 ''request body not available'' m c
      | (Some bodyBytes, c) \<Rightarrow>
          (case check_request authCfg store (ae_now env) bodyBytes c of
             Inl (code, msg) \<Rightarrow> denied code msg m c
           | Inr _ \<Rightarrow>
               (let appKey = cx_Header c ''X-App-Key''; nonce = cx_Header c ''X-Nonce''
                in case consumeNonce (ae_order env) appKey nonce (au_NonceTTLSeconds authCfg) (au_NonceCacheSize authCfg)
                          (ae_consumed env) m of
                     (True, m) \<Rightarrow> denied 401 ''nonce already used'' m c
                   | (False, m) \<Rightarrow> (True, m, ctx_set ''app_key'' (VStr appKey) c))))"

end
