(* ===== verification/RateLimit.thy ===== *)
theory RateLimit
  imports Http Metrics Config
begin

text \<open>
  \<open>internal/ratelimit/ratelimit.go\<close>: one limiter for all requests and one per project. \<open>golang.org/x/time/rate\<close> is a
  third-party package: its limiter is a type variable and its operations the fields of \<open>limiter_api\<close>, an
  argument of the model; \<open>limiter_laws\<close> states what its documentation says of the two parameters of a limiter.
  A \<open>*rate.Limiter\<close> is an index into the list of the limiters made so far.
\<close>

subsection \<open>The limiter\<close>

record 'l limiter_api =
  lm_NewLimiter :: "float64 \<Rightarrow> int \<Rightarrow> 'l"
  lm_SetLimit :: "float64 \<Rightarrow> 'l \<Rightarrow> 'l"
  lm_SetBurst :: "int \<Rightarrow> 'l \<Rightarrow> 'l"
  lm_Allow :: "instant \<Rightarrow> 'l \<Rightarrow> bool \<times> 'l"
  lm_Limit :: "'l \<Rightarrow> float64"
  lm_Burst :: "'l \<Rightarrow> int"

definition limiter_laws :: "'l limiter_api \<Rightarrow> bool" where
  "limiter_laws api \<longleftrightarrow>
     (\<forall>r b. lm_Limit api (lm_NewLimiter api r b) = r \<and> lm_Burst api (lm_NewLimiter api r b) = b)
     \<and> (\<forall>r l. lm_Limit api (lm_SetLimit api r l) = r \<and> lm_Burst api (lm_SetLimit api r l) = lm_Burst api l)
     \<and> (\<forall>b l. lm_Burst api (lm_SetBurst api b l) = b \<and> lm_Limit api (lm_SetBurst api b l) = lm_Limit api l)
     \<and> (\<forall>t l. lm_Limit api (snd (lm_Allow api t l)) = lm_Limit api l \<and> lm_Burst api (snd (lm_Allow api t l)) = lm_Burst api l)"

subsection \<open>State\<close>

record projectLimiter =
  pl_qps :: int
  pl_lim :: nat

record 'l rl_Manager =
  rl_lims :: "'l list"
  rl_projectRL :: "bytes \<rightharpoonup> projectLimiter"
  rl_globalRL :: nat

definition normalizeQPS :: "int \<Rightarrow> int" where
  "normalizeQPS qps = (if qps \<le> 0 then 1000 else qps)"

definition newLimiter :: "'l limiter_api \<Rightarrow> int \<Rightarrow> 'l" where
  "newLimiter api qps = (let qps = normalizeQPS qps in lm_NewLimiter api (float_of_int qps) (wrap64 (qps * 2)))"

definition on_lim :: "('l \<Rightarrow> 'l) \<Rightarrow> nat \<Rightarrow> 'l rl_Manager \<Rightarrow> 'l rl_Manager" where
  "on_lim f i m = m\<lparr>rl_lims := (rl_lims m)[i := f (rl_lims m ! i)]\<rparr>"

definition updateGlobalLimiter :: "'l limiter_api \<Rightarrow> int \<Rightarrow> 'l rl_Manager \<Rightarrow> 'l rl_Manager" where
  "updateGlobalLimiter api qps m =
     (let qps = normalizeQPS qps;
          m = on_lim (lm_SetLimit api (float_of_int qps)) (rl_globalRL m) m
      in on_lim (lm_SetBurst api (wrap64 (qps * 2))) (rl_globalRL m) m)"

text \<open>\<open>NewManager\<close>, with the callback it registers for reloads.\<close>

definition rl_on_reload :: "'l limiter_api \<Rightarrow> 'l rl_Manager reload_fn" where
  "rl_on_reload api c m = (False, updateGlobalLimiter api (sv_GlobalRateLimit (cf_Server c)) m)"

definition rl_NewManager :: "'l limiter_api \<Rightarrow> Config \<Rightarrow> 'l rl_Manager Manager \<Rightarrow> 'l rl_Manager \<times> 'l rl_Manager Manager" where
  "rl_NewManager api c cfgMgr =
     (\<lparr>rl_lims = [newLimiter api (sv_GlobalRateLimit (cf_Server c))], rl_projectRL = Map.empty, rl_globalRL = 0\<rparr>,
      OnReload (rl_on_reload api) cfgMgr)"

subsection \<open>The limiter of a project\<close>

text \<open>The section under the write lock.\<close>

definition locked_limiter :: "'l limiter_api \<Rightarrow> bytes \<Rightarrow> int \<Rightarrow> 'l rl_Manager \<Rightarrow> nat \<times> 'l rl_Manager" where
  "locked_limiter api project qps m =
     (case rl_projectRL m project of
        Some entry \<Rightarrow>
          if pl_qps entry \<noteq> qps then
            (let m = m\<lparr>rl_projectRL := (rl_projectRL m)(project \<mapsto> entry\<lparr>pl_qps := qps\<rparr>)\<rparr>;
                 m = on_lim (lm_SetLimit api (float_of_int qps)) (pl_lim entry) m;
                 m = on_lim (lm_SetBurst api (wrap64 (qps * 2))) (pl_lim entry) m
             in (pl_lim entry, m))
          else (pl_lim entry, m)
      | None \<Rightarrow>
          (let lm = length (rl_lims m);
               m = m\<lparr>rl_lims := rl_lims m @ [newLimiter api qps]\<rparr>
           in (lm, m\<lparr>rl_projectRL := (rl_projectRL m)(project \<mapsto> \<lparr>pl_qps = qps, pl_lim = lm\<rparr>)\<rparr>)))"

text \<open>
  The whole call: the entry is looked up under the read lock; its rate is read after that lock was given
  back, so other goroutines may have run in between (\<open>d1\<close>), and again before the write lock is taken (\<open>d2\<close>). Entries
  are shared objects that stay in the map, so the entry found is the one the project has after \<open>d1\<close>.
\<close>

definition GetOrCreateLimiter :: "'l limiter_api \<Rightarrow> ('l rl_Manager \<Rightarrow> 'l rl_Manager) \<Rightarrow> ('l rl_Manager \<Rightarrow> 'l rl_Manager)
    \<Rightarrow> bytes \<Rightarrow> int \<Rightarrow> 'l rl_Manager \<Rightarrow> nat \<times> 'l rl_Manager" where
  "GetOrCreateLimiter api d1 d2 project qps m =
     (let qps = normalizeQPS qps; found = (rl_projectRL m project \<noteq> None); m = d1 m
      in case (if found then rl_projectRL m project else None) of
           Some entry \<Rightarrow> if pl_qps entry = qps then (pl_lim entry, m) else locked_limiter api project qps (d2 m)
         | None \<Rightarrow> locked_limiter api project qps (d2 m))"

subsection \<open>The middlewares\<close>

definition allow :: "'l limiter_api \<Rightarrow> instant \<Rightarrow> nat \<Rightarrow> 'l rl_Manager \<Rightarrow> bool \<times> 'l rl_Manager" where
  "allow api now i m =
     (case lm_Allow api now (rl_lims m ! i) of (ok, l) \<Rightarrow> (ok, m\<lparr>rl_lims := (rl_lims m)[i := l]\<rparr>))"

definition GlobalLimit :: "'l limiter_api \<Rightarrow> instant \<Rightarrow> 'l rl_Manager \<Rightarrow> bool \<times> 'l rl_Manager" where
  "GlobalLimit api now m = allow api now (rl_globalRL m) m"

type_synonym 'l rl_state = "'l rl_Manager \<times> metric_call list"

definition GlobalMiddleware :: "'l limiter_api \<Rightarrow> instant \<Rightarrow> 'l rl_state step" where
  "GlobalMiddleware api now s c =
     (case s of (m, mt) \<Rightarrow>
        (case allow api now (rl_globalRL m) m of
           (False, m) \<Rightarrow> (False, (m, mt @ [Inc RatelimitRejectsTotal [''global'', []]]), refuse 429 ''global rate limit exceeded'' c)
         | (True, m) \<Rightarrow> (True, (m, mt), c)))"

definition ProjectMiddleware :: "'l limiter_api \<Rightarrow> Config \<Rightarrow> instant \<Rightarrow> 'l rl_state step" where
  "ProjectMiddleware api cfg now s c =
     (case cx_Keys c ''project_name'' of
        None \<Rightarrow> (True, s, c)
      | Some (VBytes _) \<Rightarrow> (True, s, c)
      | Some (VStr projectName) \<Rightarrow>
          (case GetProject projectName cfg of
             None \<Rightarrow> (True, s, c)
           | Some projCfg \<Rightarrow>
               (case s of (m, mt) \<Rightarrow>
                  (case GetOrCreateLimiter api id id (pc_Name projCfg) (pc_RateLimit projCfg) m of (lm, m) \<Rightarrow>
                     (case allow api now lm m of
                        (False, m) \<Rightarrow> (False, (m, mt @ [Inc RatelimitRejectsTotal [''project'', pc_Name projCfg]]),
                                        refuse 429 ''project rate limit exceeded'' c)
                      | (True, m) \<Rightarrow> (True, (m, mt), c))))))"

subsection \<open>Laws\<close>

text \<open>
  The invariant: the global limiter and those of the projects are different objects that exist, and each one
  has the rate its entry says and twice that as its burst.
\<close>

definition tuned :: "'l limiter_api \<Rightarrow> int \<Rightarrow> 'l \<Rightarrow> bool" where
  "tuned api qps l \<longleftrightarrow> 0 < qps \<and> lm_Limit api l = float_of_int qps \<and> lm_Burst api l = wrap64 (qps * 2)"

definition rl_inv :: "'l limiter_api \<Rightarrow> 'l rl_Manager \<Rightarrow> bool" where
  "rl_inv api m \<longleftrightarrow> rl_globalRL m < length (rl_lims m) \<and> (\<exists>q. tuned api q (rl_lims m ! rl_globalRL m))
     \<and> (\<forall>p e. rl_projectRL m p = Some e \<longrightarrow> pl_lim e < length (rl_lims m) \<and> pl_lim e \<noteq> rl_globalRL m \<and> tuned api (pl_qps e) (rl_lims m ! pl_lim e))
     \<and> (\<forall>p p' e e'. rl_projectRL m p = Some e \<and> rl_projectRL m p' = Some e' \<and> pl_lim e = pl_lim e' \<longrightarrow> p = p')"

text \<open>What other goroutines do to the manager, one critical section or limiter call at a time.\<close>

inductive rl_step :: "'l limiter_api \<Rightarrow> 'l rl_Manager \<Rightarrow> 'l rl_Manager \<Rightarrow> bool" for api where
  reload: "rl_step api m (updateGlobalLimiter api qps m)"
| locked: "rl_step api m (snd (locked_limiter api p (normalizeQPS qps) m))"
| global: "rl_step api m (snd (allow api now (rl_globalRL m) m))"
| project: "rl_projectRL m p = Some e \<Longrightarrow> rl_step api m (snd (allow api now (pl_lim e) m))"

abbreviation rl_steps :: "'l limiter_api \<Rightarrow> 'l rl_Manager \<Rightarrow> 'l rl_Manager \<Rightarrow> bool" where
  "rl_steps api \<equiv> (rl_step api)\<^sup>*\<^sup>*"

text \<open>Entries stay, with their limiter: what a step may do to them is to change the rate.\<close>

definition keeps_limiters :: "'l rl_Manager \<Rightarrow> 'l rl_Manager \<Rightarrow> bool" where
  "keeps_limiters m m' \<longleftrightarrow> rl_globalRL m' = rl_globalRL m
     \<and> (\<forall>p e. rl_projectRL m p = Some e \<longrightarrow> (\<exists>e'. rl_projectRL m' p = Some e' \<and> pl_lim e' = pl_lim e))"

lemma normalizeQPS_pos [simp]: "0 < normalizeQPS q" "normalizeQPS (normalizeQPS q) = normalizeQPS q"
  by (simp_all add: normalizeQPS_def)

lemma tuned_new: "limiter_laws api \<Longrightarrow> tuned api (normalizeQPS q) (newLimiter api q)"
  by (simp add: tuned_def newLimiter_def limiter_laws_def Let_def del: split_paired_All)

lemma tuned_set: "limiter_laws api \<Longrightarrow> 0 < q \<Longrightarrow> tuned api q (lm_SetBurst api (wrap64 (q * 2)) (lm_SetLimit api (float_of_int q) l))"
  by (simp add: tuned_def limiter_laws_def del: split_paired_All)

lemma tuned_allow: "limiter_laws api \<Longrightarrow> tuned api q l \<Longrightarrow> tuned api q (snd (lm_Allow api t l))"
  by (simp add: tuned_def limiter_laws_def)

lemma rl_invI:
  assumes "rl_globalRL m < length (rl_lims m)" "tuned api q (rl_lims m ! rl_globalRL m)"
    and "\<And>p e. rl_projectRL m p = Some e \<Longrightarrow>
      pl_lim e < length (rl_lims m) \<and> pl_lim e \<noteq> rl_globalRL m \<and> tuned api (pl_qps e) (rl_lims m ! pl_lim e)"
    and "\<And>p p' e e'. rl_projectRL m p = Some e \<Longrightarrow> rl_projectRL m p' = Some e' \<Longrightarrow> pl_lim e = pl_lim e' \<Longrightarrow> p = p'"
  shows "rl_inv api m"
  using assms unfolding rl_inv_def by blast

lemma rl_invD:
  assumes "rl_inv api m"
  shows "rl_globalRL m < length (rl_lims m)" "\<exists>q. tuned api q (rl_lims m ! rl_globalRL m)"
    and "\<And>p e. rl_projectRL m p = Some e \<Longrightarrow>
      pl_lim e < length (rl_lims m) \<and> pl_lim e \<noteq> rl_globalRL m \<and> tuned api (pl_qps e) (rl_lims m ! pl_lim e)"
    and "\<And>p p' e e'. rl_projectRL m p = Some e \<Longrightarrow> rl_projectRL m p' = Some e' \<Longrightarrow> pl_lim e = pl_lim e' \<Longrightarrow> p = p'"
  using assms unfolding rl_inv_def by blast+

lemma on_lim_frame [simp]:
  "rl_globalRL (on_lim f i m) = rl_globalRL m" "rl_projectRL (on_lim f i m) = rl_projectRL m"
  "rl_lims (on_lim f i m) = (rl_lims m)[i := f (rl_lims m ! i)]"
  by (simp_all add: on_lim_def)

lemma keeps_step: "rl_step api m m' \<Longrightarrow> keeps_limiters m m'"
  by (induction rule: rl_step.induct)
    (auto simp: keeps_limiters_def updateGlobalLimiter_def locked_limiter_def allow_def Let_def split: option.splits prod.splits)

lemma keeps_steps: "rl_steps api m m' \<Longrightarrow> keeps_limiters m m'"
proof (induction rule: rtranclp_induct)
  case (step m1 m2)
  from keeps_step [OF step.hyps(2)] step.IH show ?case unfolding keeps_limiters_def by metis
qed (simp add: keeps_limiters_def)

lemma rl_inv_reload:
  assumes "limiter_laws api" "rl_inv api m"
  shows "rl_inv api (updateGlobalLimiter api q m)"
proof -
  note i = rl_invD [OF assms(2)]
  have "tuned api (normalizeQPS q) (lm_SetBurst api (wrap64 (normalizeQPS q * 2)) (lm_SetLimit api (float_of_int (normalizeQPS q)) (rl_lims m ! rl_globalRL m)))"
    using assms(1) by (rule tuned_set) simp
  with i(1) show ?thesis unfolding updateGlobalLimiter_def Let_def
    by (intro rl_invI [where q = "normalizeQPS q"]) (auto dest: i(3,4))
qed

lemma rl_inv_allow:
  assumes "limiter_laws api" "rl_inv api m"
  shows "rl_inv api (snd (allow api now i m))"
proof -
  note i = rl_invD [OF assms(2)]
  let ?ls = "(rl_lims m)[i := snd (lm_Allow api now (rl_lims m ! i))]"
  have m: "snd (allow api now i m) = m\<lparr>rl_lims := ?ls\<rparr>" by (simp add: allow_def split: prod.split)
  have t: "tuned api q (?ls ! j)" if "tuned api q (rl_lims m ! j)" for q j
    using that tuned_allow [OF assms(1)] by (cases "i < length (rl_lims m)") (auto simp: nth_list_update list_update_beyond)
  obtain q where "tuned api q (rl_lims m ! rl_globalRL m)" using i(2) by blast
  with i(1) show ?thesis unfolding m by (intro rl_invI [where q = q]) (auto dest: i(3,4) intro: t)
qed

lemma unique_upd:
  assumes u: "\<And>p p' e e'. M p = Some e \<Longrightarrow> M p' = Some e' \<Longrightarrow> pl_lim e = pl_lim e' \<Longrightarrow> p = p'"
    and n: "\<And>p' e'. M p' = Some e' \<Longrightarrow> p' \<noteq> p \<Longrightarrow> pl_lim e' \<noteq> pl_lim e"
    and 1: "(M(p \<mapsto> e)) p1 = Some e1" and 2: "(M(p \<mapsto> e)) p2 = Some e2" and eq: "pl_lim e1 = pl_lim e2"
  shows "p1 = p2"
proof (rule ccontr)
  assume d: "p1 \<noteq> p2"
  consider "p1 = p" | "p2 = p" | "p1 \<noteq> p" "p2 \<noteq> p" by blast
  then show False
  proof cases
    case 1
    then have "M p2 = Some e2" "e1 = e" using d assms(3,4) by simp_all
    with n [of p2 e2] 1 d eq show False by simp
  next
    case 2
    then have "M p1 = Some e1" "e2 = e" using d assms(3,4) by simp_all
    with n [of p1 e1] 2 d eq show False by simp
  next
    case 3
    then have "M p1 = Some e1" "M p2 = Some e2" using assms(3,4) by simp_all
    with u [of p1 e1 p2 e2] eq d show False by simp
  qed
qed

lemma rl_inv_add:
  assumes inv: "rl_inv api m" and n: "tuned api q l" and None: "rl_projectRL m p = None"
  shows "rl_inv api (m\<lparr>rl_lims := rl_lims m @ [l], rl_projectRL := (rl_projectRL m)(p \<mapsto> \<lparr>pl_qps = q, pl_lim = length (rl_lims m)\<rparr>)\<rparr>)"
    (is "rl_inv api ?m")
proof -
  note i = rl_invD [OF inv]
  obtain g where g: "tuned api g (rl_lims m ! rl_globalRL m)" using i(2) by blast
  show ?thesis
  proof (rule rl_invI [where q = g])
    fix p1 e1 assume a: "rl_projectRL ?m p1 = Some e1"
    show "pl_lim e1 < length (rl_lims ?m) \<and> pl_lim e1 \<noteq> rl_globalRL ?m \<and> tuned api (pl_qps e1) (rl_lims ?m ! pl_lim e1)"
    proof (cases "p1 = p")
      case True
      then have "e1 = \<lparr>pl_qps = q, pl_lim = length (rl_lims m)\<rparr>" using a by simp
      then show ?thesis using n i(1) by simp
    next
      case False
      then have "rl_projectRL m p1 = Some e1" using a by simp
      from i(3) [OF this] show ?thesis by (simp add: nth_append)
    qed
  next
    let ?M = "(rl_projectRL m)(p \<mapsto> \<lparr>pl_qps = q, pl_lim = length (rl_lims m)\<rparr>)"
    fix p1 p2 e1 e2 assume a: "rl_projectRL ?m p1 = Some e1" "rl_projectRL ?m p2 = Some e2" "pl_lim e1 = pl_lim e2"
    have ne: "pl_lim e' \<noteq> pl_lim \<lparr>pl_qps = q, pl_lim = length (rl_lims m)\<rparr>" if "rl_projectRL m p' = Some e'" for p' e'
      using i(3) [OF that] by simp
    from a have "?M p1 = Some e1" "?M p2 = Some e2" by simp_all
    then show "p1 = p2"
      by (intro unique_upd [where M = "rl_projectRL m" and p = p and e = "\<lparr>pl_qps = q, pl_lim = length (rl_lims m)\<rparr>" and ?p1.0 = p1 and ?p2.0 = p2])
        (erule (2) i(4), erule ne, assumption+, rule a(3))
  qed (use i(1) g in \<open>simp_all add: nth_append\<close>)
qed

lemma rl_inv_retune:
  assumes inv: "rl_inv api m" and t: "tuned api q l" and Some: "rl_projectRL m p = Some e"
  shows "rl_inv api (m\<lparr>rl_lims := (rl_lims m)[pl_lim e := l], rl_projectRL := (rl_projectRL m)(p \<mapsto> e\<lparr>pl_qps := q\<rparr>)\<rparr>)"
    (is "rl_inv api ?m")
proof -
  note i = rl_invD [OF inv]
  obtain g where g: "tuned api g (rl_lims m ! rl_globalRL m)" using i(2) by blast
  note e = i(3) [OF Some]
  have ne: "pl_lim e' \<noteq> pl_lim (e\<lparr>pl_qps := q\<rparr>)" if "rl_projectRL m p' = Some e'" "p' \<noteq> p" for p' e'
    using i(4) [OF that(1) Some] that(2) by auto
  show ?thesis
  proof (rule rl_invI [where q = g])
    fix p1 e1 assume a: "rl_projectRL ?m p1 = Some e1"
    show "pl_lim e1 < length (rl_lims ?m) \<and> pl_lim e1 \<noteq> rl_globalRL ?m \<and> tuned api (pl_qps e1) (rl_lims ?m ! pl_lim e1)"
    proof (cases "p1 = p")
      case True
      then have "e1 = e\<lparr>pl_qps := q\<rparr>" using a by simp
      then show ?thesis using t e by simp
    next
      case False
      then have "rl_projectRL m p1 = Some e1" using a by simp
      from i(3) [OF this] ne [OF this False] show ?thesis by simp
    qed
  next
    fix p1 p2 e1 e2 assume a: "rl_projectRL ?m p1 = Some e1" "rl_projectRL ?m p2 = Some e2" "pl_lim e1 = pl_lim e2"
    then have "((rl_projectRL m)(p \<mapsto> e\<lparr>pl_qps := q\<rparr>)) p1 = Some e1" "((rl_projectRL m)(p \<mapsto> e\<lparr>pl_qps := q\<rparr>)) p2 = Some e2" by simp_all
    then show "p1 = p2"
      by (intro unique_upd [where M = "rl_projectRL m" and p = p and e = "e\<lparr>pl_qps := q\<rparr>" and ?p1.0 = p1 and ?p2.0 = p2])
        (erule (2) i(4), erule (1) ne, assumption+, rule a(3))
  qed (use i(1) g e in simp_all)
qed

lemma rl_inv_locked:
  assumes "limiter_laws api" "rl_inv api m" "0 < q"
  shows "rl_inv api (snd (locked_limiter api p q m))"
proof (cases "rl_projectRL m p")
  case None
  have "tuned api q (newLimiter api q)" using tuned_new [OF assms(1), of q] assms(3) by (simp add: normalizeQPS_def)
  from rl_inv_add [OF assms(2) this None] None show ?thesis by (simp add: locked_limiter_def Let_def)
next
  case (Some e)
  have "pl_lim e < length (rl_lims m)" using rl_invD(3) [OF assms(2) Some] by simp
  then have m: "snd (locked_limiter api p q m) = (if pl_qps e = q then m else
      m\<lparr>rl_lims := (rl_lims m)[pl_lim e := lm_SetBurst api (wrap64 (q * 2)) (lm_SetLimit api (float_of_int q) (rl_lims m ! pl_lim e))],
        rl_projectRL := (rl_projectRL m)(p \<mapsto> e\<lparr>pl_qps := q\<rparr>)\<rparr>)"
    using Some by (simp add: locked_limiter_def Let_def on_lim_def)
  show ?thesis unfolding m using rl_inv_retune [OF assms(2) tuned_set [OF assms(1,3)] Some] assms(2) by simp
qed

lemma rl_inv_step: "rl_step api m m' \<Longrightarrow> limiter_laws api \<Longrightarrow> rl_inv api m \<Longrightarrow> rl_inv api m'"
  by (induction rule: rl_step.induct) (auto intro: rl_inv_reload rl_inv_allow rl_inv_locked)

lemma rl_inv_steps: "rl_steps api m m' \<Longrightarrow> limiter_laws api \<Longrightarrow> rl_inv api m \<Longrightarrow> rl_inv api m'"
  by (induction rule: rtranclp_induct) (auto intro: rl_inv_step)

lemma rl_inv_new: "limiter_laws api \<Longrightarrow> rl_NewManager api c mgr = (m, mgr') \<Longrightarrow> rl_inv api m"
  by (rule rl_invI) (auto simp: rl_NewManager_def intro: tuned_new)

lemma locked_hit: "rl_projectRL m p = Some e \<Longrightarrow> pl_qps e = q \<Longrightarrow> locked_limiter api p q m = (pl_lim e, m)"
  by (simp add: locked_limiter_def)

lemma locked_result:
  assumes "limiter_laws api" "rl_inv api m" "0 < q" "locked_limiter api p q m = (i, m')"
  shows "tuned api q (rl_lims m' ! i)" "i \<noteq> rl_globalRL m'" "rl_projectRL m p = Some e \<Longrightarrow> i = pl_lim e"
proof -
  have inv: "rl_inv api m'" using rl_inv_locked [OF assms(1-3), of p] assms(4) by simp
  have "\<exists>e. rl_projectRL m' p = Some e \<and> pl_lim e = i \<and> pl_qps e = q"
    using assms(4) by (auto simp: locked_limiter_def Let_def split: option.splits if_splits)
  with rl_invD(3) [OF inv] show "tuned api q (rl_lims m' ! i)" "i \<noteq> rl_globalRL m'" by blast+
  show "rl_projectRL m p = Some e \<Longrightarrow> i = pl_lim e" using assms(4) by (auto simp: locked_limiter_def Let_def split: if_splits)
qed

text \<open>
  C14: the limiters stay apart and in tune. Whatever reloads, requests and project limiters a new manager goes
  through, every project has a limiter of its own, different from the global one; each has the rate its entry
  names and twice that as burst (in machine arithmetic), also after the rate was changed; and a project never
  loses its limiter, so its tokens survive a change of the rate.
\<close>

theorem limiter_invariant:
  assumes "limiter_laws api" "rl_NewManager api c mgr = (m0, mgr')" "rl_steps api m0 m" "rl_steps api m m'"
  shows "rl_inv api m' \<and> keeps_limiters m m'"
  using rl_inv_steps [OF rtranclp_trans [OF assms(3,4)] assms(1) rl_inv_new [OF assms(1,2)]] keeps_steps [OF assms(4)] by simp

definition sample_limiter :: "(float64 \<times> int) limiter_api" where
  "sample_limiter = \<lparr>lm_NewLimiter = Pair, lm_SetLimit = (\<lambda>r l. (r, snd l)), lm_SetBurst = (\<lambda>b l. (fst l, b)), lm_Allow = (\<lambda>_ l. (True, l)),
     lm_Limit = fst, lm_Burst = snd\<rparr>"

lemma sample_limiter_laws: "limiter_laws sample_limiter"
  by (simp add: limiter_laws_def sample_limiter_def)

definition sample_rl :: "(float64 \<times> int) rl_Manager" where
  "sample_rl = fst (rl_NewManager sample_limiter zero_config \<lparr>mg_current = None, mg_path = [], mg_watching = False, mg_stopped = False, mg_onReload = []\<rparr>)"

theorem limiter_invariant_witness:
  "let m = snd (locked_limiter sample_limiter ''p'' 5 sample_rl); m' = updateGlobalLimiter sample_limiter 7 m
   in rl_inv sample_limiter m' \<and> keeps_limiters m m' \<and> rl_projectRL m ''p'' \<noteq> None"
proof -
  let ?m = "snd (locked_limiter sample_limiter ''p'' 5 sample_rl)"
  have 1: "rl_steps sample_limiter sample_rl ?m" using rl_step.locked [of sample_limiter sample_rl "''p''" 5] by (simp add: normalizeQPS_def)
  have 2: "rl_steps sample_limiter ?m (updateGlobalLimiter sample_limiter 7 ?m)" by (intro r_into_rtranclp rl_step.reload)
  have "rl_projectRL ?m ''p'' \<noteq> None" by (simp add: locked_limiter_def sample_rl_def rl_NewManager_def Let_def)
  with limiter_invariant [OF sample_limiter_laws _ 1 2] show ?thesis
    by (metis sample_rl_def surjective_pairing)
qed

text \<open>
  C35: looking up a project's limiter is atomic although it locks twice. Whatever other goroutines do before the
  rate is compared and before the write lock is taken, the outcome is that of the write-locked section alone at one of those
  two moments; and the limiter returned is the one the project already had if it had one, is not the global one, and has
  the requested rate.
\<close>

theorem GetOrCreateLimiter_atomic:
  assumes "limiter_laws api" "rl_inv api m" "\<And>n. rl_steps api n (d1 n)" "\<And>n. rl_steps api n (d2 n)"
    and "GetOrCreateLimiter api d1 d2 project qps m = (i, m')"
  shows "(locked_limiter api project (normalizeQPS qps) (d1 m) = (i, m') \<or> locked_limiter api project (normalizeQPS qps) (d2 (d1 m)) = (i, m'))
    \<and> tuned api (normalizeQPS qps) (rl_lims m' ! i) \<and> i \<noteq> rl_globalRL m' \<and> (\<forall>e. rl_projectRL m project = Some e \<longrightarrow> i = pl_lim e)"
proof -
  have inv: "rl_inv api (d1 m)" "rl_inv api (d2 (d1 m))" using rl_inv_steps assms(1-4) by blast+
  have k: "keeps_limiters m (d1 m)" "keeps_limiters (d1 m) (d2 (d1 m))" using keeps_steps assms(3,4) by blast+
  have l: "locked_limiter api project (normalizeQPS qps) (d1 m) = (i, m') \<or> locked_limiter api project (normalizeQPS qps) (d2 (d1 m)) = (i, m')"
    using assms(5) by (auto simp: GetOrCreateLimiter_def Let_def locked_hit split: option.splits if_splits)
  have "i = pl_lim e" if e: "rl_projectRL m project = Some e" for e
  proof -
    obtain e1 e2 where "rl_projectRL (d1 m) project = Some e1" "rl_projectRL (d2 (d1 m)) project = Some e2" "pl_lim e1 = pl_lim e" "pl_lim e2 = pl_lim e"
      using k e unfolding keeps_limiters_def by metis
    with l locked_result(3) [OF assms(1) _ normalizeQPS_pos(1)] inv show ?thesis by metis
  qed
  moreover have "tuned api (normalizeQPS qps) (rl_lims m' ! i) \<and> i \<noteq> rl_globalRL m'"
    using l locked_result(1,2) [OF assms(1) _ normalizeQPS_pos(1)] inv by blast
  ultimately show ?thesis using l by blast
qed

theorem GetOrCreateLimiter_atomic_witness:
  "\<exists>i m'. GetOrCreateLimiter sample_limiter (updateGlobalLimiter sample_limiter 7) id ''p'' 0 sample_rl = (i, m')
     \<and> tuned sample_limiter 1000 (rl_lims m' ! i) \<and> i \<noteq> rl_globalRL m'"
proof -
  obtain i m' where G: "GetOrCreateLimiter sample_limiter (updateGlobalLimiter sample_limiter 7) id ''p'' 0 sample_rl = (i, m')" by fastforce
  have inv: "rl_inv sample_limiter sample_rl" using rl_inv_new [OF sample_limiter_laws] by (metis sample_rl_def surjective_pairing)
  from GetOrCreateLimiter_atomic [OF sample_limiter_laws inv _ _ G] have "tuned sample_limiter 1000 (rl_lims m' ! i) \<and> i \<noteq> rl_globalRL m'"
    by (simp add: normalizeQPS_def r_into_rtranclp rl_step.reload)
  with G show ?thesis by blast
qed

end
