(* ===== verification/Pipeline.thy ===== *)
theory Pipeline
  imports Dynval Message
begin

text \<open>
  \<open>internal/pipeline\<close>: processors that rewrite the payload of a message before delivery, the chain
  that runs them, and the registry that builds them from configuration.
\<close>

subsection \<open>Processors and chains\<close>

text \<open>A processor returns the message, an error, or panics.\<close>

datatype processed = Processed Message | ProcError | ProcPanic

record Processor =
  pn_Name :: bytes
  pn_Process :: "Message \<Rightarrow> processed"

type_synonym Chain = "Processor list"

definition NewChain :: "Processor list \<Rightarrow> Chain" where
  "NewChain ps = ps"

definition Chain_Add :: "Processor \<Rightarrow> Chain \<Rightarrow> Chain" where
  "Chain_Add p c = c @ [p]"

definition Chain_Len :: "Chain \<Rightarrow> nat" where
  "Chain_Len c = length c"

fun Chain_Process :: "Chain \<Rightarrow> Message \<Rightarrow> processed" where
  "Chain_Process [] m = Processed m"
| "Chain_Process (p # ps) m =
     (case pn_Process p m of
        Processed m \<Rightarrow> Chain_Process ps m
      | ProcError \<Rightarrow> ProcError
      | ProcPanic \<Rightarrow> ProcPanic)"

subsection \<open>The built-in processors\<close>

definition payload :: "Message \<Rightarrow> bytes" where
  "payload m = (case msg_Data m of None \<Rightarrow> [] | Some s \<Rightarrow> s)"

definition set_payload :: "dynmap option \<Rightarrow> Message \<Rightarrow> processed" where
  "set_payload data m =
     (case marshal_map data of None \<Rightarrow> ProcError | Some raw \<Rightarrow> Processed (m\<lparr>msg_Data := Some raw\<rparr>))"

text \<open>Reading from a nil map finds nothing.\<close>

definition lookup :: "dynmap option \<Rightarrow> bytes \<Rightarrow> dynval option" where
  "lookup data k = (case data of None \<Rightarrow> None | Some m \<Rightarrow> map_of m k)"

record FieldFilter =
  ff_fields :: "bytes list"
  ff_mode :: bytes

fun pick_fields :: "dynmap option \<Rightarrow> bytes list \<Rightarrow> dynmap \<Rightarrow> dynmap" where
  "pick_fields data [] acc = acc"
| "pick_fields data (f # fs) acc =
     pick_fields data fs (case lookup data f of None \<Rightarrow> acc | Some v \<Rightarrow> AList.update f v acc)"

fun delete_fields :: "bytes list \<Rightarrow> dynmap \<Rightarrow> dynmap" where
  "delete_fields [] m = m"
| "delete_fields (f # fs) m = delete_fields fs (AList.delete f m)"

definition FieldFilter_Process :: "FieldFilter \<Rightarrow> Message \<Rightarrow> processed" where
  "FieldFilter_Process f m =
     (if payload m = [] then Processed m
      else case unmarshal_map (payload m) of
        None \<Rightarrow> Processed m
      | Some data \<Rightarrow>
          if ff_mode f = ''include'' then set_payload (Some (pick_fields data (ff_fields f) [])) m
          else if ff_mode f = ''exclude'' then set_payload (map_option (delete_fields (ff_fields f)) data) m
          else Processed m)"

fun put_fields :: "dynmap \<Rightarrow> dynmap \<Rightarrow> dynmap" where
  "put_fields [] m = m"
| "put_fields ((k, v) # fs) m = put_fields fs (AList.update k v m)"

text \<open>Storing into a nil map panics.\<close>

definition FieldAdd_Process :: "dynmap \<Rightarrow> Message \<Rightarrow> processed" where
  "FieldAdd_Process fs m =
     (let data = (if payload m = [] then Some []
                  else case unmarshal_map (payload m) of None \<Rightarrow> Some [] | Some d \<Rightarrow> d)
      in case data of
           None \<Rightarrow> if fs = [] then set_payload None m else ProcPanic
         | Some d \<Rightarrow> set_payload (Some (put_fields fs d)) m)"

fun mask_fields :: "(bytes \<times> bytes) list \<Rightarrow> dynmap \<Rightarrow> dynmap" where
  "mask_fields [] m = m"
| "mask_fields ((k, s) # fs) m =
     mask_fields fs (case map_of m k of None \<Rightarrow> m | Some _ \<Rightarrow> AList.update k (DStr s) m)"

definition FieldRedact_Process :: "(bytes \<times> bytes) list \<Rightarrow> Message \<Rightarrow> processed" where
  "FieldRedact_Process fs m =
     (if payload m = [] then Processed m
      else case unmarshal_map (payload m) of
        None \<Rightarrow> Processed m
      | Some data \<Rightarrow> set_payload (map_option (mask_fields fs) data) m)"

definition NewFieldFilter :: "bytes \<Rightarrow> bytes list \<Rightarrow> Processor" where
  "NewFieldFilter mode fs =
     \<lparr>pn_Name = ''field_filter'', pn_Process = FieldFilter_Process \<lparr>ff_fields = fs, ff_mode = mode\<rparr>\<rparr>"

definition NewFieldAdd :: "dynmap \<Rightarrow> Processor" where
  "NewFieldAdd fs = \<lparr>pn_Name = ''field_add'', pn_Process = FieldAdd_Process fs\<rparr>"

definition NewFieldRedact :: "(bytes \<times> bytes) list \<Rightarrow> Processor" where
  "NewFieldRedact fs = \<lparr>pn_Name = ''field_redact'', pn_Process = FieldRedact_Process fs\<rparr>"

subsection \<open>The registry\<close>

text \<open>A factory returns a processor or an error.\<close>

type_synonym Factory = "dynmap \<Rightarrow> Processor option"

type_synonym Registry = "(bytes \<times> Factory) list"

definition strings_of :: "dynval list \<Rightarrow> bytes list" where
  "strings_of vs = List.map_filter (\<lambda>v. case v of DStr s \<Rightarrow> Some s | _ \<Rightarrow> None) vs"

definition field_filter_factory :: Factory where
  "field_filter_factory cfg =
     (let mode = (case map_of cfg ''mode'' of Some (DStr s) \<Rightarrow> s | _ \<Rightarrow> ''exclude'');
          mode = (if mode \<noteq> ''include'' \<and> mode \<noteq> ''exclude'' then ''exclude'' else mode);
          fs = (case map_of cfg ''fields'' of Some (DList vs) \<Rightarrow> strings_of vs | _ \<Rightarrow> [])
      in Some (NewFieldFilter mode fs))"

definition field_add_factory :: Factory where
  "field_add_factory cfg =
     Some (NewFieldAdd (case map_of cfg ''fields'' of Some (DMap m) \<Rightarrow> put_fields m [] | _ \<Rightarrow> []))"

definition string_fields :: "dynmap \<Rightarrow> (bytes \<times> bytes) list" where
  "string_fields m = List.map_filter (\<lambda>(k, v). case v of DStr s \<Rightarrow> Some (k, s) | _ \<Rightarrow> None) m"

definition field_redact_factory :: Factory where
  "field_redact_factory cfg =
     Some (NewFieldRedact (case map_of cfg ''fields'' of Some (DMap m) \<Rightarrow> string_fields m | _ \<Rightarrow> []))"

definition Register :: "bytes \<Rightarrow> Factory \<Rightarrow> Registry \<Rightarrow> Registry" where
  "Register name factory r = AList.update name factory r"

definition registerBuiltins :: "Registry \<Rightarrow> Registry" where
  "registerBuiltins r =
     Register ''field_redact'' field_redact_factory
       (Register ''field_add'' field_add_factory (Register ''field_filter'' field_filter_factory r))"

definition NewRegistry :: Registry where
  "NewRegistry = registerBuiltins []"

text \<open>The names in the text of an error, in the order in which Go walks the map, which is not specified.\<close>

definition listAvailable :: "(bytes list \<Rightarrow> bytes list) \<Rightarrow> Registry \<Rightarrow> bytes" where
  "listAvailable order r = Join '', '' (order (map fst r))"

definition Create :: "bytes \<Rightarrow> dynmap \<Rightarrow> Registry \<Rightarrow> Processor option" where
  "Create typ cfg r = (case map_of r typ of None \<Rightarrow> None | Some factory \<Rightarrow> factory cfg)"

subsection \<open>Laws\<close>

lemma map_of_pick: "map_of (pick_fields data fs acc) = map_of acc ++ (lookup data |` set fs)"
proof (induction fs arbitrary: acc)
  case (Cons f fs)
  then show ?case
    by (auto simp: fun_eq_iff map_add_def restrict_map_def update_conv' split: option.splits)
qed (simp add: map_add_def restrict_map_def)

lemma map_of_delete: "map_of (delete_fields fs m) = map_of m |` (- set fs)"
  by (induction fs arbitrary: m) (auto simp: fun_eq_iff restrict_map_def delete_conv')

lemma map_of_put: "distinct (map fst fs) \<Longrightarrow> map_of (put_fields fs m) = map_of m ++ map_of fs"
proof (induction fs arbitrary: m)
  case (Cons f fs)
  obtain k v where f: "f = (k, v)" by (cases f)
  with Cons have "map_of fs k = None" by (auto simp: map_of_eq_None_iff)
  with Cons f show ?case by (auto simp: fun_eq_iff map_add_def update_conv' split: option.splits)
qed simp

definition masked :: "(bytes \<rightharpoonup> bytes) \<Rightarrow> (bytes \<rightharpoonup> dynval) \<Rightarrow> bytes \<rightharpoonup> dynval" where
  "masked masks m k =
     (case m k of None \<Rightarrow> None | Some v \<Rightarrow> (case masks k of None \<Rightarrow> Some v | Some s \<Rightarrow> Some (DStr s)))"

lemma map_of_mask: "distinct (map fst fs) \<Longrightarrow> map_of (mask_fields fs m) = masked (map_of fs) (map_of m)"
proof (induction fs arbitrary: m)
  case (Cons f fs)
  obtain k v where f: "f = (k, v)" by (cases f)
  with Cons have "map_of fs k = None" by (auto simp: map_of_eq_None_iff)
  with Cons f show ?case by (auto simp: fun_eq_iff masked_def update_conv' split: option.splits)
qed (auto simp: fun_eq_iff masked_def split: option.splits)

lemma map_ok_Nil [simp]: "map_ok []"
  by (simp add: map_ok_def)

lemma map_ok_value: "map_ok m \<Longrightarrow> map_of m k = Some v \<Longrightarrow> dyn_ok (Suc 0) v \<and> encode_value v \<noteq> None"
  by (auto simp: map_ok_def list_all_iff dest: map_of_SomeD)

lemma map_ok_pick:
  "(\<And>m. data = Some m \<Longrightarrow> map_ok m) \<Longrightarrow> map_ok acc \<Longrightarrow> map_ok (pick_fields data fs acc)"
proof (induction fs arbitrary: acc)
  case (Cons f fs)
  have "map_ok (case lookup data f of None \<Rightarrow> acc | Some v \<Rightarrow> AList.update f v acc)"
    using Cons.prems map_ok_value by (auto simp: lookup_def intro!: map_ok_update split: option.split option.split_asm)
  with Cons show ?case by simp
qed simp

lemma map_ok_delete: "map_ok m \<Longrightarrow> map_ok (delete_fields fs m)"
proof (induction fs arbitrary: m)
  case (Cons f fs)
  have "map_ok (AList.delete f m)" using Cons.prems
    by (auto simp: map_ok_def list_all_iff AList.delete_eq intro: distinct_map_filter)
  with Cons show ?case by simp
qed simp

lemma map_ok_put:
  "map_ok m \<Longrightarrow> list_all (\<lambda>(k, v). dyn_ok (Suc 0) v \<and> encode_value v \<noteq> None) fs \<Longrightarrow> map_ok (put_fields fs m)"
  by (induction fs m rule: put_fields.induct) (auto intro: map_ok_update)

lemma map_ok_mask: "map_ok m \<Longrightarrow> map_ok (mask_fields fs m)"
  by (induction fs m rule: mask_fields.induct) (simp_all add: map_ok_update split: option.split)

lemma set_payload_ok:
  assumes "map_ok d"
  shows "set_payload (Some d) m = Processed (m\<lparr>msg_Data := Some (pr (JObj (render d)))\<rparr>)"
  using marshal_map_ok(1) [OF assms] by (simp add: set_payload_def)

subsection \<open>Properties\<close>


definition sample_object :: Message where
  "sample_object = empty_message\<lparr>msg_Data := Some (CHR ''{'' # DQ # ''pw'' @ DQ # '':true}'')\<rparr>"

lemma sample_object_facts: "payload sample_object \<noteq> []" "unmarshal_map (payload sample_object) = Some (Some [(''pw'', DBool True)])"
  by code_simp+


text \<open>
  Payloads that are not JSON objects. An empty payload and one that is not an object pass the
  filter and the redaction unchanged; adding fields replaces them by an object of just those
  fields. The payload \<open>null\<close> is an object with no fields for filter and redaction, but adding
  fields to it stores into a nil map: the processor panics.
\<close>

theorem processors_on_others:
  assumes "payload m = [] \<or> unmarshal_map (payload m) = None"
    and "distinct (map fst add)" and "list_all (\<lambda>(k, v). dyn_ok 1 v \<and> encode_value v \<noteq> None) add"
    and "payload n \<noteq> []" and "unmarshal_map (payload n) = Some None"
  shows "pn_Process (NewFieldFilter mode fs) m = Processed m \<and> pn_Process (NewFieldRedact masks) m = Processed m
    \<and> (\<exists>d'. pn_Process (NewFieldAdd add) m = Processed (m\<lparr>msg_Data := Some (pr (JObj (render d')))\<rparr>) \<and> map_of d' = map_of add)
    \<and> pn_Process (NewFieldFilter ''include'' fs) n = Processed (n\<lparr>msg_Data := Some ''{}''\<rparr>)
    \<and> pn_Process (NewFieldFilter ''exclude'' fs) n = Processed (n\<lparr>msg_Data := Some ''null''\<rparr>)
    \<and> pn_Process (NewFieldRedact masks) n = Processed (n\<lparr>msg_Data := Some ''null''\<rparr>)
    \<and> (pn_Process (NewFieldAdd add) n = ProcPanic \<longleftrightarrow> add \<noteq> [])"
proof -
  have "map_ok (put_fields add [])" using assms(3) by (intro map_ok_put) simp_all
  then have a: "set_payload (Some (put_fields add [])) m = Processed (m\<lparr>msg_Data := Some (pr (JObj (render (put_fields add []))))\<rparr>)"
    by (rule set_payload_ok)
  have p: "pick_fields None fs [] = []" by (induction fs) (simp_all add: lookup_def)
  have "map_of (put_fields add []) = map_of add" using map_of_put [OF assms(2), of "[]"] by simp
  with a p assms(1,4,5) show ?thesis
    by (auto simp: NewFieldFilter_def NewFieldAdd_def NewFieldRedact_def FieldFilter_Process_def FieldAdd_Process_def
        FieldRedact_Process_def set_payload_def marshal_map_def render_def Let_def)
qed

theorem processors_on_others_witness:
  "pn_Process (NewFieldAdd [(''k'', DBool True)]) (empty_message\<lparr>msg_Data := Some ''null''\<rparr>) = ProcPanic
   \<and> pn_Process (NewFieldRedact []) (empty_message\<lparr>msg_Data := Some ''[1]''\<rparr>) = Processed (empty_message\<lparr>msg_Data := Some ''[1]''\<rparr>)"
proof -
  let ?m = "empty_message\<lparr>msg_Data := Some ''[1]''\<rparr>" and ?n = "empty_message\<lparr>msg_Data := Some ''null''\<rparr>"
  have "unmarshal_map (payload ?m) = None" "unmarshal_map (payload ?n) = Some None" by code_simp+
  with processors_on_others [of ?m "[(''k'', DBool True)]" ?n] show ?thesis by (simp add: payload_def)
qed

text \<open>
  A chain runs its processors in the order they were added and stops at the first one that
  fails; only if all succeed is there a message.
\<close>

theorem Chain_Process_sequential:
  "Chain_Process (c @ d) m = (case Chain_Process c m of Processed m' \<Rightarrow> Chain_Process d m' | r \<Rightarrow> r)
   \<and> Chain_Process (Chain_Add p c) m = (case Chain_Process c m of Processed m' \<Rightarrow> pn_Process p m' | r \<Rightarrow> r)
   \<and> Chain_Process (NewChain []) m = Processed m \<and> Chain_Len (Chain_Add p c) = Suc (Chain_Len c)"
proof -
  have app: "Chain_Process (c @ d) m = (case Chain_Process c m of Processed m' \<Rightarrow> Chain_Process d m' | r \<Rightarrow> r)" for d
    by (induction c arbitrary: m) (auto split: processed.split)
  show ?thesis using app [of d] app [of "[p]"]
    by (auto simp: Chain_Add_def Chain_Len_def NewChain_def split: processed.split)
qed

end
