(* ===== verification/Dispatcher.thy ===== *)
theory Dispatcher
  imports Sinks Worker_Laws Pipeline Config
begin

text \<open>
  \<open>internal/project/dispatcher.go\<close>: building the worker pools of every project from the configuration, and
  routing messages to them. The configuration an operation sees is what the manager holds at that
  time: an argument. Pools share the world of messages, log and disk.
\<close>

subsection \<open>State\<close>

record Dispatcher =
  dp_reg :: sink_Registry
  dp_pipelineReg :: Registry
  dp_pools :: "(bytes \<times> WorkerPool list) list option"   \<comment> \<open>a map, or nil\<close>
  dp_wal :: bool
  dp_bp :: Backpressure

definition NewDispatcher :: "sink_Registry \<Rightarrow> bool \<Rightarrow> Backpressure \<Rightarrow> Dispatcher" where
  "NewDispatcher reg walWriter bp =
     \<lparr>dp_reg = reg, dp_pipelineReg = NewRegistry, dp_pools = Some [], dp_wal = walWriter, dp_bp = bp\<rparr>"

definition PipelineRegistry :: "Dispatcher \<Rightarrow> Registry" where
  "PipelineRegistry d = dp_pipelineReg d"

subsection \<open>Sink configuration\<close>

definition globalSinkDefaults :: "Config \<Rightarrow> bytes \<Rightarrow> dynmap" where
  "globalSinkDefaults cfg sinkType =
     (let r = sk_Redis (cf_Sinks cfg); k = sk_Kafka (cf_Sinks cfg)
      in if sinkType = ''redis'' then
           [(''addr'', DStr (rs_Addr r)), (''password'', DStr (rs_Password r)), (''db'', DFloat (float_of_int (rs_DB r))),
            (''pool_size'', DFloat (float_of_int (rs_PoolSize r))), (''min_idle_conns'', DFloat (float_of_int (rs_MinIdleConns r))),
            (''dial_timeout'', DStr (Duration_String (rs_DialTimeout r))), (''read_timeout'', DStr (Duration_String (rs_ReadTimeout r))),
            (''write_timeout'', DStr (Duration_String (rs_WriteTimeout r))), (''key'', DStr (rs_Key r)), (''type'', DStr (rs_Type r)),
            (''max_len'', DFloat (float_of_int (rs_MaxLen r)))]
         else if sinkType = ''kafka'' then
           [(''brokers'', DList (map DStr (ks_Brokers k))), (''topic'', DStr (ks_Topic k)), (''partition_key'', DStr (ks_PartitionKey k)),
            (''compression'', DStr (ks_Compression k)), (''batch_size'', DFloat (float_of_int (ks_BatchSize k))),
            (''batch_timeout'', DStr (Duration_String (ks_BatchTimeout k)))]
         else [])"

text \<open>The instance a reference names, if it names one that exists.\<close>

definition instance_of :: "Config \<Rightarrow> SinkRef \<Rightarrow> SinkInstanceConfig option" where
  "instance_of cfg ref = (if sr_Instance ref = [] then None else cf_SinkInstances cfg (sr_Instance ref))"

definition resolveSinkConfig :: "Config \<Rightarrow> SinkRef \<Rightarrow> bytes \<times> int \<times> int \<times> dynmap" where
  "resolveSinkConfig cfg ref =
     (let inst = instance_of cfg ref;
          sinkType = (case inst of Some i \<Rightarrow> si_Type i | None \<Rightarrow> sr_Type ref);
          workers = (case inst of Some i \<Rightarrow> if sr_Workers ref \<le> 0 then si_Workers i else sr_Workers ref | None \<Rightarrow> sr_Workers ref);
          channelSize = (case inst of Some i \<Rightarrow> if sr_ChannelSize ref \<le> 0 then si_ChannelSize i else sr_ChannelSize ref
                         | None \<Rightarrow> sr_ChannelSize ref);
          sinkType = (if sinkType = [] then ''redis'' else sinkType);
          merged = globalSinkDefaults cfg sinkType;
          merged = (case inst of Some i \<Rightarrow> put_fields (si_Config i) merged | None \<Rightarrow> merged)
      in (sinkType, workers, channelSize, put_fields (sr_Config ref) merged))"

definition readPoolInt :: "dynmap \<Rightarrow> bytes \<Rightarrow> int \<Rightarrow> int" where
  "readPoolInt cfg key def =
     (case map_of cfg key of Some (DFloat v) \<Rightarrow> int_of_float v | Some (DInt i) \<Rightarrow> i | _ \<Rightarrow> def)"

definition sinkName :: "bytes \<Rightarrow> bytes \<Rightarrow> nat \<Rightarrow> bytes" where
  "sinkName project typ i = project @ CHR ''-'' # typ @ CHR ''-'' # itoa i"

definition init_pool :: "Config \<Rightarrow> bytes \<Rightarrow> nat \<Rightarrow> SinkRef \<Rightarrow> Dispatcher \<Rightarrow> WorkerPool option" where
  "init_pool cfg project i ref d =
     (case resolveSinkConfig cfg ref of (sinkType, workers, channelSize, merged) \<Rightarrow>
        (let workers = (if workers \<le> 0 then readPoolInt merged ''workers'' 16 else workers);
             channelSize = (if channelSize \<le> 0 then readPoolInt merged ''channel_size'' 16384 else channelSize)
         in case sink_Create sinkType (sinkName project sinkType i) merged (dp_reg d) of
              None \<Rightarrow> None
            | Some si \<Rightarrow>
                Some (NewWorkerPool \<lparr>wc_Sink = sink_Name si, wc_Workers = workers, wc_ChannelSize = channelSize,
                  wc_MaxFails = 10, wc_Backpressure = dp_bp d, wc_WALWriter = dp_wal d,
                  wc_SubmitTimeout = 100 * Millisecond\<rparr>)))"

fun init_pools :: "Config \<Rightarrow> bytes \<Rightarrow> nat \<Rightarrow> SinkRef list \<Rightarrow> Dispatcher \<Rightarrow> WorkerPool list option" where
  "init_pools cfg project i [] d = Some []"
| "init_pools cfg project i (ref # refs) d =
     (case init_pool cfg project i ref d of
        None \<Rightarrow> None
      | Some p \<Rightarrow> map_option (Cons p) (init_pools cfg project (Suc i) refs d))"

text \<open>
  A sink that cannot be created ends the call with an error; pools made before it keep running but
  are not entered.
\<close>

definition initProject :: "Config \<Rightarrow> ProjectConfig \<Rightarrow> Dispatcher \<Rightarrow> Dispatcher option" where
  "initProject cfg p d =
     (case init_pools cfg (pc_Name p) 0 (pc_Sinks p) d of
        None \<Rightarrow> None
      | Some pools \<Rightarrow> Some (d\<lparr>dp_pools := map_option (AList.update (pc_Name p) pools) (dp_pools d)\<rparr>))"

fun init_projects :: "Config \<Rightarrow> ProjectConfig list \<Rightarrow> Dispatcher \<Rightarrow> Dispatcher option" where
  "init_projects cfg [] d = Some d"
| "init_projects cfg (p # ps) d =
     (if \<not> pc_Enabled p then init_projects cfg ps d
      else case initProject cfg p d of None \<Rightarrow> None | Some d \<Rightarrow> init_projects cfg ps d)"

definition Initialize :: "Config \<Rightarrow> Dispatcher \<Rightarrow> Dispatcher option" where
  "Initialize cfg d = init_projects cfg (cf_Projects cfg) d"

subsection \<open>Dispatching\<close>

text \<open>\<open>Panicked\<close> is not an error value: the goroutine unwinds, and nothing that follows runs.\<close>

datatype dispatch_error =
    NilMessage
  | EmptyProject
  | PoolsNotInitialized
  | NoSinks bytes
  | NoSinkPools bytes
  | PipelineFailed bytes
  | SubmitFailed submit_error
  | Panicked

definition copy_of :: "Message \<Rightarrow> Message" where
  "copy_of src =
     empty_message\<lparr>msg_RequestID := msg_RequestID src, msg_TraceID := msg_TraceID src, msg_Project := msg_Project src,
       msg_Router := msg_Router src,
       msg_Data := (case msg_Data src of Some (c # s) \<Rightarrow> Some (c # s) | _ \<Rightarrow> None),
       msg_Timestamp := msg_Timestamp src, msg_Env := msg_Env src, msg_Headers := msg_Headers src\<rparr>"

text \<open>The copy is filled into a message that was just acquired, which is cleared.\<close>

definition copyMessage :: "nat option \<Rightarrow> addr \<Rightarrow> msg_heap \<Rightarrow> addr \<times> msg_heap" where
  "copyMessage pick a h =
     (case AcquireMessage pick h of
        (b, h) \<Rightarrow> (b, put_message b (copy_of (the (hp_mem h a))) h))"

fun build_chain :: "PipelineRef list \<Rightarrow> Registry \<Rightarrow> Chain \<Rightarrow> Chain" where
  "build_chain [] r c = c"
| "build_chain (ref # refs) r c =
     (case Create (pr_Type ref) (pr_Config ref) r of
        None \<Rightarrow> build_chain refs r c
      | Some p \<Rightarrow> build_chain refs r (Chain_Add p c))"

definition buildPipelineChain :: "ProjectConfig \<Rightarrow> Dispatcher \<Rightarrow> Chain" where
  "buildPipelineChain p d = build_chain (pc_Pipelines p) (dp_pipelineReg d) (NewChain [])"

definition release :: "addr option \<Rightarrow> world \<Rightarrow> world" where
  "release a wd = wd\<lparr>wd_heap := ReleaseMessage a (wd_heap wd)\<rparr>"

text \<open>
  The loop over the pools: \<open>pick\<close> says which pooled message each copy gets, \<open>during\<close> what happens while a
  blocked \<open>Submit\<close> waits.
\<close>

type_synonym dispatch_env = "(nat \<Rightarrow> nat option) \<times> (nat \<Rightarrow> WorkerPool \<times> world \<Rightarrow> WorkerPool \<times> world)"

fun fan_out :: "dispatch_env \<Rightarrow> bool \<Rightarrow> addr \<Rightarrow> nat \<Rightarrow> WorkerPool list \<Rightarrow> world
    \<Rightarrow> (dispatch_error + unit) \<times> WorkerPool list \<times> world" where
  "fan_out env strict a i [] wd = (Inr (), [], release (Some a) wd)"
| "fan_out env strict a i (p # ps) wd =
     (case copyMessage (fst env i) a (wd_heap wd) of (m, h) \<Rightarrow>
        (let wd = wd\<lparr>wd_heap := h\<rparr>
         in case (if strict then SubmitStrict m p wd else Submit (snd env i) m p wd) of
              (Inl SendOnClosed, p, wd) \<Rightarrow> (Inl Panicked, p # ps, wd)
            | (Inl e, p, wd) \<Rightarrow> (Inl (SubmitFailed e), p # ps, release (Some a) wd)
            | (Inr _, p, wd) \<Rightarrow> (case fan_out env strict a (Suc i) ps wd of (r, qs, wd) \<Rightarrow> (r, p # qs, wd))))"

definition set_pools :: "bytes \<Rightarrow> WorkerPool list \<Rightarrow> Dispatcher \<Rightarrow> Dispatcher" where
  "set_pools project ps d = d\<lparr>dp_pools := map_option (AList.update project ps) (dp_pools d)\<rparr>"

text \<open>
  What the pipeline leaves in the message; on an error \<open>msg\<close> is overwritten with nil, so releasing it
  does nothing.
\<close>

definition run_pipeline :: "Config \<Rightarrow> bool \<Rightarrow> addr \<Rightarrow> bytes \<Rightarrow> Dispatcher \<Rightarrow> world \<Rightarrow> (dispatch_error + unit) \<times> world" where
  "run_pipeline cfg skipPipeline a project d wd =
     (case GetProject project cfg of
        None \<Rightarrow> (Inr (), wd)
      | Some p \<Rightarrow>
          if skipPipeline \<or> pc_Pipelines p = [] then (Inr (), wd)
          else case Chain_Process (buildPipelineChain p d) (the (hp_mem (wd_heap wd) a)) of
            Processed m \<Rightarrow> (Inr (), wd\<lparr>wd_heap := put_message a m (wd_heap wd)\<rparr>)
          | ProcError \<Rightarrow> (Inl (PipelineFailed (pc_Name p)), release None wd)
          | ProcPanic \<Rightarrow> (Inl Panicked, wd))"

definition dispatchImpl :: "Config \<Rightarrow> dispatch_env \<Rightarrow> addr option \<Rightarrow> bool \<Rightarrow> bool \<Rightarrow> Dispatcher \<Rightarrow> world
    \<Rightarrow> (dispatch_error + unit) \<times> Dispatcher \<times> world" where
  "dispatchImpl cfg env msg strict skipPipeline d wd =
     (case msg of
        None \<Rightarrow> (Inl NilMessage, d, wd)
      | Some a \<Rightarrow>
          (let project = msg_Project (the (hp_mem (wd_heap wd) a))
           in if project = [] then (Inl EmptyProject, d, release (Some a) wd)
              else case dp_pools d of
                None \<Rightarrow> (Inl PoolsNotInitialized, d, release (Some a) wd)
              | Some pools \<Rightarrow>
                  (case map_of pools project of
                     None \<Rightarrow> (Inl (NoSinks project), d, release (Some a) wd)
                   | Some [] \<Rightarrow> (Inl (NoSinkPools project), d, release (Some a) wd)
                   | Some ps \<Rightarrow>
                       (case run_pipeline cfg skipPipeline a project d wd of
                          (Inl e, wd) \<Rightarrow> (Inl e, d, wd)
                        | (Inr _, wd) \<Rightarrow>
                            (case fan_out env strict a 0 ps wd of
                               (r, ps, wd) \<Rightarrow> (r, set_pools project ps d, wd))))))"

definition Dispatch :: "Config \<Rightarrow> dispatch_env \<Rightarrow> addr option \<Rightarrow> Dispatcher \<Rightarrow> world \<Rightarrow> (dispatch_error + unit) \<times> Dispatcher \<times> world" where
  "Dispatch cfg env msg d wd = dispatchImpl cfg env msg False False d wd"

definition DispatchStrict :: "Config \<Rightarrow> dispatch_env \<Rightarrow> addr option \<Rightarrow> Dispatcher \<Rightarrow> world \<Rightarrow> (dispatch_error + unit) \<times> Dispatcher \<times> world" where
  "DispatchStrict cfg env msg d wd = dispatchImpl cfg env msg True True d wd"

subsection \<open>Replay admission, shutdown, status\<close>

datatype backoff_error = BEmptyProject | BPoolsNotInitialized | BNoSinks bytes | BNoSinkPools bytes | BPaused bytes

fun max_delay :: "WorkerPool list \<Rightarrow> duration \<Rightarrow> backoff_error + duration" where
  "max_delay [] m = Inr m"
| "max_delay (p # ps) m =
     (case CanAcceptReplay p of
        None \<Rightarrow> Inl (BPaused (wp_name p))
      | Some delay \<Rightarrow> max_delay ps (if delay > m then delay else m))"

definition ReplayBackoff :: "bytes \<Rightarrow> Dispatcher \<Rightarrow> backoff_error + duration" where
  "ReplayBackoff project d =
     (if project = [] then Inl BEmptyProject
      else case dp_pools d of
        None \<Rightarrow> Inl BPoolsNotInitialized
      | Some pools \<Rightarrow>
          (case map_of pools project of
             None \<Rightarrow> Inl (BNoSinks project)
           | Some [] \<Rightarrow> Inl (BNoSinkPools project)
           | Some ps \<Rightarrow> max_delay ps 0))"

text \<open>Shutting down every pool in turn; \<open>during\<close> and \<open>sink_ok\<close> as in the pool's \<open>Shutdown\<close>. Errors are only logged.\<close>

fun shutdown_pools :: "(WorkerPool \<times> world \<Rightarrow> WorkerPool \<times> world) \<Rightarrow> (bytes \<Rightarrow> bool) \<Rightarrow> WorkerPool list \<Rightarrow> world \<Rightarrow> WorkerPool list \<times> world" where
  "shutdown_pools during sink_ok [] wd = ([], wd)"
| "shutdown_pools during sink_ok (p # ps) wd =
     (case Shutdown during (sink_ok (wp_name p)) p wd of (_, p, wd) \<Rightarrow>
        (case shutdown_pools during sink_ok ps wd of (ps, wd) \<Rightarrow> (p # ps, wd)))"

fun shutdown_projects :: "(WorkerPool \<times> world \<Rightarrow> WorkerPool \<times> world) \<Rightarrow> (bytes \<Rightarrow> bool) \<Rightarrow> (bytes \<times> WorkerPool list) list \<Rightarrow> world
    \<Rightarrow> (bytes \<times> WorkerPool list) list \<times> world" where
  "shutdown_projects during sink_ok [] wd = ([], wd)"
| "shutdown_projects during sink_ok ((name, ps) # rest) wd =
     (case shutdown_pools during sink_ok ps wd of (ps, wd) \<Rightarrow>
        (case shutdown_projects during sink_ok rest wd of (rest, wd) \<Rightarrow> ((name, ps) # rest, wd)))"

definition Dispatcher_Shutdown :: "(WorkerPool \<times> world \<Rightarrow> WorkerPool \<times> world) \<Rightarrow> (bytes \<Rightarrow> bool) \<Rightarrow> Dispatcher \<Rightarrow> world \<Rightarrow> Dispatcher \<times> world" where
  "Dispatcher_Shutdown during sink_ok d wd =
     (case dp_pools d of
        None \<Rightarrow> (d, wd)
      | Some pools \<Rightarrow> (case shutdown_projects during sink_ok pools wd of (pools, wd) \<Rightarrow> (d\<lparr>dp_pools := Some pools\<rparr>, wd)))"

definition max_usage :: "WorkerPool list \<Rightarrow> rat" where
  "max_usage ps = foldl (\<lambda>m p. if ChannelUsage p > m then ChannelUsage p else m) 0 ps"

definition GetPoolStatus :: "Dispatcher \<Rightarrow> (bytes \<times> rat) list" where
  "GetPoolStatus d = (case dp_pools d of None \<Rightarrow> [] | Some pools \<Rightarrow> map (\<lambda>(name, ps). (name, max_usage ps)) pools)"

definition SinkInfos :: "Dispatcher \<Rightarrow> bytes list" where
  "SinkInfos d = (case dp_pools d of None \<Rightarrow> [] | Some pools \<Rightarrow> concat (map (\<lambda>(_, ps). map wp_name ps) pools))"

end
