(* ===== verification/Observability.thy ===== *)
theory Observability
  imports Http Metrics Dispatcher
begin

text \<open>
  \<open>internal/observability/observability.go\<close>: the health checker, the health and admin endpoints, the metrics
  middleware and the structured log line. A probe is a closure over a sink outside the gateway: the checker keeps
  its identity, and what each probe does in a round of checks is an argument.
\<close>

subsection \<open>Probes\<close>

datatype probe_outcome = ProbeOk | ProbeErr | ProbePanic

text \<open>How long a probe takes (\<open>None\<close>: it never returns) and how it ends.\<close>

type_synonym probe_run = "duration option \<times> probe_outcome"

record 'p HealthChecker =
  hc_statuses :: "(bytes \<times> bool) list"
  hc_probes :: "(bytes \<times> 'p) list"
  hc_lastCheck :: "instant option"
  hc_stopped :: bool

definition NewHealthChecker :: "'p HealthChecker" where
  "NewHealthChecker = \<lparr>hc_statuses = [], hc_probes = [], hc_lastCheck = None, hc_stopped = False\<rparr>"

definition hc_Register :: "bytes \<Rightarrow> 'p \<Rightarrow> 'p HealthChecker \<Rightarrow> 'p HealthChecker" where
  "hc_Register name probe h = h\<lparr>hc_probes := AList.update name probe (hc_probes h)\<rparr>"

text \<open>
  \<open>runProbe\<close>: a panic is an error; the probe runs in a goroutine of its own, and when it takes longer than the
  timeout the result is that of the context. When both are ready at the same moment, \<open>tie\<close> says which is picked.
\<close>

definition runProbe :: "bool \<Rightarrow> probe_run \<Rightarrow> duration \<Rightarrow> bool" where
  "runProbe tie p timeout =
     (let timeout = (if timeout \<le> 0 then 3 * Second else timeout)
      in case p of
           (None, _) \<Rightarrow> False
         | (Some t, out) \<Rightarrow> if t < timeout \<or> (t = timeout \<and> tie) then out = ProbeOk else False)"

fun run_probes :: "bool \<Rightarrow> ('p \<Rightarrow> probe_run) \<Rightarrow> (bytes \<times> 'p) list \<Rightarrow> (bytes \<times> bool) list \<Rightarrow> (bytes \<times> bool) list" where
  "run_probes tie beh [] statuses = statuses"
| "run_probes tie beh ((name, probe) # ps) statuses =
     run_probes tie beh ps (AList.update name (runProbe tie (beh probe) (3 * Second)) statuses)"

definition checkAll :: "bool \<Rightarrow> ('p \<Rightarrow> probe_run) \<Rightarrow> instant \<Rightarrow> 'p HealthChecker \<Rightarrow> 'p HealthChecker" where
  "checkAll tie beh now h =
     (let probes = hc_probes h; statuses = run_probes tie beh probes []
      in h\<lparr>hc_statuses := statuses, hc_lastCheck := Some now\<rparr>)"

text \<open>\<open>Run\<close>: one check at the start, then one per tick until the stop function was called.\<close>

datatype 'p hc_event = HcTick bool "'p \<Rightarrow> probe_run" instant | HcStop

definition hc_interval :: "duration \<Rightarrow> duration" where
  "hc_interval interval = (if interval \<le> 0 then 5 * Second else interval)"

fun hc_loop :: "'p hc_event list \<Rightarrow> 'p HealthChecker \<Rightarrow> 'p HealthChecker" where
  "hc_loop [] h = h"
| "hc_loop (HcStop # es) h = hc_loop es (h\<lparr>hc_stopped := True\<rparr>)"
| "hc_loop (HcTick tie beh now # es) h = (if hc_stopped h then hc_loop es h else hc_loop es (checkAll tie beh now h))"

definition hc_Status :: "'p HealthChecker \<Rightarrow> (bytes \<times> bool) list" where
  "hc_Status h = hc_statuses h"

fun all_healthy :: "(bytes \<times> bool) list \<Rightarrow> bool" where
  "all_healthy [] = True"
| "all_healthy ((_, healthy) # ss) = (if \<not> healthy then False else all_healthy ss)"

definition Healthy :: "'p HealthChecker \<Rightarrow> bool" where
  "Healthy h = (if all_healthy (hc_statuses h) then 0 < length (hc_statuses h) else False)"

definition SinkProbe :: "('p \<Rightarrow> probe_run) \<Rightarrow> 'p \<Rightarrow> probe_run" where
  "SinkProbe health s = health s"

subsection \<open>Structured log lines\<close>

definition omitempty :: "bytes \<Rightarrow> bytes \<Rightarrow> (bytes \<times> json) list" where
  "omitempty k s = (if s = [] then [] else [(k, jstr s)])"

text \<open>
  \<open>now\<close> is the clock in UTC. Marshalling a struct of strings does not fail, so that the plain-text fallback is
  never used.
\<close>

definition LogJSON :: "gotime \<Rightarrow> bytes \<Rightarrow> bytes \<Rightarrow> bytes \<Rightarrow> bytes \<Rightarrow> bytes \<Rightarrow> bytes \<Rightarrow> bytes" where
  "LogJSON now level msg requestID traceID project errStr =
     pr (JObj ([(''timestamp'', JStr (pr_time now)), (''level'', jstr level), (''message'', jstr msg)]
       @ omitempty ''request_id'' requestID @ omitempty ''trace_id'' traceID @ omitempty ''project'' project
       @ omitempty ''error'' errStr))"

subsection \<open>Endpoints\<close>

text \<open>\<open>gin.H\<close> is a map: its keys are printed in order.\<close>

definition statuses_json :: "(bytes \<times> bool) list \<Rightarrow> json" where
  "statuses_json ss = JObj (map (\<lambda>(k, b). (quote_body k, JBool b)) (sort_key fst ss))"

definition health_endpoint :: "bytes \<Rightarrow> 'p HealthChecker \<Rightarrow> request_ctx \<Rightarrow> request_ctx" where
  "health_endpoint timestamp h c =
     (let status = hc_Status h; healthy = Healthy h; httpStatus = (if \<not> healthy then 503 else 200)
      in answer httpStatus (RJson (JObj [(''components'', statuses_json status), (''status'', JBool healthy),
           (''timestamp'', jstr timestamp)])) c)"

definition ready_endpoint :: "'p HealthChecker \<Rightarrow> request_ctx \<Rightarrow> request_ctx" where
  "ready_endpoint h c =
     (if Healthy h then answer 200 (RJson (JObj [(''ready'', JBool True)])) c
      else answer 503 (RJson (JObj [(''ready'', JBool False)])) c)"

text \<open>The text of an error of \<open>Reload\<close> is an argument: it comes from the packages \<open>os\<close> and \<open>yaml\<close>.\<close>

definition reload_endpoint :: "(config_error \<Rightarrow> bytes) \<Rightarrow> (bytes \<Rightarrow> Config option) \<Rightarrow> bytes option \<Rightarrow> 's Manager \<Rightarrow> 's \<Rightarrow> request_ctx
    \<Rightarrow> 's Manager \<times> 's \<times> request_ctx" where
  "reload_endpoint text_of yaml file m s c =
     (case Reload yaml file m s of
        (Inl e, m, s) \<Rightarrow> (m, s, answer 500 (RJson (JObj [(''error'', jstr (text_of e))])) c)
      | (Inr _, m, s) \<Rightarrow> (m, s, answer 200 (RJson (JObj [(''message'', jstr ''config reloaded'')])) c))"

definition pools_json :: "(bytes \<times> rat) list \<Rightarrow> json" where
  "pools_json ss = JObj (map (\<lambda>(k, u). (quote_body k, JNum (float_text (False, u)))) (sort_key fst ss))"

definition pools_endpoint :: "Dispatcher \<Rightarrow> request_ctx \<Rightarrow> request_ctx" where
  "pools_endpoint d c = answer 200 (RJson (pools_json (GetPoolStatus d))) c"

definition metrics_path :: "Config \<Rightarrow> bytes" where
  "metrics_path cfg = (let p = me_Path (cf_Metrics cfg) in if p = [] then ''/metrics'' else p)"

text \<open>\<open>RegisterHealthEndpoints\<close>: the methods and paths, in the order of registration.\<close>

definition health_routes :: "Config \<Rightarrow> (bytes \<times> bytes) list" where
  "health_routes cfg =
     [(''GET'', ''/health''), (''GET'', ''/ready''), (''GET'', metrics_path cfg), (''POST'', ''/admin/config/reload''), (''GET'', ''/admin/pools'')]"

subsection \<open>The metrics middleware\<close>

definition request_calls :: "duration \<Rightarrow> request_ctx \<Rightarrow> metric_call list" where
  "request_calls dur c =
     (let status = itoa (nat (cx_Status c)); meth = cx_Method c;
          project = (case cx_Keys c ''project_name'' of Some (VStr s) \<Rightarrow> s | _ \<Rightarrow> [])
      in [Inc HTTPRequestsTotal [project, meth, status], Observe HTTPRequestDuration [project, meth, status] dur])"

definition MetricsMiddleware :: "duration \<Rightarrow> (metric_call list \<Rightarrow> 's \<Rightarrow> 's) \<Rightarrow> 's handler" where
  "MetricsMiddleware dur emit next sc = (case next sc of (s, c) \<Rightarrow> (emit (request_calls dur c) s, c))"

subsection \<open>Laws\<close>

lemma update_fresh: "k \<notin> fst ` set xs \<Longrightarrow> AList.update k v xs = xs @ [(k, v)]"
  by (induction xs) auto

lemma run_probes_eq:
  "distinct (map fst acc @ map fst ps) \<Longrightarrow> run_probes tie beh ps acc = acc @ map (\<lambda>(n, p). (n, runProbe tie (beh p) (3 * Second))) ps"
proof (induction ps arbitrary: acc)
  case (Cons x ps)
  obtain n p where x: "x = (n, p)" by fastforce
  have "n \<notin> fst ` set acc" using Cons.prems by (auto simp: x)
  with Cons show ?case by (simp add: x update_fresh)
qed simp

lemma all_healthy_iff: "all_healthy ss \<longleftrightarrow> (\<forall>(_, b)\<in>set ss. b)"
  by (induction ss rule: all_healthy.induct) auto

lemma Register_distinct: "distinct (map fst (hc_probes h)) \<Longrightarrow> distinct (map fst (hc_probes (hc_Register n p h)))"
  by (simp add: hc_Register_def AList.distinct_update)

definition in_time :: "bool \<Rightarrow> probe_run \<Rightarrow> bool" where
  "in_time tie r \<longleftrightarrow> (\<exists>t. r = (Some t, ProbeOk) \<and> (t < 3 * Second \<or> t = 3 * Second \<and> tie))"

lemma runProbe_iff: "runProbe tie r 3000000000 \<longleftrightarrow> in_time tie r"
  by (cases r) (auto simp: runProbe_def in_time_def split: option.splits)

lemma Healthy_checkAll:
  assumes "distinct (map fst (hc_probes h))"
  shows "Healthy (checkAll tie beh now h) \<longleftrightarrow> hc_probes h \<noteq> [] \<and> (\<forall>(_, p)\<in>set (hc_probes h). in_time tie (beh p))"
proof -
  have "hc_statuses (checkAll tie beh now h) = map (\<lambda>(n, p). (n, in_time tie (beh p))) (hc_probes h)"
    using assms by (simp add: checkAll_def run_probes_eq runProbe_iff)
  then show ?thesis by (auto simp: Healthy_def all_healthy_iff case_prod_beta)
qed

lemma checkAll_frame [simp]:
  "hc_probes (checkAll tie beh now h) = hc_probes h" "hc_stopped (checkAll tie beh now h) = hc_stopped h"
  by (simp_all add: checkAll_def Let_def)

text \<open>The last round of checks before the stop, if there was one.\<close>

fun last_round :: "'p hc_event list \<Rightarrow> (bool \<times> ('p \<Rightarrow> probe_run)) option" where
  "last_round [] = None"
| "last_round (HcStop # es) = None"
| "last_round (HcTick tie beh now # es) = (case last_round es of Some r \<Rightarrow> Some r | None \<Rightarrow> Some (tie, beh))"

lemma hc_loop_stopped: "hc_stopped h \<Longrightarrow> hc_loop es h = h"
proof (induction es arbitrary: h)
  case (Cons e es)
  then show ?case by (cases e) (auto intro: Cons.IH)
qed simp

text \<open>
  C36: the health the endpoints report is that of the last round. After any sequence of ticks, the checker is healthy
  exactly if there was a round before it was stopped, at least one probe is registered, and in the last such round every probe
  returned nil within three seconds: an error, a panic and a probe that hangs all count as unhealthy. Both endpoints answer 200 then and
  503 otherwise.
\<close>

theorem health_is_last_round:
  assumes "distinct (map fst (hc_probes h))" "hc_statuses h = []" "\<not> hc_stopped h"
  shows "let h' = hc_loop es h;
           ok = (hc_probes h \<noteq> [] \<and> (case last_round es of None \<Rightarrow> False | Some (tie, beh) \<Rightarrow> \<forall>(_, p)\<in>set (hc_probes h). in_time tie (beh p)))
    in Healthy h' = ok \<and> cx_Status (health_endpoint ts h' c) = (if ok then 200 else 503) \<and> cx_Status (ready_endpoint h' c) = (if ok then 200 else 503)"
proof -
  have gen: "Healthy (hc_loop es h) \<longleftrightarrow> (case last_round es of None \<Rightarrow> Healthy h
      | Some (tie, beh) \<Rightarrow> hc_probes h \<noteq> [] \<and> (\<forall>(_, p)\<in>set (hc_probes h). in_time tie (beh p)))"
    if "distinct (map fst (hc_probes h))" "\<not> hc_stopped h" for h :: "'a HealthChecker"
    using that
  proof (induction es arbitrary: h)
    case (Cons e es)
    show ?case
    proof (cases e)
      case (HcTick tie beh now)
      with Cons.prems Cons.IH [of "checkAll tie beh now h"] Healthy_checkAll [of h tie beh now] show ?thesis
        by (cases "last_round es") auto
    next
      case HcStop
      then show ?thesis by (simp add: hc_loop_stopped Healthy_def)
    qed
  qed simp
  have "\<not> Healthy h" using assms(2) by (simp add: Healthy_def)
  with gen [OF assms(1,3)] have H: "Healthy (hc_loop es h) \<longleftrightarrow>
      (hc_probes h \<noteq> [] \<and> (case last_round es of None \<Rightarrow> False | Some (tie, beh) \<Rightarrow> \<forall>(_, p)\<in>set (hc_probes h). in_time tie (beh p)))"
    by (auto split: option.splits)
  show ?thesis unfolding Let_def H [symmetric] by (simp add: health_endpoint_def ready_endpoint_def Let_def)
qed

theorem health_is_last_round_witness:
  "let h = hc_Register ''gateway'' () NewHealthChecker; es = [HcTick True (\<lambda>_. (Some 0, ProbeOk)) 0, HcTick True (\<lambda>_. (None, ProbeOk)) 5]
   in \<not> Healthy (hc_loop es h) \<and> Healthy (hc_loop (take 1 es) h)"
proof -
  let ?h = "hc_Register ''gateway'' () NewHealthChecker"
  have h: "distinct (map fst (hc_probes ?h))" "hc_statuses ?h = []" "\<not> hc_stopped ?h" "hc_probes ?h = [(''gateway'', ())]"
    by (simp_all add: hc_Register_def NewHealthChecker_def)
  from health_is_last_round [OF h(1-3), of "[HcTick True (\<lambda>_. (Some 0, ProbeOk)) 0, HcTick True (\<lambda>_. (None, ProbeOk)) 5]"]
    health_is_last_round [OF h(1-3), of "[HcTick True (\<lambda>_. (Some 0, ProbeOk)) 0]"]
  show ?thesis by (simp add: h(4) Let_def in_time_def)
qed

end
