(* ===== verification/Logging.thy ===== *)
theory Logging
  imports Disk Decode
begin

text \<open>
  \<open>internal/logging\<close>: log lines go to the console and, for each configured level, to a file per day. Each level has
  a directory of its own, modelled as in \<open>Disk\<close>; the day is an argument, the date in UTC as \<open>2006-01-02\<close> prints it.
  Writing to the console is taken to succeed. Level names are ASCII text, for which \<open>strings.EqualFold\<close> is equality of the folded
  names.
\<close>

subsection \<open>Daily files\<close>

record dailyWriter =
  dw_dir :: "bytes \<times> bytes"            \<comment> \<open>the two parts \<open>filepath.Join\<close> joins\<close>
  dw_level :: bytes
  dw_file :: "os_file option"
  dw_buf :: "bufw option"
  dw_today :: bytes

definition newDailyWriter :: "bytes \<Rightarrow> bytes \<Rightarrow> dailyWriter" where
  "newDailyWriter dir level = \<lparr>dw_dir = (dir, level), dw_level = level, dw_file = None, dw_buf = None, dw_today = []\<rparr>"

text \<open>Flushing and closing the open file; both errors are ignored.\<close>

definition dw_release :: "dailyWriter \<Rightarrow> disk \<Rightarrow> dailyWriter \<times> disk" where
  "dw_release w d =
     (case (dw_file w, dw_buf w) of
        (Some f, Some b) \<Rightarrow>
          (case bw_Flush f b d of (_, b, d) \<Rightarrow>
             (case File_Close f d of (_, f, d) \<Rightarrow> (w\<lparr>dw_file := Some f, dw_buf := Some b\<rparr>, d)))
      | _ \<Rightarrow> (w, d))"

definition dw_rotate :: "bytes \<Rightarrow> dailyWriter \<Rightarrow> disk \<Rightarrow> dailyWriter \<times> disk" where
  "dw_rotate today w d =
     (case dw_release w d of (w, d) \<Rightarrow>
        (case MkdirAll d of
           (Inl _, d) \<Rightarrow> (w, d)
         | (Inr _, d) \<Rightarrow>
             (let name = today @ ''.log''
              in case OpenAppend True name d of
                   (Inl _, d) \<Rightarrow> (w\<lparr>dw_file := None, dw_buf := None\<rparr>, d)
                 | (Inr _, d) \<Rightarrow> (w\<lparr>dw_file := Some (name, True), dw_buf := Some new_bufw, dw_today := today\<rparr>, d))))"

text \<open>The case without a buffer does not arise: a writer with a file has one.\<close>

definition dw_Write :: "bytes \<Rightarrow> bytes \<Rightarrow> dailyWriter \<Rightarrow> disk \<Rightarrow> (nat \<times> os_error option) \<times> dailyWriter \<times> disk" where
  "dw_Write today p w d =
     (case (if dw_today w \<noteq> today then dw_rotate today w d else (w, d)) of (w, d) \<Rightarrow>
        (case (dw_file w, dw_buf w) of
           (Some f, Some b) \<Rightarrow>
             (case bw_Write f p b d of
                ((n, None), b, d) \<Rightarrow> (case bw_Flush f b d of (_, b, d) \<Rightarrow> ((n, None), w\<lparr>dw_buf := Some b\<rparr>, d))
              | ((n, Some e), b, d) \<Rightarrow> ((n, Some e), w\<lparr>dw_buf := Some b\<rparr>, d))
         | _ \<Rightarrow> ((length p, None), w, d)))"

definition dw_Close :: "dailyWriter \<Rightarrow> disk \<Rightarrow> dailyWriter \<times> disk" where
  "dw_Close w d = (case dw_release w d of (w, d) \<Rightarrow> (w\<lparr>dw_file := None\<rparr>, d))"

subsection \<open>Filtering by level\<close>

definition EqualFold :: "bytes \<Rightarrow> bytes \<Rightarrow> bool" where
  "EqualFold s t \<longleftrightarrow> fold_name s = fold_name t"

fun scan_level :: "bytes \<Rightarrow> bytes \<Rightarrow> bool" where
  "scan_level tag [] = False"
| "scan_level tag (c # p) =
     (if length (c # p) < length tag then False
      else if EqualFold (take (length tag) (c # p)) tag then True
      else scan_level tag p)"

definition containsLevel :: "bytes \<Rightarrow> bytes \<Rightarrow> bool" where
  "containsLevel p level = scan_level (CHR ''['' # level @ '']'') p"

definition levelFilter_Write :: "bytes \<Rightarrow> bytes \<Rightarrow> dailyWriter \<Rightarrow> disk \<Rightarrow> (nat \<times> os_error option) \<times> dailyWriter \<times> disk" where
  "levelFilter_Write today p w d =
     (if containsLevel p (dw_level w) then dw_Write today p w d else ((length p, None), w, d))"

subsection \<open>Setup\<close>

record log_state =
  ls_console :: bool
  ls_stdout :: bytes
  ls_writers :: "(dailyWriter \<times> disk) list"    \<comment> \<open>of the current output\<close>
  ls_earlier :: "(dailyWriter \<times> disk) list"    \<comment> \<open>of earlier calls of \<open>Setup\<close>, still in \<open>fileWriters\<close>\<close>

text \<open>\<open>io.MultiWriter\<close> stops at the first writer that fails or falls short.\<close>

fun multi_write :: "bytes \<Rightarrow> bytes \<Rightarrow> (dailyWriter \<times> disk) list \<Rightarrow> (dailyWriter \<times> disk) list" where
  "multi_write today p [] = []"
| "multi_write today p ((w, d) # ws) =
     (case levelFilter_Write today p w d of
        ((n, e), w, d) \<Rightarrow> (w, d) # (if e \<noteq> None \<or> n \<noteq> length p then ws else multi_write today p ws))"

definition log_write :: "bytes \<Rightarrow> bytes \<Rightarrow> log_state \<Rightarrow> log_state" where
  "log_write today p s =
     s\<lparr>ls_stdout := (if ls_console s then ls_stdout s @ p else ls_stdout s), ls_writers := multi_write today p (ls_writers s)\<rparr>"

text \<open>\<open>disks\<close> gives the directory of each level; \<open>hello\<close> is the line \<open>Setup\<close> logs at its end.\<close>

definition Setup :: "(bytes \<Rightarrow> disk) \<Rightarrow> bytes \<Rightarrow> bytes \<Rightarrow> bytes \<Rightarrow> bool \<Rightarrow> bytes list \<Rightarrow> log_state \<Rightarrow> log_state" where
  "Setup disks today hello dir consoleEnabled levels s =
     (let levels = (if levels = [] then [''error'', ''warn''] else levels);
          s = s\<lparr>ls_console := consoleEnabled, ls_earlier := ls_earlier s @ ls_writers s,
                ls_writers := map (\<lambda>lvl. (newDailyWriter dir lvl, disks lvl)) levels\<rparr>
      in log_write today hello s)"

definition Close_logging :: "log_state \<Rightarrow> log_state" where
  "Close_logging s =
     s\<lparr>ls_writers := map (\<lambda>(w, d). dw_Close w d) (ls_writers s), ls_earlier := []\<rparr>"

subsection \<open>Laws of the filter\<close>

definition ascii :: "bytes \<Rightarrow> bool" where
  "ascii s \<longleftrightarrow> list_all (\<lambda>c. ord c < 128) s"

lemma upper_char_ascii: "ord c < 128 \<longleftrightarrow> ord (upper_char c) < 128"
  by (auto simp: upper_char_def between_def)

lemma ascii_upper: "map upper_char x = map upper_char t \<Longrightarrow> ascii t \<Longrightarrow> ascii x"
proof (induction x t rule: list_induct2')
  case (4 c x a t)
  then have "ord (upper_char c) = ord (upper_char a)" by simp
  with 4 upper_char_ascii [of c] upper_char_ascii [of a] show ?case by (simp add: ascii_def)
qed simp_all

lemma fold_name_ascii: "ascii s \<Longrightarrow> fold_name s = map upper_char s"
  by (induction s rule: fold_name.induct) (auto simp: ascii_def)

lemma fold_name_length: "length (fold_name s) \<le> length s \<and> (length (fold_name s) = length s \<longrightarrow> fold_name s = map upper_char s)"
  by (induction s rule: fold_name.induct) auto

lemma EqualFold_ascii:
  assumes "ascii t" "length x = length t"
  shows "EqualFold x t \<longleftrightarrow> map upper_char x = map upper_char t"
proof
  assume "EqualFold x t"
  then have f: "fold_name x = map upper_char t" by (simp add: EqualFold_def fold_name_ascii [OF assms(1)])
  then have "length (fold_name x) = length x" using assms(2) by simp
  with fold_name_length [of x] f show "map upper_char x = map upper_char t" by simp
next
  assume "map upper_char x = map upper_char t"
  with ascii_upper [OF this assms(1)] show "EqualFold x t" by (simp add: EqualFold_def fold_name_ascii assms(1))
qed

lemma scan_level_sublist:
  assumes "ascii tag" "tag \<noteq> []"
  shows "scan_level tag p \<longleftrightarrow> sublist (map upper_char tag) (map upper_char p)"
proof (induction p)
  case Nil
  with assms(2) show ?case by (simp add: sublist_def)
next
  case (Cons c p)
  let ?up = "map upper_char"
  have "sublist (?up tag) (?up (c # p)) \<longleftrightarrow> prefix (?up tag) (?up (c # p)) \<or> sublist (?up tag) (?up p)"
    by (simp only: list.map sublist_Cons_right)
  also have "prefix (?up tag) (?up (c # p)) \<longleftrightarrow> length tag \<le> length (c # p) \<and> ?up (take (length tag) (c # p)) = ?up tag"
    by (auto simp: prefix_def take_map [symmetric] dest: arg_cong [of _ _ length]) (metis append_eq_conv_conj append_take_drop_id length_map)+
  also have "(length tag \<le> length (c # p) \<and> ?up (take (length tag) (c # p)) = ?up tag) \<longleftrightarrow>
      length tag \<le> length (c # p) \<and> EqualFold (take (length tag) (c # p)) tag"
    using EqualFold_ascii [OF assms(1), of "take (length tag) (c # p)"] by auto
  finally have s: "sublist (?up tag) (?up (c # p)) \<longleftrightarrow>
      length tag \<le> length (c # p) \<and> EqualFold (take (length tag) (c # p)) tag \<or> sublist (?up tag) (?up p)" .
  have "\<not> sublist (?up tag) (?up p)" if "length (c # p) < length tag" using that by (auto dest: sublist_length_le)
  with Cons.IH s show ?case by auto
qed

text \<open>
  C37: the level filter looks for the tag. A line goes to the file of a level (an ASCII name) exactly if it contains the level in
  square brackets somewhere, without regard to case: the loop over all positions is the search for a sublist of the text in upper
  case. A line without an opening bracket, such as a structured log line whose members have none, goes to no file.
\<close>

theorem containsLevel_equiv:
  assumes "ascii level"
  shows "(containsLevel p level \<longleftrightarrow> sublist (map upper_char (CHR ''['' # level @ '']'')) (map upper_char p))
    \<and> (CHR ''['' \<notin> set p \<longrightarrow> \<not> containsLevel p level)"
proof -
  have eq: "containsLevel p level \<longleftrightarrow> sublist (map upper_char (CHR ''['' # level @ '']'')) (map upper_char p)"
    unfolding containsLevel_def using assms by (intro scan_level_sublist) (simp_all add: ascii_def)
  moreover have "CHR ''['' \<in> set p" if "sublist (map upper_char (CHR ''['' # level @ '']'')) (map upper_char p)"
  proof -
    have "upper_char (CHR ''['') \<in> set (map upper_char p)" using set_mono_sublist [OF that] by simp
    then obtain c where "c \<in> set p" "upper_char c = CHR ''[''" by (auto simp: upper_char_def between_def)
    moreover from this have "c = CHR ''[''" by (auto simp: upper_char_def between_def split: if_splits dest: arg_cong [of _ _ ord])
    ultimately show ?thesis by simp
  qed
  ultimately show ?thesis by blast
qed

theorem containsLevel_equiv_witness:
  "containsLevel ''2026 [Warn] x'' ''warn'' \<and> \<not> containsLevel ''{level:error}'' ''error''"
proof -
  have "sublist (map upper_char (CHR ''['' # ''warn'' @ '']'')) (map upper_char ''2026 [Warn] x'')" by code_simp
  moreover have "\<not> sublist (map upper_char (CHR ''['' # ''error'' @ '']'')) (map upper_char ''{level:error}'')" by code_simp
  moreover have "ascii ''warn''" "ascii ''error''" by code_simp+
  ultimately show ?thesis using containsLevel_equiv by blast
qed

subsection \<open>Laws of the daily files\<close>

lemma no_fault [simp]: "dk_faults d = [] \<Longrightarrow> next_fault d = (None, d)"
  by (simp add: next_fault_def)

text \<open>A writer between two calls: nothing opened yet, or the file of its day, with everything flushed.\<close>

definition dw_clean :: "dailyWriter \<Rightarrow> disk \<Rightarrow> bool" where
  "dw_clean w d \<longleftrightarrow> dk_faults d = [] \<and>
     (if dw_today w = [] then dw_file w = None
      else dw_file w = Some (dw_today w @ ''.log'', True) \<and> dw_buf w = Some new_bufw \<and> has_file (dw_today w @ ''.log'') d)"

lemma append_file_faults [simp]: "dk_faults (append_file n p d) = dk_faults d" "dk_made (append_file n p d) = dk_made d"
  by (simp_all add: append_file_def split: option.split node.split)

lemma append_file_Nil: "has_file n d \<Longrightarrow> map_of (dk_dir (append_file n [] d)) m = map_of (dk_dir d) m"
  by (auto simp: append_file_def has_file_def map_of_set_file)

lemma append_file_other: "m \<noteq> n \<Longrightarrow> map_of (dk_dir (append_file n p d)) m = map_of (dk_dir d) m"
  by (auto simp: append_file_def map_of_set_file split: option.split node.split)

lemma append_file_has: "has_file m (append_file n p d) = has_file m d"
  by (auto simp: append_file_def has_file_def map_of_set_file split: option.split node.split)

lemma buffered_write:
  assumes "dk_faults d = []" "has_file n d"
  shows "\<exists>d1. bw_Write (n, True) p new_bufw d = ((length p, None), \<lparr>bw_buf = (if length p \<le> buf_size then p else []), bw_err = None\<rparr>, d1)
    \<and> bw_Flush (n, True) \<lparr>bw_buf = (if length p \<le> buf_size then p else []), bw_err = None\<rparr> d1 = (None, new_bufw, if p = [] then d else append_file n p d)"
  using assms by (auto simp: bw_Write_def bw_Flush_def bw_direct_def bw_put_def new_bufw_def File_Write_def)

lemma dw_rotate_clean:
  assumes "dw_clean w d" "today \<noteq> dw_today w" "map_of (dk_dir d) (today @ ''.log'') \<noteq> Some NDir"
  shows "\<exists>d'. dw_rotate today w d = (w\<lparr>dw_file := Some (today @ ''.log'', True), dw_buf := Some new_bufw, dw_today := today\<rparr>, d')
    \<and> dk_faults d' = [] \<and> has_file (today @ ''.log'') d' \<and> file_data (today @ ''.log'') d' = file_data (today @ ''.log'') d
    \<and> (\<forall>m. m \<noteq> today @ ''.log'' \<longrightarrow> map_of (dk_dir d') m = map_of (dk_dir d) m)"
proof -
  obtain w1 where r: "dw_release w d = (w1, d)" "w1\<lparr>dw_file := x, dw_buf := y, dw_today := z\<rparr> = w\<lparr>dw_file := x, dw_buf := y, dw_today := z\<rparr>" for x y z
    using assms(1) by (cases "dw_today w = []") (auto simp: dw_clean_def dw_release_def bw_Flush_def new_bufw_def File_Close_def)
  have f: "dk_faults d = []" using assms(1) by (simp add: dw_clean_def)
  show ?thesis
  proof (cases "map_of (dk_dir d) (today @ ''.log'')")
    case None
    then show ?thesis using f r
      by (intro exI [of _ "d\<lparr>dk_made := True, dk_dir := dk_dir d @ [(today @ ''.log'', NFile [] 0)]\<rparr>"])
        (simp add: dw_rotate_def MkdirAll_def OpenAppend_def has_file_def file_data_def map_add_def Let_def split: option.split)
  next
    case (Some nd)
    then show ?thesis using f r assms(3) by (cases nd) (auto simp: dw_rotate_def MkdirAll_def OpenAppend_def has_file_def file_data_def)
  qed
qed

text \<open>
  A log line lands in the file of its day. While no file operation fails, a write on a given day appends exactly the line to
  the file of that day -- opening it, and leaving yesterday's, when the day has changed -- reports its length, changes no other
  file, and leaves the writer ready for the next line; nothing stays in the buffer.
\<close>

theorem log_line_lands:
  assumes "dw_clean w d" "today \<noteq> []" "map_of (dk_dir d) (today @ ''.log'') \<noteq> Some NDir" "dw_Write today p w d = (r, w', d')"
  shows "r = (length p, None) \<and> dw_clean w' d' \<and> dw_today w' = today
    \<and> file_data (today @ ''.log'') d' = file_data (today @ ''.log'') d @ p
    \<and> (\<forall>m. m \<noteq> today @ ''.log'' \<longrightarrow> map_of (dk_dir d') m = map_of (dk_dir d) m)"
proof -
  let ?n = "today @ ''.log''"
  obtain w1 d1 where 1: "(if dw_today w \<noteq> today then dw_rotate today w d else (w, d)) = (w1, d1)"
      "dw_file w1 = Some (?n, True)" "dw_buf w1 = Some new_bufw" "dw_today w1 = today" "dk_faults d1 = []" "has_file ?n d1"
      "file_data ?n d1 = file_data ?n d" "\<forall>m. m \<noteq> ?n \<longrightarrow> map_of (dk_dir d1) m = map_of (dk_dir d) m"
  proof (cases "dw_today w = today")
    case True
    with assms(1,2) show thesis by (intro that [of w d]) (auto simp: dw_clean_def)
  next
    case False
    with dw_rotate_clean [OF assms(1) _ assms(3)] show thesis by (auto intro: that)
  qed
  from buffered_write [OF 1(5,6), of p] have "r = (length p, None)" "w' = w1" "d' = (if p = [] then d1 else append_file ?n p d1)"
    using assms(4) 1(1-3) by (auto simp: dw_Write_def)
  then show ?thesis using 1 assms(2) append_file_data [OF 1(6)] by (auto simp: dw_clean_def append_file_other append_file_has)
qed

definition empty_disk :: disk where
  "empty_disk = \<lparr>dk_made = False, dk_dir = [], dk_faults = []\<rparr>"

theorem log_line_lands_witness:
  "\<exists>r w d. dw_Write ''2026-01-02'' ''hello'' (newDailyWriter ''logs'' ''warn'') empty_disk = (r, w, d)
     \<and> file_data ''2026-01-02.log'' d = ''hello'' \<and> r = (5, None)"
proof -
  obtain r w d where W: "dw_Write ''2026-01-02'' ''hello'' (newDailyWriter ''logs'' ''warn'') empty_disk = (r, w, d)" by (metis prod_cases3)
  have "dw_clean (newDailyWriter ''logs'' ''warn'') empty_disk" by (simp add: dw_clean_def newDailyWriter_def empty_disk_def)
  from log_line_lands [OF this _ _ W] W show ?thesis by (auto simp: empty_disk_def file_data_def)
qed

end
