(* ===== verification/Server.thy ===== *)
theory Server
  imports Auth RateLimit Wal_Replay Dispatcher Observability Logging
begin

text \<open>
  \<open>internal/server\<close>: the middlewares, the upload handler, the route they make, and the gateway that holds the
  parts together: start, background replay, shutdown. The goroutine pool (\<open>ants\<close>) is a third-party package: whether it accepts a
  task is part of the environment, and the tasks it has accepted and not run yet are part of the state; each may run at any time.
\<close>

subsection \<open>State\<close>

record 'l Gateway =
  gw_cfg :: Config                     \<comment> \<open>what the manager's \<open>Get\<close> returns\<close>
  gw_disp :: Dispatcher
  gw_world :: world                    \<comment> \<open>messages, write-ahead log, disk\<close>
  gw_walWriter :: bool                 \<comment> \<open>\<open>walWriter\<close> is not nil\<close>
  gw_auth :: Middleware
  gw_rl :: "'l rl_Manager"
  gw_metrics :: "metric_call list"
  gw_tasks :: "addr list"              \<comment> \<open>messages of tasks the pool accepted and has not run\<close>
  gw_logs :: "bytes list"
  gw_released :: bool                  \<comment> \<open>the goroutine pool was released\<close>
  gw_stopCh :: bool                    \<comment> \<open>closed\<close>
  gw_closed :: bool                    \<comment> \<open>\<open>closeOnce\<close> is done\<close>

text \<open>What a request meets: clocks, the identifier \<open>uuid.New\<close> gives, the choices of pools.\<close>

record request_env =
  re_uuid :: bytes
  re_auth :: auth_env
  re_now :: instant
  re_time :: gotime
  re_took :: duration
  re_pick :: "nat option"
  re_submitted :: bool
  re_jsonError :: bytes

subsection \<open>Middlewares\<close>

definition RequestIDMiddleware :: "bytes \<Rightarrow> 's step" where
  "RequestIDMiddleware uuid s c =
     (let requestID = cx_Header c ''X-Request-Id'';
          requestID = (if requestID = [] then uuid else requestID);
          c = ctx_set ''request_id'' (VStr requestID) c
      in (True, s, c\<lparr>cx_OutHeader := (cx_OutHeader c)(''X-Request-Id'' \<mapsto> requestID)\<rparr>))"

definition logJSON :: "gotime \<Rightarrow> bytes \<Rightarrow> bytes \<Rightarrow> bytes \<Rightarrow> bytes \<Rightarrow> bytes \<Rightarrow> bytes \<Rightarrow> bytes" where
  "logJSON now level msg requestID traceID project errStr =
     pr (JObj ([(''timestamp'', JStr (pr_time now)), (''level'', jstr level), (''message'', jstr msg)]
       @ omitempty ''request_id'' requestID @ omitempty ''trace_id'' traceID @ omitempty ''project'' project
       @ omitempty ''error'' errStr))"

definition request_line :: "gotime \<Rightarrow> duration \<Rightarrow> request_ctx \<Rightarrow> bytes" where
  "request_line now took c =
     (let requestID = ctx_string ''request_id'' c;
          requestID = (if requestID = [] then ''unknown'' else requestID);
          traceID = cx_Header c ''X-Trace-Id'';
          traceID = (if traceID = [] then requestID else traceID)
      in logJSON now ''info'' ''request'' requestID traceID []
           (''method='' @ cx_Method c @ '' path='' @ cx_Path c @ '' status='' @ itoa (nat (cx_Status c)) @ '' duration='' @ Duration_String took))"

definition LoggingMiddleware :: "gotime \<Rightarrow> duration \<Rightarrow> 'l Gateway handler" where
  "LoggingMiddleware now took next gc =
     (case next gc of (g, c) \<Rightarrow> (g\<lparr>gw_logs := gw_logs g @ [request_line now took c]\<rparr>, c))"

text \<open>
  \<open>http.MaxBytesReader\<close> takes a negative limit for zero; reading past the limit is an error. A request of the
  HTTP server always has a body; reading through nil would panic, and the recovery middleware answers 500.
\<close>

definition read_limited :: "int \<Rightarrow> bytes \<Rightarrow> bytes option" where
  "read_limited n b = (if int (length b) \<le> max 0 n then Some b else None)"

definition BodyCacheMiddleware :: "Config \<Rightarrow> 's step" where
  "BodyCacheMiddleware cfg s c =
     (let maxBytes = sv_MaxBodyBytes (cf_Server cfg);
          maxBytes = (if maxBytes \<le> 0 then 2 ^ 20 else maxBytes)
      in case cx_Body c of
           NilBody \<Rightarrow> (False, s, c\<lparr>cx_Status := 500, cx_Aborted := True\<rparr>)
         | BrokenBody _ \<Rightarrow> (False, s, refuse 413 ''request body too large'' c)
         | FullBody b \<Rightarrow>
             (case read_limited (wrap64 (maxBytes + 1)) b of
                None \<Rightarrow> (False, s, refuse 413 ''request body too large'' c)
              | Some rawBody \<Rightarrow>
                  if int (length rawBody) > maxBytes then (False, s, refuse 413 ''request body too large'' c)
                  else (True, s, ctx_set ''raw_body'' (VBytes rawBody) (c\<lparr>cx_Body := FullBody rawBody\<rparr>))))"

definition GetRawData :: "request_ctx \<Rightarrow> bytes option" where
  "GetRawData c = (case cx_Body c of FullBody b \<Rightarrow> Some b | _ \<Rightarrow> None)"

definition resolve_body :: "request_ctx \<Rightarrow> (int \<times> bytes) + (bytes \<times> request_ctx)" where
  "resolve_body c =
     (case cx_Keys c ''raw_body'' of
        Some (VBytes rawBody) \<Rightarrow> Inr (rawBody, c)
      | Some (VStr _) \<Rightarrow> Inl (500, ''internal error'')
      | None \<Rightarrow>
          (case GetRawData c of
             None \<Rightarrow> Inl (400, ''failed to read body'')
           | Some rawBody \<Rightarrow> Inr (rawBody, ctx_set ''raw_body'' (VBytes rawBody) c)))"

definition ProjectResolutionMiddleware :: "Config \<Rightarrow> 's step" where
  "ProjectResolutionMiddleware cfg s c =
     (case resolve_body c of
        Inl (code, msg) \<Rightarrow> (False, s, refuse code msg c)
      | Inr (rawBody, c) \<Rightarrow>
          (case peek_project rawBody of
             None \<Rightarrow> (False, s, refuse 400 ''Project is required'' c)
           | Some [] \<Rightarrow> (False, s, refuse 400 ''Project is required'' c)
           | Some project \<Rightarrow>
               (case GetProject project cfg of
                  None \<Rightarrow> (False, s, refuse 404 (''unknown project: '' @ project) c)
                | Some projCfg \<Rightarrow>
                    if pc_AuthRequired projCfg \<and> cx_Keys c ''app_key'' = None
                    then (False, s, refuse 401 ''authentication required'' c)
                    else (True, s, ctx_set ''project_name'' (VStr (pc_Name projCfg)) c))))"

subsection \<open>Uploading\<close>

definition upload_message :: "bytes \<Rightarrow> bytes \<Rightarrow> UploadRequest \<Rightarrow> gotime \<Rightarrow> bytes \<Rightarrow> Message \<Rightarrow> Message" where
  "upload_message requestID traceID req now env m =
     m\<lparr>msg_RequestID := requestID, msg_TraceID := traceID, msg_Project := req_Project req, msg_Router := req_Router req,
       msg_Data := req_Data req, msg_Timestamp := now, msg_Env := env\<rparr>"

definition upload_checked :: "request_env \<Rightarrow> UploadRequest \<Rightarrow> 'l Gateway step" where
  "upload_checked env req g c =
     (let requestID = ctx_string ''request_id'' c;
          traceID = cx_Header c ''X-Trace-Id'';
          traceID = (if traceID = [] then requestID else traceID)
      in case AcquireMessage (re_pick env) (wd_heap (gw_world g)) of (a, h) \<Rightarrow>
        (let m = upload_message requestID traceID req (re_time env) (sv_Env (cf_Server (gw_cfg g))) (the (hp_mem h a));
             g = g\<lparr>gw_world := (gw_world g)\<lparr>wd_heap := put_message a m h\<rparr>\<rparr>
         in if \<not> re_submitted env
            then (False, g\<lparr>gw_world := release (Some a) (gw_world g)\<rparr>, answer 503 (response 503 ''server busy, please retry'') c)
            else (False, g\<lparr>gw_tasks := gw_tasks g @ [a]\<rparr>,
                  answer 200 (RUpload \<lparr>resp_Code = 0, resp_Message = ''success'', resp_RequestID = requestID, resp_TraceID = traceID\<rparr>) c)))"

definition UploadHandler :: "request_env \<Rightarrow> 'l Gateway step" where
  "UploadHandler env g c =
     (case cx_Keys c ''raw_body'' of
        None \<Rightarrow> (False, g, answer 500 (response 500 ''internal error: body not available'') c)
      | Some (VStr _) \<Rightarrow> (False, g, answer 500 (response 500 ''internal error'') c)
      | Some (VBytes rawBody) \<Rightarrow>
          (let cfg = gw_cfg g
           in if int (length rawBody) > sv_MaxBodyBytes (cf_Server cfg)
              then (False, g, answer 413 (response 413 ''request body too large'') c)
              else case unmarshal_upload rawBody of
                None \<Rightarrow> (False, g, answer 400 (response 400 (''invalid JSON: '' @ re_jsonError env)) c)
              | Some req \<Rightarrow>
                  if (case GetProject (req_Project req) cfg of
                        None \<Rightarrow> False
                      | Some p \<Rightarrow> pc_MaxBodyBytes p > 0 \<and> int (length rawBody) > pc_MaxBodyBytes p)
                  then (False, g, answer 413 (response 413 ''request body exceeds project limit'') c)
                  else upload_checked env req g c))"

text \<open>The task that \<open>Submit\<close> got; when the dispatch fails, the fields of the message are logged as they are then.\<close>

definition run_task :: "dispatch_env \<Rightarrow> gotime \<Rightarrow> (dispatch_error \<Rightarrow> bytes) \<Rightarrow> nat \<Rightarrow> 'l Gateway \<Rightarrow> 'l Gateway" where
  "run_task denv now text_of i g =
     (let a = gw_tasks g ! i; g = g\<lparr>gw_tasks := take i (gw_tasks g) @ drop (Suc i) (gw_tasks g)\<rparr>
      in case Dispatch (gw_cfg g) denv (Some a) (gw_disp g) (gw_world g) of
           (r, d, wd) \<Rightarrow>
             (let g = g\<lparr>gw_disp := d, gw_world := wd\<rparr>
              in case r of
                   Inr _ \<Rightarrow> g
                 | Inl Panicked \<Rightarrow> g
                 | Inl e \<Rightarrow>
                     (let m = the (hp_mem (wd_heap wd) a)
                      in g\<lparr>gw_logs := gw_logs g @ [LogJSON now ''error'' ''dispatch failed'' (msg_RequestID m) (msg_TraceID m) (msg_Project m) (text_of e)]\<rparr>)))"

subsection \<open>Routes\<close>

definition on_auth :: "Middleware step \<Rightarrow> 'l Gateway step" where
  "on_auth st g c = (case st (gw_auth g) c of (ok, m, c) \<Rightarrow> (ok, g\<lparr>gw_auth := m\<rparr>, c))"

definition on_rl :: "'l rl_state step \<Rightarrow> 'l Gateway step" where
  "on_rl st g c = (case st (gw_rl g, gw_metrics g) c of (ok, (m, mt), c) \<Rightarrow> (ok, g\<lparr>gw_rl := m, gw_metrics := mt\<rparr>, c))"

definition with_cfg :: "(Config \<Rightarrow> 'l Gateway step) \<Rightarrow> 'l Gateway step" where
  "with_cfg st g c = st (gw_cfg g) g c"

text \<open>\<open>staticKeyStore\<close> and \<open>authMiddleware\<close>: \<open>NewMiddleware\<close> returns no error.\<close>

definition static_GetSecret :: "(bytes \<rightharpoonup> bytes) \<Rightarrow> bytes \<Rightarrow> unit + bytes" where
  "static_GetSecret keys appKey = (case keys appKey of None \<Rightarrow> Inr [] | Some secret \<Rightarrow> Inr secret)"

definition staticKeyStore :: "(bytes \<rightharpoonup> bytes) \<Rightarrow> AppKeyStore" where
  "staticKeyStore keys = \<lparr>ks_GetSecret = static_GetSecret keys, ks_IsAuthorized = (\<lambda>_ _. Inr True)\<rparr>"

definition gateway_keys :: "bytes \<rightharpoonup> bytes" where
  "gateway_keys = [''test-app-key'' \<mapsto> ''test-secret'']"

definition authMiddleware :: "request_env \<Rightarrow> 'l Gateway step" where
  "authMiddleware env g c = on_auth (Handler (cf_Auth (gw_cfg g)) (staticKeyStore gateway_keys) (re_auth env)) g c"

definition emit :: "metric_call list \<Rightarrow> 'l Gateway \<Rightarrow> 'l Gateway" where
  "emit calls g = g\<lparr>gw_metrics := gw_metrics g @ calls\<rparr>"

text \<open>The handlers every route has, without the recovery from panics, and those of the upload route.\<close>

definition common_handlers :: "'l limiter_api \<Rightarrow> request_env \<Rightarrow> 'l Gateway handler list" where
  "common_handlers api env =
     [handler (RequestIDMiddleware (re_uuid env)),
      MetricsMiddleware (re_took env) emit,
      LoggingMiddleware (re_time env) (re_took env),
      handler (on_rl (GlobalMiddleware api (re_now env)))]"

definition upload_route :: "'l limiter_api \<Rightarrow> request_env \<Rightarrow> 'l Gateway handler list" where
  "upload_route api env =
     common_handlers api env @
     [handler (with_cfg BodyCacheMiddleware),
      handler (authMiddleware env),
      handler (with_cfg ProjectResolutionMiddleware),
      handler (with_cfg (\<lambda>cfg. on_rl (ProjectMiddleware api cfg (re_now env)))),
      handler (UploadHandler env)]"

text \<open>The profiling route, when it is on.\<close>

definition pprof_route :: "Config \<Rightarrow> bytes option" where
  "pprof_route cfg =
     (if pp_Enabled (cf_Pprof cfg)
      then Some ((if pp_Path (cf_Pprof cfg) = [] then ''/debug/pprof'' else pp_Path (cf_Pprof cfg)) @ ''/*action'')
      else None)"

subsection \<open>Start\<close>

definition resolveBackpressure :: "bytes \<Rightarrow> Backpressure" where
  "resolveBackpressure s =
     (let l = ToLower s
      in if l = ''block'' then BackpressureBlock else if l = ''fallback'' then BackpressureFallback else BackpressureDrop)"

definition initWAL :: "Config \<Rightarrow> Backpressure \<Rightarrow> disk \<Rightarrow> (wal_error + Writer option) \<times> disk" where
  "initWAL cfg bp d =
     (if bp \<noteq> BackpressureFallback \<and> \<not> wa_Enabled (cf_WAL cfg) then (Inr None, d)
      else
        (let walCfg = \<lparr>cfg_Dir = wa_Dir (cf_WAL cfg), cfg_MaxSegmentBytes = wa_MaxSegmentBytes (cf_WAL cfg),
               cfg_MaxSegments = wa_MaxSegments (cf_WAL cfg), cfg_SyncInterval = wa_SyncInterval (cf_WAL cfg)\<rparr>
         in case NewWriter walCfg d of
              (Inl e, d) \<Rightarrow> (Inl e, d)
            | (Inr w, d) \<Rightarrow> (Inr (Some w), d)))"

definition gateway_registry :: sink_Registry where
  "gateway_registry = sink_Register ''kafka'' kafka_factory (sink_Register ''redis'' redis_factory sink_NewRegistry)"

datatype new_error = NewConfig config_error | NewWal wal_error | NewDispatch | NewAnts

text \<open>
  \<open>New\<close>, first the part after the configuration was loaded. A writer that was opened is closed again when a later part fails; the
  disk is returned in every case. \<open>during\<close> and \<open>sink_ok\<close> are for the shutdown of the pools when the goroutine pool cannot be made.
\<close>

definition assemble :: "'l limiter_api \<Rightarrow> bool \<Rightarrow> (WorkerPool \<times> world \<Rightarrow> WorkerPool \<times> world) \<Rightarrow> (bytes \<Rightarrow> bool) \<Rightarrow> Config \<Rightarrow> disk
    \<Rightarrow> (new_error + 'l Gateway) \<times> disk" where
  "assemble api ants_ok during sink_ok cfg d =
     (let bp = resolveBackpressure (sv_Backpressure (cf_Server cfg))
      in case initWAL cfg bp d of
           (Inl e, d) \<Rightarrow> (Inl (NewWal e), d)
         | (Inr walWriter, d) \<Rightarrow>
             (case Initialize cfg (NewDispatcher gateway_registry (walWriter \<noteq> None) bp) of
                None \<Rightarrow> (Inl NewDispatch, case walWriter of None \<Rightarrow> d | Some w \<Rightarrow> snd (Close w d))
              | Some disp \<Rightarrow>
                  (let w = (case walWriter of None \<Rightarrow> blank_writer DefaultConfig | Some w \<Rightarrow> snd (StartReplay (5 * Second) w))
                   in if \<not> ants_ok
                      then (Inl NewAnts,
                            let d = (if walWriter = None then d else snd (Close w d))
                            in wd_disk (snd (Dispatcher_Shutdown during sink_ok disp \<lparr>wd_heap = empty_heap, wd_wal = w, wd_disk = d\<rparr>)))
                      else (Inr \<lparr>gw_cfg = cfg, gw_disp = disp,
                              gw_world = \<lparr>wd_heap = empty_heap, wd_wal = w, wd_disk = d\<rparr>,
                              gw_walWriter = (walWriter \<noteq> None), gw_auth = NewMiddleware,
                              gw_rl = \<lparr>rl_lims = [newLimiter api (sv_GlobalRateLimit (cf_Server cfg))], rl_projectRL = Map.empty, rl_globalRL = 0\<rparr>,
                              gw_metrics = [SetGauge PoolCapacity [] (of_int (sv_AntsPoolSize (cf_Server cfg)))],
                              gw_tasks = [], gw_logs = [], gw_released = False, gw_stopCh = False, gw_closed = False\<rparr>, d))))"

definition New :: "'l limiter_api \<Rightarrow> bool \<Rightarrow> (WorkerPool \<times> world \<Rightarrow> WorkerPool \<times> world) \<Rightarrow> (bytes \<Rightarrow> bool) \<Rightarrow> (bytes \<Rightarrow> Config option)
    \<Rightarrow> bytes option \<Rightarrow> bytes \<Rightarrow> disk \<Rightarrow> (new_error + 'l Gateway) \<times> disk" where
  "New api ants_ok during sink_ok yaml file cfgPath d =
     (case NewManager yaml file cfgPath () of
        (Inl e, _) \<Rightarrow> (Inl (NewConfig e), d)
      | (Inr cfgMgr, _) \<Rightarrow> assemble api ants_ok during sink_ok (the (Get cfgMgr)) d)"

subsection \<open>Background replay\<close>

definition messageFromWALEntry :: "nat option \<Rightarrow> Entry \<Rightarrow> msg_heap \<Rightarrow> addr \<times> msg_heap" where
  "messageFromWALEntry pick entry h =
     (case AcquireMessage pick h of (a, h) \<Rightarrow>
        (a, put_message a ((the (hp_mem h a))\<lparr>msg_RequestID := ent_RequestID entry, msg_TraceID := ent_TraceID entry,
              msg_Project := ent_Project entry, msg_Router := ent_Router entry, msg_Data := ent_Data entry,
              msg_Timestamp := ent_Timestamp entry, msg_Env := ent_Env entry\<rparr>) h))"

text \<open>The callback; \<open>slept\<close> is what happens to the dispatcher and the messages while it sleeps.\<close>

definition replay_callback :: "Config \<Rightarrow> (duration \<Rightarrow> Dispatcher \<times> world \<Rightarrow> Dispatcher \<times> world) \<Rightarrow> nat option \<Rightarrow> dispatch_env
    \<Rightarrow> (Dispatcher \<times> world) callback" where
  "replay_callback cfg slept pick denv entry s =
     (if ent_Project entry = [] then (CbErr, s)
      else case ReplayBackoff (ent_Project entry) (fst s) of
        Inl _ \<Rightarrow> (CbErr, s)
      | Inr delay \<Rightarrow>
          (case (if delay > 0 then slept delay s else s) of (d, wd) \<Rightarrow>
             (case messageFromWALEntry pick entry (wd_heap wd) of (a, h) \<Rightarrow>
                (case DispatchStrict cfg denv (Some a) d (wd\<lparr>wd_heap := h\<rparr>) of
                   (Inl Panicked, d, wd) \<Rightarrow> (CbPanic, (d, wd))
                 | (Inl _, d, wd) \<Rightarrow> (CbErr, (d, wd))
                 | (Inr _, d, wd) \<Rightarrow> (CbOk, (d, wd))))))"

definition replay_round :: "(duration \<Rightarrow> Dispatcher \<times> world \<Rightarrow> Dispatcher \<times> world) \<Rightarrow> nat option \<Rightarrow> dispatch_env \<Rightarrow> 'l Gateway \<Rightarrow> 'l Gateway" where
  "replay_round slept pick denv g =
     (if \<not> gw_walWriter g then g
      else case replay_tick (wd_wal (gw_world g)) (replay_callback (gw_cfg g) slept pick denv) (gw_disp g, gw_world g) (wd_disk (gw_world g)) of
        ((d, wd), dsk) \<Rightarrow> g\<lparr>gw_disp := d, gw_world := wd\<lparr>wd_disk := dsk\<rparr>\<rparr>)"

subsection \<open>Stop\<close>

text \<open>
  The end of \<open>Run\<close> after a signal: the HTTP server has stopped taking requests, the pools shut down, the log is
  closed. Tasks the goroutine pool still holds are not waited for.
\<close>

definition close_wal :: "'l Gateway \<Rightarrow> 'l Gateway" where
  "close_wal g =
     (if \<not> gw_walWriter g then g
      else case Close (wd_wal (gw_world g)) (wd_disk (gw_world g)) of
        (w, d) \<Rightarrow> g\<lparr>gw_world := (gw_world g)\<lparr>wd_wal := w, wd_disk := d\<rparr>\<rparr>)"

definition stopMetrics :: "'l Gateway \<Rightarrow> 'l Gateway" where
  "stopMetrics g = g\<lparr>gw_stopCh := True\<rparr>"

definition Run_shutdown :: "(WorkerPool \<times> world \<Rightarrow> WorkerPool \<times> world) \<Rightarrow> (bytes \<Rightarrow> bool) \<Rightarrow> 'l Gateway \<Rightarrow> 'l Gateway" where
  "Run_shutdown during sink_ok g =
     (case Dispatcher_Shutdown during sink_ok (gw_disp g) (gw_world g) of
        (d, wd) \<Rightarrow> stopMetrics (close_wal (g\<lparr>gw_disp := d, gw_world := wd\<rparr>)))"

definition Close_gateway :: "'l Gateway \<Rightarrow> 'l Gateway" where
  "Close_gateway g =
     (if gw_closed g then g
      else close_wal ((stopMetrics g)\<lparr>gw_released := True, gw_closed := True\<rparr>))"

definition report_metrics :: "nat \<Rightarrow> 'l Gateway \<Rightarrow> 'l Gateway" where
  "report_metrics running g =
     (if gw_stopCh g then g else emit [SetGauge PoolGoroutines [] (of_nat running)] g)"

text \<open>
  \<open>Run\<close>: a server that cannot listen ends it at once, with an error. \<open>gateway_main\<close> is the command: \<open>log.Fatalf\<close> exits without the
  deferred \<open>Close\<close>. \<open>served\<close> is everything that happens while the server runs; the result is the exit status and the disk.
\<close>

definition Run :: "bool \<Rightarrow> (WorkerPool \<times> world \<Rightarrow> WorkerPool \<times> world) \<Rightarrow> (bytes \<Rightarrow> bool) \<Rightarrow> 'l Gateway \<Rightarrow> bool \<times> 'l Gateway" where
  "Run listen_ok during sink_ok g = (if listen_ok then (True, Run_shutdown during sink_ok g) else (False, stopMetrics g))"

definition gateway_main :: "'l limiter_api \<Rightarrow> bool \<Rightarrow> (WorkerPool \<times> world \<Rightarrow> WorkerPool \<times> world) \<Rightarrow> (bytes \<Rightarrow> bool) \<Rightarrow> bool
    \<Rightarrow> ('l Gateway \<Rightarrow> 'l Gateway) \<Rightarrow> (bytes \<Rightarrow> Config option) \<Rightarrow> bytes option \<Rightarrow> bytes \<Rightarrow> disk \<Rightarrow> int \<times> disk" where
  "gateway_main api ants_ok during sink_ok listen_ok served yaml file configPath d =
     (case New api ants_ok during sink_ok yaml file configPath d of
        (Inl _, d) \<Rightarrow> (1, d)
      | (Inr g, d) \<Rightarrow>
          (case Run listen_ok during sink_ok (served g) of
             (True, g) \<Rightarrow> (0, wd_disk (gw_world (Close_gateway g)))
           | (False, g) \<Rightarrow> (1, wd_disk (gw_world g))))"

text \<open>The probes: one per sink of the dispatcher, and one for the gateway itself that never fails.\<close>

fun register_probes :: "bytes list \<Rightarrow> (bytes option) HealthChecker \<Rightarrow> (bytes option) HealthChecker" where
  "register_probes [] h = h"
| "register_probes (name # ns) h = register_probes ns (hc_Register name (Some name) h)"

definition registerSinkProbes :: "Dispatcher \<Rightarrow> (bytes option) HealthChecker \<Rightarrow> (bytes option) HealthChecker" where
  "registerSinkProbes d h = hc_Register ''gateway'' None (register_probes (SinkInfos d) h)"

end
