(* ===== verification/Auth_Laws.thy ===== *)
theory Auth_Laws
  imports Auth
begin

text \<open>
  The laws of the authentication: which requests pass, the bound and the invariant of the nonce cache, and
  that a nonce passes once while it is remembered.
\<close>

subsection \<open>The cache\<close>

definition cache_ok :: "nonce_cache \<Rightarrow> bool" where
  "cache_ok c \<longleftrightarrow> distinct (map fst c) \<and> [] \<notin> fst ` set c"

lemma cache_ok_purge: "cache_ok c \<Longrightarrow> cache_ok (purge_expired t c)"
  by (auto simp: cache_ok_def purge_expired_def distinct_map inj_on_def)

lemma set_delete_keys: "set (AList.delete k c) = {x \<in> set c. fst x \<noteq> k}"
  by (auto simp: AList.delete_eq)

lemma update_new_key: "k \<notin> fst ` set c \<Longrightarrow> AList.update k v c = c @ [(k, v)]"
  by (induction c) auto

lemma cache_ok_delete: "cache_ok c \<Longrightarrow> cache_ok (AList.delete k c)"
  by (auto simp: cache_ok_def AList.distinct_delete set_delete_keys)

lemma scan_oldest_min:
  "[] \<notin> fst ` set c \<Longrightarrow> fst b \<noteq> [] \<Longrightarrow>
   fst (scan_oldest c b) \<noteq> [] \<and> snd (scan_oldest c b) \<le> snd b \<and> (\<forall>(k, t)\<in>set c. snd (scan_oldest c b) \<le> t)"
  by (induction c b rule: scan_oldest.induct) (auto split: if_splits)

lemma oldest_min:
  assumes "[] \<notin> fst ` set c" "c \<noteq> []"
  shows "fst (oldest rnk c) \<noteq> []" and "\<And>k t. (k, t) \<in> set c \<Longrightarrow> snd (oldest rnk c) \<le> t"
proof -
  have v: "[] \<notin> fst ` set (visit rnk c)" using assms(1) by simp
  have "visit rnk c \<noteq> []" using assms(2) set_visit [of rnk c] by (metis set_empty)
  then obtain k t r where c: "visit rnk c = (k, t) # r" by (metis list.exhaust surj_pair)
  have "[] \<notin> fst ` set r" "k \<noteq> []" using v by (auto simp: c)
  then have m: "fst (oldest rnk c) \<noteq> [] \<and> snd (oldest rnk c) \<le> t \<and> (\<forall>(k, t)\<in>set r. snd (oldest rnk c) \<le> t)"
    using scan_oldest_min [of r "(k, t)"] by (simp add: oldest_def c)
  then show "fst (oldest rnk c) \<noteq> []" by simp
  show "snd (oldest rnk c) \<le> s" if "(j, s) \<in> set c" for j s
  proof -
    have "(j, s) \<in> set (visit rnk c)" using that by simp
    with m show ?thesis by (auto simp: c)
  qed
qed

lemma set_evict: "set (evict rnk i n c) \<subseteq> set c"
proof (induction rnk i n c rule: evict.induct)
  case (1 rnk i n c)
  then show ?case by (subst evict.simps) (auto simp: Let_def set_delete_keys split: if_splits)
qed

lemma cache_ok_evict: "cache_ok c \<Longrightarrow> cache_ok (evict rnk i n c)"
proof (induction rnk i n c rule: evict.induct)
  case (1 rnk i n c)
  then show ?case using cache_ok_delete by (subst evict.simps) (auto simp: Let_def)
qed

lemma evict_bound: "cache_ok c \<Longrightarrow> 0 < n \<Longrightarrow> int (length (evict rnk i n c)) < n"
proof (induction rnk i n c rule: evict.induct)
  case (1 rnk i n c)
  have "fst (oldest (rnk i) c) \<noteq> []" if "int (length c) \<ge> n"
    using that "1.prems" by (intro oldest_min) (auto simp: cache_ok_def)
  then show ?case using 1 cache_ok_delete by (subst evict.simps) (auto simp: Let_def)
qed

lemma evict_id: "int (length c) < n \<Longrightarrow> evict rnk i n c = c"
  by (simp add: evict.simps)

text \<open>An entry goes only when nothing older is left and the cache is full of entries at least as new.\<close>

lemma evict_keeps:
  fixes rnk :: "nat \<Rightarrow> bytes \<Rightarrow> nat"
  assumes "cache_ok c" "(k, t) \<in> set c" "int (length (filter (\<lambda>(_, s). t \<le> s) c)) < n"
  shows "(k, t) \<in> set (evict rnk i n c)"
  using assms
proof (induction rnk i n c rule: evict.induct)
  case (1 rnk i n c)
  show ?case
  proof (cases "int (length c) \<ge> n")
    case True
    obtain ok ot where o: "oldest (rnk i) c = (ok, ot)" by fastforce
    have c: "[] \<notin> fst ` set c" "c \<noteq> []" "distinct (map fst c)" using "1.prems" by (auto simp: cache_ok_def)
    note m = oldest_min [OF c(1,2), where rnk = "rnk i"]
    have ok: "ok \<noteq> []" "(ok, ot) \<in> set c" using m(1) oldest_mem [of "rnk i" c] by (simp_all add: o)
    have "ok \<noteq> k"
    proof
      assume "ok = k"
      with ok(2) "1.prems"(2) c(3) have "ot = t" by (metis map_of_is_SomeI option.inject)
      with m(2) have "filter (\<lambda>(_, s). t \<le> s) c = c" by (auto simp: o filter_id_conv)
      with "1.prems"(3) True show False by simp
    qed
    then have mem: "(k, t) \<in> set (AList.delete ok c)" using "1.prems"(2) by (auto simp: AList.delete_eq)
    have "length (filter (\<lambda>(_, s). t \<le> s) (AList.delete ok c)) \<le> length (filter (\<lambda>(_, s). t \<le> s) c)"
      by (induction c) (auto simp: AList.delete_eq)
    then have "int (length (filter (\<lambda>(_, s). t \<le> s) (AList.delete ok c))) < n" using "1.prems"(3) by simp
    with 1 True ok(1) mem cache_ok_delete show ?thesis by (subst evict.simps) (simp add: o)
  next
    case False
    with "1.prems" show ?thesis by (simp add: evict_id)
  qed
qed

lemma consumeNonce_cases:
  assumes "consumeNonce rnk appKey nonce ttl n now m = (used, m')"
  defines "key \<equiv> nonce_key appKey nonce"
    and "c \<equiv> purge_expired (now + wrap64 (wrap64 (- nonce_ttl ttl) * Second)) (mw_nonceCache m)"
  obtains "used" "key \<in> fst ` set c" "mw_nonceCache m' = c"
  | "\<not> used" "key \<notin> fst ` set c" "mw_nonceCache m' = evict rnk 0 (nonce_max n) c @ [(key, now)]"
proof (cases "map_of c key")
  case None
  have "key \<notin> fst ` set c" using None by (simp add: map_of_eq_None_iff)
  with set_evict [of rnk 0 "nonce_max n" c] have "key \<notin> fst ` set (evict rnk 0 (nonce_max n) c)" by auto
  then have "AList.update key now (evict rnk 0 (nonce_max n) c) = evict rnk 0 (nonce_max n) c @ [(key, now)]"
    by (rule update_new_key)
  with None assms \<open>key \<notin> fst ` set c\<close> show thesis by (intro that(2)) (auto simp: consumeNonce_def Let_def)
next
  case (Some t)
  then have "key \<in> fst ` set c" by (metis map_of_eq_None_iff option.distinct(1))
  with Some assms show thesis by (intro that(1)) (auto simp: consumeNonce_def Let_def)
qed

subsection \<open>Which requests pass\<close>

lemma verifyHMAC_iff: "verifyHMAC secret body ts nonce sig \<longleftrightarrow> DecodeString sig = Some (HMAC secret (body @ ts @ nonce))"
proof -
  have "HMAC secret (body @ ts @ nonce) \<noteq> []" using length_HMAC [of secret "body @ ts @ nonce"] by fastforce
  then show ?thesis by (auto simp: verifyHMAC_def computeHMACBytes_def split: option.splits)
qed

lemma verifyHMAC_computeHMAC: "verifyHMAC secret body ts nonce (computeHMAC secret body ts nonce)"
  by (simp add: verifyHMAC_iff computeHMAC_def computeHMACBytes_def)

text \<open>
  The timestamp check, without machine arithmetic: the distance is within the window, or it is \<open>2 ^ 63\<close> seconds,
  whose negation overflows to itself.
\<close>

definition in_window :: "int \<Rightarrow> int \<Rightarrow> int \<Rightarrow> bool" where
  "in_window now ts window \<longleftrightarrow> \<bar>now - ts\<bar> \<le> window \<or> now - ts = 2 ^ 63"

lemma in_window_iff:
  assumes "0 \<le> now" "now < 2 ^ 62" "0 \<le> window" "window < 2 ^ 62" "in_int64 ts"
  shows "abs64 (wrap64 (now - ts)) \<le> window \<longleftrightarrow> in_window now ts window"
proof -
  have ts: "- (2 ^ 63) \<le> ts" "ts < 2 ^ 63" using assms(5) by (simp_all add: in_int64_def)
  show ?thesis
  proof (cases "now - ts < 2 ^ 63")
    case True
    then have "in_int64 (now - ts)" "in_int64 (- (now - ts))" using ts assms by (simp_all add: in_int64_def)
    then have "wrap64 (now - ts) = now - ts" "wrap64 (- (now - ts)) = - (now - ts)" by (simp_all only: wrap64_id)
    with True show ?thesis by (auto simp: abs64_def in_window_def)
  next
    case False
    have "now - ts + 2 ^ 63 = (now - ts - 2 ^ 63) + 2 ^ 64" by simp
    then have "(now - ts + 2 ^ 63) mod 2 ^ 64 = (now - ts - 2 ^ 63) mod 2 ^ 64" by (simp only: mod_add_self2)
    also have "\<dots> = now - ts - 2 ^ 63" using False ts assms by (intro mod_pos_pos_trivial) simp_all
    finally have w: "wrap64 (now - ts) = now - ts - 2 ^ 64" by (simp add: wrap64_def)
    show ?thesis
    proof (cases "now - ts = 2 ^ 63")
      case True
      then have "abs64 (wrap64 (now - ts)) = - (2 ^ 63)" by (simp add: w abs64_def wrap64_def)
      with True assms show ?thesis by (simp add: in_window_def)
    next
      case neq: False
      then have "in_int64 (- (now - ts - 2 ^ 64))" using False ts assms by (simp add: in_int64_def)
      then have "wrap64 (- (now - ts - 2 ^ 64)) = 2 ^ 64 - (now - ts)" by (simp only: wrap64_id)
      moreover have "now - ts - 2 ^ 64 < 0" using ts assms by simp
      ultimately have "abs64 (wrap64 (now - ts)) = 2 ^ 64 - (now - ts)" unfolding w abs64_def by (simp only: if_True)
      with False neq ts assms show ?thesis by (simp add: in_window_def)
    qed
  qed
qed

definition authentic :: "AuthConfig \<Rightarrow> AppKeyStore \<Rightarrow> instant \<Rightarrow> bytes \<Rightarrow> request_ctx \<Rightarrow> bool" where
  "authentic cfg store now body c \<longleftrightarrow>
     (let key = cx_Header c ''X-App-Key''; stamp = cx_Header c ''X-Timestamp''; nonce = cx_Header c ''X-Nonce''
      in key \<noteq> [] \<and> nonce \<noteq> []
         \<and> (\<exists>ts. ParseInt64 stamp = Some ts \<and> in_window (Unix now) ts (au_TimestampWindow cfg))
         \<and> (\<exists>secret. secret \<noteq> [] \<and> ks_GetSecret store key = Inr secret
              \<and> DecodeString (cx_Header c ''X-Signature'') = Some (HMAC secret (body @ stamp @ nonce)))
         \<and> (\<forall>p. peek_project body = Some p \<and> p \<noteq> [] \<longrightarrow> ks_IsAuthorized store key p = Inr True))"

definition clock_ok :: "AuthConfig \<Rightarrow> auth_env \<Rightarrow> bool" where
  "clock_ok cfg env \<longleftrightarrow> 0 \<le> ae_now env \<and> ae_now env < 2 ^ 62 \<and> 0 \<le> au_TimestampWindow cfg \<and> au_TimestampWindow cfg < 2 ^ 62"

abbreviation ctx_nonce_key :: "request_ctx \<Rightarrow> bytes" where
  "ctx_nonce_key c \<equiv> nonce_key (cx_Header c ''X-App-Key'') (cx_Header c ''X-Nonce'')"

lemma authorizeProject_iff: "authorizeProject store key p \<longleftrightarrow> ks_IsAuthorized store key p = Inr True"
  by (auto simp: authorizeProject_def split: sum.splits)

lemma check_request_iff:
  assumes "clock_ok cfg env"
  shows "check_request cfg store (ae_now env) body c = Inr () \<longleftrightarrow> authentic cfg store (ae_now env) body c"
proof -
  have "0 \<le> Unix (ae_now env)" "Unix (ae_now env) < 2 ^ 62"
    using assms zdiv_mono2 [of "ae_now env" 1 Second] by (auto simp: clock_ok_def Unix_def)
  then have win: "au_TimestampWindow cfg < abs64 (wrap64 (Unix (ae_now env) - ts)) \<longleftrightarrow> \<not> in_window (Unix (ae_now env)) ts (au_TimestampWindow cfg)"
    if "ParseInt64 s = Some ts" for s ts
    using in_window_iff [of "Unix (ae_now env)" "au_TimestampWindow cfg" ts] assms ParseInt64_range [OF that]
    by (simp add: clock_ok_def not_le [symmetric])
  show ?thesis
  proof (cases "ParseInt64 (cx_Header c ''X-Timestamp'')")
    case (Some ts)
    show ?thesis
      unfolding check_request_def authentic_def Let_def Some verifyHMAC_iff authorizeProject_iff
      by (auto simp: win [OF Some] split: sum.split option.split)
  qed (simp add: check_request_def authentic_def Let_def split: sum.split)
qed

lemma check_request_code: "check_request cfg store now body c = Inl (code, msg) \<Longrightarrow> code = 401 \<or> code = 403"
  unfolding check_request_def Let_def by (simp split: if_splits sum.splits option.splits)

text \<open>With the body at hand, the handler is a test for authenticity and then the nonce.\<close>

lemma Handler_body:
  assumes "au_Enabled cfg" "cx_Keys c ''raw_body'' = Some (VBytes body)"
  shows "Handler cfg store env m c =
    (case check_request cfg store (ae_now env) body c of
       Inl (code, msg) \<Rightarrow> (False, m, refuse code msg c)
     | Inr _ \<Rightarrow>
         (case consumeNonce (ae_order env) (cx_Header c ''X-App-Key'') (cx_Header c ''X-Nonce'') (au_NonceTTLSeconds cfg)
                 (au_NonceCacheSize cfg) (ae_consumed env) m of
            (True, m) \<Rightarrow> (False, m, refuse 401 ''nonce already used'' c)
          | (False, m) \<Rightarrow> (True, m, ctx_set ''app_key'' (VStr (cx_Header c ''X-App-Key'')) c)))"
  using assms by (simp add: Handler_def rawBodyFromContext_def denied_def writeAuthError_def refuse_def Let_def split: sum.split prod.split bool.split)


definition remembered :: "AuthConfig \<Rightarrow> instant \<Rightarrow> bytes \<Rightarrow> Middleware \<Rightarrow> bool" where
  "remembered cfg now k m \<longleftrightarrow> (\<exists>t. (k, t) \<in> set (mw_nonceCache m) \<and> now - nonce_ttl (au_NonceTTLSeconds cfg) * Second \<le> t)"

definition ttl_ok :: "AuthConfig \<Rightarrow> bool" where
  "ttl_ok cfg \<longleftrightarrow> au_NonceTTLSeconds cfg < 2 ^ 33"

lemma expire_before:
  assumes "ttl_ok cfg"
  shows "wrap64 (wrap64 (- nonce_ttl (au_NonceTTLSeconds cfg)) * Second) = - (nonce_ttl (au_NonceTTLSeconds cfg) * Second)"
proof -
  have "0 < nonce_ttl (au_NonceTTLSeconds cfg)" "nonce_ttl (au_NonceTTLSeconds cfg) < 2 ^ 33"
    using assms by (auto simp: nonce_ttl_def ttl_ok_def)
  then have "in_int64 (- nonce_ttl (au_NonceTTLSeconds cfg))" "in_int64 (- nonce_ttl (au_NonceTTLSeconds cfg) * Second)"
    by (simp_all add: in_int64_def)
  then show ?thesis by (simp only: wrap64_id)
qed

text \<open>What a pass leaves in the cache: what was there and is neither expired nor evicted, and the nonce.\<close>

lemma consume_cases:
  assumes "ttl_ok cfg" "consumeNonce rnk appKey nonce (au_NonceTTLSeconds cfg) (au_NonceCacheSize cfg) now m = (used, m')"
  defines "c \<equiv> purge_expired (now - nonce_ttl (au_NonceTTLSeconds cfg) * Second) (mw_nonceCache m)"
  shows "used \<longleftrightarrow> remembered cfg now (nonce_key appKey nonce) m"
    and "used \<Longrightarrow> mw_nonceCache m' = c"
    and "\<not> used \<Longrightarrow> nonce_key appKey nonce \<notin> fst ` set c
      \<and> mw_nonceCache m' = evict rnk 0 (nonce_max (au_NonceCacheSize cfg)) c @ [(nonce_key appKey nonce, now)]"
proof -
  have c: "c = purge_expired (now + wrap64 (wrap64 (- nonce_ttl (au_NonceTTLSeconds cfg)) * Second)) (mw_nonceCache m)"
    unfolding c_def expire_before [OF assms(1)] by simp
  have r: "remembered cfg now k m \<longleftrightarrow> k \<in> fst ` set c" for k
    by (force simp: remembered_def c_def purge_expired_def not_less)
  show "used \<longleftrightarrow> remembered cfg now (nonce_key appKey nonce) m" "used \<Longrightarrow> mw_nonceCache m' = c"
    "\<not> used \<Longrightarrow> nonce_key appKey nonce \<notin> fst ` set c
      \<and> mw_nonceCache m' = evict rnk 0 (nonce_max (au_NonceCacheSize cfg)) c @ [(nonce_key appKey nonce, now)]"
    using assms(2) by (cases rule: consumeNonce_cases; simp add: r c)+
qed

text \<open>
  C10: the authentication admits exactly the signed requests. With authentication on and the body at hand, a
  request reaches the next handler if and only if it names an app key with a secret, its timestamp is in the
  window (or \<open>2 ^ 63\<close> seconds off, where the difference overflows), it has a nonce, its signature is the HMAC of
  body, timestamp and nonce under that secret, the key may use the project of the body, and the nonce is not
  remembered for the key; then the key is recorded for the later handlers and the nonce in the cache. Every
  other request is answered with 401 or 403 and leaves the keys of the request as they were.
\<close>

theorem Handler_admits:
  assumes "au_Enabled cfg" "cx_Keys c ''raw_body'' = Some (VBytes body)" "clock_ok cfg env" "ttl_ok cfg"
    and "Handler cfg store env m c = (ok, m', c')"
  shows "(ok \<longleftrightarrow> authentic cfg store (ae_now env) body c \<and> \<not> remembered cfg (ae_consumed env) (ctx_nonce_key c) m)
    \<and> (if ok then cx_Keys c' = (cx_Keys c)(''app_key'' \<mapsto> VStr (cx_Header c ''X-App-Key'')) \<and> cx_Replies c' = cx_Replies c
         \<and> remembered cfg (ae_consumed env) (ctx_nonce_key c) m'
       else cx_Aborted c' \<and> cx_Keys c' = cx_Keys c \<and> cx_Status c' \<in> {401, 403})"
proof -
  note H = assms(5) [unfolded Handler_body [OF assms(1,2)]]
  obtain used m1 where n: "consumeNonce (ae_order env) (cx_Header c ''X-App-Key'') (cx_Header c ''X-Nonce'') (au_NonceTTLSeconds cfg)
      (au_NonceCacheSize cfg) (ae_consumed env) m = (used, m1)" by fastforce
  note u = consume_cases [OF assms(4) n]
  have r: "remembered cfg (ae_consumed env) (ctx_nonce_key c) m1" if "\<not> used"
    using u(3) [OF that] by (auto simp: remembered_def nonce_ttl_def)
  show ?thesis
  proof (cases "check_request cfg store (ae_now env) body c")
    case (Inl e)
    obtain code msg where e: "e = (code, msg)" by fastforce
    then show ?thesis using H Inl check_request_iff [OF assms(3), of store body c] check_request_code [OF Inl [unfolded e]] by auto
  next
    case (Inr x)
    then show ?thesis using H check_request_iff [OF assms(3), of store body c] u(1) r by (cases used) (auto simp: n)
  qed
qed

subsection \<open>A nonce passes once\<close>

text \<open>A run of requests through one middleware, and the nonces it admitted with their times, in order.\<close>

fun auth_run :: "AuthConfig \<Rightarrow> AppKeyStore \<Rightarrow> (auth_env \<times> request_ctx) list \<Rightarrow> nonce_cache \<times> Middleware \<Rightarrow> nonce_cache \<times> Middleware" where
  "auth_run cfg store [] hm = hm"
| "auth_run cfg store ((env, c) # rs) (h, m) =
     (case Handler cfg store env m c of
        (ok, m, _) \<Rightarrow> auth_run cfg store rs (if ok then h @ [(ctx_nonce_key c, ae_consumed env)] else h, m))"

lemma auth_run_append: "auth_run cfg store (rs @ rs') hm = auth_run cfg store rs' (auth_run cfg store rs hm)"
  by (induction cfg store rs hm rule: auth_run.induct) (auto split: prod.splits)

text \<open>
  What holds of the admitted nonces \<open>h\<close> and the cache when the last request came at \<open>t\<close>: the cache remembers
  admitted ones only, and each one that is neither too old nor followed by too many others.
\<close>

definition at_least :: "instant \<Rightarrow> nonce_cache \<Rightarrow> nat" where
  "at_least t h = length (filter (\<lambda>(_, s). t \<le> s) h)"

definition nonce_inv :: "AuthConfig \<Rightarrow> instant \<Rightarrow> nonce_cache \<Rightarrow> Middleware \<Rightarrow> bool" where
  "nonce_inv cfg now h m \<longleftrightarrow> cache_ok (mw_nonceCache m) \<and> set (mw_nonceCache m) \<subseteq> set h \<and> (\<forall>(k, t)\<in>set h. t \<le> now)
     \<and> (\<forall>(k, t)\<in>set h. now - t \<le> nonce_ttl (au_NonceTTLSeconds cfg) * Second \<and> int (at_least t h) \<le> nonce_max (au_NonceCacheSize cfg)
           \<longrightarrow> (k, t) \<in> set (mw_nonceCache m))"

lemma at_least_snoc: "at_least t (h @ [(k, s)]) = at_least t h + (if t \<le> s then 1 else 0)"
  by (simp add: at_least_def)

lemma at_least_mono: "distinct c \<Longrightarrow> set c \<subseteq> set h \<Longrightarrow> at_least t c \<le> at_least t h"
proof -
  assume c: "distinct c" "set c \<subseteq> set h"
  have "at_least t c = card (set (filter (\<lambda>(_, s). t \<le> s) c))" using c(1) by (simp add: at_least_def distinct_card del: set_filter)
  also have "\<dots> \<le> card (set (filter (\<lambda>(_, s). t \<le> s) h))" using c(2) by (intro card_mono) auto
  also have "\<dots> \<le> at_least t h" unfolding at_least_def by (rule card_length)
  finally show ?thesis .
qed

lemma nonce_inv_later:
  assumes "nonce_inv cfg t h m" "t \<le> t'"
  shows "nonce_inv cfg t' h m"
  using assms unfolding nonce_inv_def by fastforce

lemma nonce_inv_purge:
  assumes "nonce_inv cfg t h m"
    and "mw_nonceCache m' = purge_expired (t - nonce_ttl (au_NonceTTLSeconds cfg) * Second) (mw_nonceCache m)"
  shows "nonce_inv cfg t h m'"
proof -
  have "set (mw_nonceCache m') = {x \<in> set (mw_nonceCache m). t - snd x \<le> nonce_ttl (au_NonceTTLSeconds cfg) * Second}"
    by (auto simp: assms(2) purge_expired_def)
  moreover have "cache_ok (mw_nonceCache m')" using assms by (auto simp: nonce_inv_def intro: cache_ok_purge)
  ultimately show ?thesis using assms(1) unfolding nonce_inv_def by auto
qed

lemma nonce_inv_admit:
  assumes inv: "nonce_inv cfg now h m" and ttl: "ttl_ok cfg"
    and n: "consumeNonce rnk a x (au_NonceTTLSeconds cfg) (au_NonceCacheSize cfg) now m = (False, m')"
  shows "nonce_inv cfg now (h @ [(nonce_key a x, now)]) m'"
proof -
  let ?N = "nonce_max (au_NonceCacheSize cfg)" and ?k = "nonce_key a x"
  define c where "c = purge_expired (now - nonce_ttl (au_NonceTTLSeconds cfg) * Second) (mw_nonceCache m)"
  have m': "?k \<notin> fst ` set c" "mw_nonceCache m' = evict rnk 0 ?N c @ [(?k, now)]"
    using consume_cases(3) [OF ttl n] by (simp_all add: c_def)
  have ok: "cache_ok c" "set c \<subseteq> set h" using nonce_inv_purge [OF inv, of "\<lparr>mw_nonceCache = c\<rparr>"] by (simp_all add: c_def nonce_inv_def)
  have e: "cache_ok (evict rnk 0 ?N c)" "set (evict rnk 0 ?N c) \<subseteq> set c" using cache_ok_evict [OF ok(1)] set_evict by blast+
  have "cache_ok (mw_nonceCache m')" using e m'(1) by (auto simp: cache_ok_def m'(2) nonce_key_def)
  moreover have "(k, t) \<in> set (evict rnk 0 ?N c)"
    if h: "(k, t) \<in> set h" "now - t \<le> nonce_ttl (au_NonceTTLSeconds cfg) * Second" "int (at_least t (h @ [(?k, now)])) \<le> ?N" for k t
  proof -
    have "t \<le> now" using inv h(1) by (auto simp: nonce_inv_def)
    with h(3) have l: "int (at_least t h) < ?N" by (simp add: at_least_snoc)
    with inv h have "(k, t) \<in> set (mw_nonceCache m)" unfolding nonce_inv_def by fastforce
    with h(2) have "(k, t) \<in> set c" by (auto simp: c_def purge_expired_def)
    moreover have "at_least t c \<le> at_least t h" using ok by (intro at_least_mono) (auto simp: cache_ok_def distinct_map)
    ultimately show ?thesis using l ok(1) by (intro evict_keeps) (simp_all add: at_least_def)
  qed
  ultimately show ?thesis using inv e(2) ok(2) unfolding nonce_inv_def m'(2) by auto
qed

text \<open>What a request does to the cache: nothing when a check fails, and otherwise the nonce decides.\<close>

lemma Handler_nonce:
  assumes "au_Enabled cfg" "Handler cfg store env m c = (ok, m', c')"
  obtains "\<not> ok" "m' = m"
  | "consumeNonce (ae_order env) (cx_Header c ''X-App-Key'') (cx_Header c ''X-Nonce'') (au_NonceTTLSeconds cfg) (au_NonceCacheSize cfg)
       (ae_consumed env) m = (\<not> ok, m')"
proof -
  obtain b c1 where b: "rawBodyFromContext c = (b, c1)" by fastforce
  then have "cx_Header c1 = cx_Header c" by (auto simp: rawBodyFromContext_def split: option.splits ctx_val.splits req_body.splits)
  with assms that show thesis
    by (auto simp: Handler_def b denied_def Let_def split: option.splits sum.splits prod.splits bool.splits)
qed

lemma nonce_inv_Handler:
  assumes "au_Enabled cfg" "ttl_ok cfg" "nonce_inv cfg (ae_consumed env) h m" "Handler cfg store env m c = (ok, m', c')"
  shows "nonce_inv cfg (ae_consumed env) (if ok then h @ [(ctx_nonce_key c, ae_consumed env)] else h) m'"
  using assms(1,4)
proof (cases rule: Handler_nonce)
  case 1
  with assms(3) show ?thesis by simp
next
  case 2
  show ?thesis
  proof (cases ok)
    case True
    with 2 nonce_inv_admit [OF assms(3,2)] show ?thesis by simp
  next
    case False
    with 2 consume_cases(2) [OF assms(2)] nonce_inv_purge [OF assms(3)] show ?thesis by fastforce
  qed
qed

lemma nonce_inv_run:
  assumes "au_Enabled cfg" "ttl_ok cfg"
  shows "nonce_inv cfg t h m \<Longrightarrow> sorted (t # map (\<lambda>(env, _). ae_consumed env) rs) \<Longrightarrow> auth_run cfg store rs (h, m) = (h', m') \<Longrightarrow>
    nonce_inv cfg (last (t # map (\<lambda>(env, _). ae_consumed env) rs)) h' m'"
proof (induction rs arbitrary: t h m)
  case (Cons r rs)
  obtain env c where r: "r = (env, c)" by fastforce
  obtain ok m1 c1 where H: "Handler cfg store env m c = (ok, m1, c1)" by (metis prod_cases3)
  have "nonce_inv cfg (ae_consumed env) h m" using Cons.prems nonce_inv_later by (auto simp: r)
  from nonce_inv_Handler [OF assms this H] Cons.IH Cons.prems(2,3) show ?case by (auto simp: r H)
qed simp

text \<open>
  C8: no replay of a request. Take any run of requests from a new middleware, on a clock that does not run backwards.
  If a nonce was admitted for an app key at time \<open>t\<close>, and the next request carries the same key and nonce
  within the lifetime of nonces, then it is refused -- unless more nonces than the cache holds were admitted since \<open>t\<close>, when
  the oldest make room.
\<close>

theorem nonce_single_use:
  assumes "au_Enabled cfg" "ttl_ok cfg" "auth_run cfg store rs ([], NewMiddleware) = (h, m)"
    and "sorted (map (\<lambda>(env, _). ae_consumed env) rs @ [ae_consumed env])"
    and "(ctx_nonce_key c, t) \<in> set h" "ae_consumed env - t \<le> nonce_ttl (au_NonceTTLSeconds cfg) * Second"
    and "int (at_least t h) \<le> nonce_max (au_NonceCacheSize cfg)"
  shows "\<not> fst (Handler cfg store env m c)"
proof
  assume ok: "fst (Handler cfg store env m c)"
  obtain m' c' where H: "Handler cfg store env m c = (True, m', c')" using ok by (metis prod.collapse)
  have "rs \<noteq> []" using assms(3,5) by auto
  then obtain r rs' where r: "rs = r # rs'" by (cases rs) auto
  let ?t0 = "case r of (env, _) \<Rightarrow> ae_consumed env"
  have "nonce_inv cfg ?t0 [] NewMiddleware" by (simp add: nonce_inv_def NewMiddleware_def cache_ok_def)
  moreover have "sorted (?t0 # map (\<lambda>(env, _). ae_consumed env) rs)" using assms(4) by (auto simp: r sorted_append)
  ultimately have "nonce_inv cfg (last (?t0 # map (\<lambda>(env, _). ae_consumed env) rs)) h m"
    using nonce_inv_run [OF assms(1,2) _ _ assms(3)] by blast
  moreover have "last (?t0 # map (\<lambda>(env, _). ae_consumed env) rs) \<le> ae_consumed env"
    using assms(4) last_in_set [of rs'] by (auto simp: r sorted_append last_map)
  ultimately have inv: "nonce_inv cfg (ae_consumed env) h m" by (rule nonce_inv_later)
  with assms(5-7) have "(ctx_nonce_key c, t) \<in> set (mw_nonceCache m)" unfolding nonce_inv_def by fastforce
  then have "remembered cfg (ae_consumed env) (ctx_nonce_key c) m" using assms(6) by (auto simp: remembered_def intro: exI [of _ t])
  moreover from assms(1) H have "\<not> remembered cfg (ae_consumed env) (ctx_nonce_key c) m"
    by (cases rule: Handler_nonce) (use consume_cases(1) [OF assms(2)] in auto)
  ultimately show False by contradiction
qed

definition sample_store :: AppKeyStore where
  "sample_store = \<lparr>ks_GetSecret = (\<lambda>k. Inr (if k = ''key'' then ''secret'' else [])), ks_IsAuthorized = (\<lambda>_ p. Inr (p = ''p''))\<rparr>"

definition sample_auth :: AuthConfig where
  "sample_auth = \<lparr>au_Enabled = True, au_TimestampWindow = 300, au_NonceTTLSeconds = 300, au_NonceCacheSize = 1000\<rparr>"

definition sample_auth_env :: auth_env where
  "sample_auth_env = \<lparr>ae_now = 100 * Second, ae_consumed = 101 * Second, ae_order = (\<lambda>_ _. 0)\<rparr>"

definition sample_body :: bytes where
  "sample_body = ''{'' @ [CHR 34] @ ''project'' @ [CHR 34] @ '':'' @ [CHR 34] @ ''p'' @ [CHR 34] @ ''}''"

definition sample_signed :: request_ctx where
  "sample_signed = ctx_set ''raw_body'' (VBytes sample_body) (new_ctx ''POST'' ''/api/v1/log/upload''
     (\<lambda>h. if h = ''X-App-Key'' then ''key'' else if h = ''X-Timestamp'' then ''100'' else if h = ''X-Nonce'' then ''n''
          else if h = ''X-Signature'' then computeHMAC ''secret'' sample_body ''100'' ''n'' else []) (FullBody sample_body))"

lemma sample_signed_fields [simp]:
  "cx_Keys sample_signed ''raw_body'' = Some (VBytes sample_body)" "cx_Header sample_signed ''X-App-Key'' = ''key''"
  "cx_Header sample_signed ''X-Timestamp'' = ''100''" "cx_Header sample_signed ''X-Nonce'' = ''n''"
  "cx_Header sample_signed ''X-Signature'' = computeHMAC ''secret'' sample_body ''100'' ''n''"
  "cx_Replies sample_signed = []"
  by (simp_all add: sample_signed_def)

lemma sample_auth_ok [simp]: "au_Enabled sample_auth" "clock_ok sample_auth sample_auth_env" "ttl_ok sample_auth"
  by (simp_all add: sample_auth_def clock_ok_def ttl_ok_def sample_auth_env_def)

lemma sample_authentic: "authentic sample_auth sample_store (ae_now sample_auth_env) sample_body sample_signed"
proof -
  have p: "peek_project sample_body = Some ''p''" by code_simp
  have t: "ParseInt64 ''100'' = Some 100" by code_simp
  show ?thesis
    by (simp add: authentic_def Let_def p t sample_store_def sample_auth_def in_window_def Unix_def sample_auth_env_def
      computeHMAC_def computeHMACBytes_def)
qed

theorem Handler_admits_witness:
  "\<exists>m' c'. Handler sample_auth sample_store sample_auth_env NewMiddleware sample_signed = (True, m', c')
     \<and> cx_Keys c' ''app_key'' = Some (VStr ''key'') \<and> remembered sample_auth (101 * Second) (nonce_key ''key'' ''n'') m'"
proof -
  obtain ok m' c' where H: "Handler sample_auth sample_store sample_auth_env NewMiddleware sample_signed = (ok, m', c')" by (metis prod_cases3)
  have "\<not> remembered sample_auth (ae_consumed sample_auth_env) (ctx_nonce_key sample_signed) NewMiddleware"
    by (simp add: remembered_def NewMiddleware_def)
  with Handler_admits [OF _ _ _ _ H, of sample_body] sample_authentic
  have "ok" "cx_Keys c' ''app_key'' = Some (VStr ''key'')" "remembered sample_auth (ae_consumed sample_auth_env) (nonce_key ''key'' ''n'') m'"
    by (auto split: if_splits)
  with H show ?thesis by (auto simp: sample_auth_env_def)
qed

lemma sample_run: "\<exists>m. auth_run sample_auth sample_store [(sample_auth_env, sample_signed)] ([], NewMiddleware) = ([(nonce_key ''key'' ''n'', 101 * Second)], m)"
proof -
  have "check_request sample_auth sample_store (ae_now sample_auth_env) sample_body sample_signed = Inr ()"
    using sample_authentic by (simp add: check_request_iff)
  moreover obtain used m where "consumeNonce (ae_order sample_auth_env) ''key'' ''n'' (au_NonceTTLSeconds sample_auth) (au_NonceCacheSize sample_auth)
      (ae_consumed sample_auth_env) NewMiddleware = (used, m)" by fastforce
  moreover from this have "used \<longleftrightarrow> remembered sample_auth (ae_consumed sample_auth_env) (nonce_key ''key'' ''n'') NewMiddleware"
    by (rule consume_cases(1) [OF sample_auth_ok(3)])
  then have "\<not> used" by (simp add: remembered_def NewMiddleware_def)
  ultimately show ?thesis by (simp add: Handler_body [of _ _ sample_body] sample_auth_env_def)
qed

theorem nonce_single_use_witness:
  "\<exists>m. auth_run sample_auth sample_store [(sample_auth_env, sample_signed)] ([], NewMiddleware) = ([(nonce_key ''key'' ''n'', 101 * Second)], m)
     \<and> \<not> fst (Handler sample_auth sample_store sample_auth_env m sample_signed)"
proof -
  obtain m where m: "auth_run sample_auth sample_store [(sample_auth_env, sample_signed)] ([], NewMiddleware) = ([(nonce_key ''key'' ''n'', 101 * Second)], m)"
    using sample_run by blast
  have "\<not> fst (Handler sample_auth sample_store sample_auth_env m sample_signed)"
    by (rule nonce_single_use [OF _ _ m, of _ _ "101 * Second"])
      (simp_all add: sample_auth_env_def sample_auth_def nonce_ttl_def nonce_max_def at_least_def ttl_ok_def)
  with m show ?thesis by blast
qed

text \<open>
  C34: the nonce cache is bounded. After any run from a new middleware it holds each key once and at most as many
  as configured (or 100000 when the configured size is not positive), however the map is visited; in particular the loop that
  makes room ends with room for one more.
\<close>

theorem nonce_cache_bounded:
  assumes "au_Enabled cfg" "ttl_ok cfg" "auth_run cfg store rs ([], NewMiddleware) = (h, m)"
  shows "distinct (map fst (mw_nonceCache m)) \<and> int (length (mw_nonceCache m)) \<le> nonce_max (au_NonceCacheSize cfg)"
proof -
  let ?N = "nonce_max (au_NonceCacheSize cfg)"
  let ?inv = "\<lambda>m. cache_ok (mw_nonceCache m) \<and> int (length (mw_nonceCache m)) \<le> ?N"
  have step: "?inv m'" if "?inv m" "Handler cfg store env m c = (ok, m', c')" for m env c ok m' c'
    using assms(1) that(2)
  proof (cases rule: Handler_nonce)
    case 2
    define c where "c = purge_expired (ae_consumed env - nonce_ttl (au_NonceTTLSeconds cfg) * Second) (mw_nonceCache m)"
    have "cache_ok c" using that(1) by (simp add: c_def cache_ok_purge)
    moreover have "length c \<le> length (mw_nonceCache m)" by (simp add: c_def purge_expired_def)
    moreover have "0 < ?N" by (simp add: nonce_max_def)
    ultimately have "cache_ok (evict (ae_order env) 0 ?N c)" "int (length (evict (ae_order env) 0 ?N c)) < ?N" "int (length c) \<le> ?N"
      using cache_ok_evict evict_bound that(1) by auto
    with \<open>cache_ok c\<close> consume_cases(2,3) [OF assms(2) 2] set_evict [of "ae_order env" 0 ?N c] show ?thesis
      unfolding c_def by (cases ok) (auto simp: cache_ok_def nonce_key_def)
  qed (use that(1) in simp)
  have "?inv m \<Longrightarrow> auth_run cfg store rs (h0, m) = (h, m') \<Longrightarrow> ?inv m'" for m m' h0
  proof (induction rs arbitrary: m h0)
    case (Cons r rs)
    obtain env c where r: "r = (env, c)" by fastforce
    obtain ok m1 c1 where H: "Handler cfg store env m c = (ok, m1, c1)" by (metis prod_cases3)
    from Cons.IH [OF step [OF Cons.prems(1) H]] Cons.prems(2) show ?case by (simp add: r H)
  qed simp
  from this [OF _ assms(3)] show ?thesis by (simp add: NewMiddleware_def cache_ok_def nonce_max_def)
qed

theorem nonce_cache_bounded_witness:
  "\<exists>m. auth_run sample_auth sample_store [(sample_auth_env, sample_signed)] ([], NewMiddleware) = ([(nonce_key ''key'' ''n'', 101 * Second)], m)
     \<and> distinct (map fst (mw_nonceCache m)) \<and> int (length (mw_nonceCache m)) \<le> 1000"
proof -
  obtain m where m: "auth_run sample_auth sample_store [(sample_auth_env, sample_signed)] ([], NewMiddleware) = ([(nonce_key ''key'' ''n'', 101 * Second)], m)"
    using sample_run by blast
  with nonce_cache_bounded [OF _ _ m] show ?thesis by (auto simp: sample_auth_def nonce_max_def ttl_ok_def)
qed

end
