(* ===== verification/Dispatcher_Laws.thy ===== *)
theory Dispatcher_Laws
  imports Dispatcher
begin

text \<open>
  What the dispatcher guarantees: how the configuration of a sink is resolved and survives its
  untyped form, what initialization builds, who owns a message after a dispatch to several pools,
  and when replay may go on.
\<close>

subsection \<open>Sink configuration\<close>

definition redis_sane :: "RedisSinkConfig \<Rightarrow> bool" where
  "redis_sane r \<longleftrightarrow> \<bar>rs_DB r\<bar> < 2 ^ 53 \<and> \<bar>rs_PoolSize r\<bar> < 2 ^ 53 \<and> \<bar>rs_MinIdleConns r\<bar> < 2 ^ 53 \<and> \<bar>rs_MaxLen r\<bar> < 2 ^ 53
     \<and> in_int64 (rs_DialTimeout r) \<and> in_int64 (rs_ReadTimeout r) \<and> in_int64 (rs_WriteTimeout r)"

definition kafka_sane :: "KafkaSinkConfig \<Rightarrow> bool" where
  "kafka_sane k \<longleftrightarrow> \<bar>ks_BatchSize k\<bar> < 2 ^ 53 \<and> in_int64 (ks_BatchTimeout k)"

lemma list_strings_DStr [simp]: "list_strings (map DStr xs) = xs"
  by (induction xs) (simp_all add: list_strings_def map_filter_simps)

text \<open>
  The typed configuration survives the trip through an untyped map. A sink built from the
  global defaults has exactly the configured values: integers go through \<open>float64\<close> (exact below
  \<open>2 ^ 53\<close>), timeouts through their text. An empty Redis type becomes \<open>list\<close>, a Kafka batch size or timeout that is not
  positive its default; Kafka needs brokers and a topic.
\<close>

theorem sink_config_roundtrip:
  assumes "redis_sane (sk_Redis (cf_Sinks cfg))" and "kafka_sane (sk_Kafka (cf_Sinks cfg))"
  shows "let r = sk_Redis (cf_Sinks cfg); k = sk_Kafka (cf_Sinks cfg); kind = (if rs_Type r = [] then ''list'' else rs_Type r) in
      RedisSinkFactory name (globalSinkDefaults cfg ''redis'') =
        \<lparr>rk_name = name,
         rk_client = \<lparr>rc_Addr = rs_Addr r, rc_Password = rs_Password r, rc_DB = rs_DB r, rc_PoolSize = rs_PoolSize r,
           rc_MinIdleConns = rs_MinIdleConns r, rc_DialTimeout = rs_DialTimeout r, rc_ReadTimeout = rs_ReadTimeout r,
           rc_WriteTimeout = rs_WriteTimeout r, rc_Key = rs_Key r, rc_Type = kind, rc_MaxLen = rs_MaxLen r\<rparr>,
         rk_key = rs_Key r, rk_typ = kind, rk_maxLen = rs_MaxLen r\<rparr>
    \<and> KafkaSinkFactory name (globalSinkDefaults cfg ''kafka'') =
        NewKafkaSink name \<lparr>kc_Brokers = ks_Brokers k, kc_Topic = ks_Topic k, kc_PartitionKey = ks_PartitionKey k,
          kc_Compression = ks_Compression k, kc_BatchSize = ks_BatchSize k, kc_BatchTimeout = ks_BatchTimeout k\<rparr>"
  using assms
  by (simp_all add: RedisSinkFactory_def KafkaSinkFactory_def globalSinkDefaults_def NewRedisSink_def strConfig_def intConfig_def
      int64Config_def durationConfig_def redis_sane_def kafka_sane_def int_float_roundtrip Duration_roundtrip Let_def)

theorem sink_config_roundtrip_witness:
  "rc_DialTimeout (rk_client (RedisSinkFactory ''n'' (globalSinkDefaults (applyDefaults zero_config) ''redis''))) = 5 * Second"
  using sink_config_roundtrip [of "applyDefaults zero_config" "''n''"]
  by (simp add: redis_sane_def kafka_sane_def applyDefaults_def redis_defaults_def zero_config_def dflt_def in_int64_def Let_def)

text \<open>
  Three layers of sink configuration. Every key of the merged configuration comes from the reference in the project
  if it has the key, else from the named instance, else from the global defaults of the
  sink's type. The type is the instance's when an instance is found, and \<open>redis\<close> when nothing says
  otherwise; worker count and channel size are the reference's unless they are not positive.
\<close>

theorem resolveSinkConfig_layers:
  assumes "resolveSinkConfig cfg ref = (kind, workers, chan_size, merged)" and "distinct (map fst (sr_Config ref))"
    and "\<And>i. instance_of cfg ref = Some i \<Longrightarrow> distinct (map fst (si_Config i))"
  shows "map_of merged key =
      (case map_of (sr_Config ref) key of
         Some v \<Rightarrow> Some v
       | None \<Rightarrow>
           (case Option.bind (instance_of cfg ref) (\<lambda>i. map_of (si_Config i) key) of
              Some v \<Rightarrow> Some v
            | None \<Rightarrow> map_of (globalSinkDefaults cfg kind) key))
    \<and> kind \<noteq> []
    \<and> (case instance_of cfg ref of
         Some i \<Rightarrow> kind = (if si_Type i = [] then ''redis'' else si_Type i)
           \<and> workers = (if sr_Workers ref \<le> 0 then si_Workers i else sr_Workers ref)
           \<and> chan_size = (if sr_ChannelSize ref \<le> 0 then si_ChannelSize i else sr_ChannelSize ref)
       | None \<Rightarrow> kind = (if sr_Type ref = [] then ''redis'' else sr_Type ref) \<and> workers = sr_Workers ref \<and> chan_size = sr_ChannelSize ref)"
  using assms
  by (cases "instance_of cfg ref") (auto simp: resolveSinkConfig_def map_of_put Let_def map_add_def split: option.split)

definition sample_ref :: SinkRef where
  "sample_ref = \<lparr>sr_Type = ''kafka'', sr_Instance = [], sr_Workers = 2, sr_ChannelSize = 0, sr_Config = [(''topic'', DStr ''t'')]\<rparr>"

theorem resolveSinkConfig_layers_witness:
  "case resolveSinkConfig zero_config sample_ref of (kind, workers, chan_size, merged) \<Rightarrow>
     kind = ''kafka'' \<and> map_of merged ''topic'' = Some (DStr ''t'') \<and> map_of merged ''compression'' = Some (DStr [])"
proof -
  obtain kind workers chan_size merged where R: "resolveSinkConfig zero_config sample_ref = (kind, workers, chan_size, merged)"
    by (cases "resolveSinkConfig zero_config sample_ref")
  have i: "instance_of zero_config sample_ref = None" by (simp add: instance_of_def sample_ref_def)
  note L = resolveSinkConfig_layers [OF R]
  have "distinct (map fst (sr_Config sample_ref))" by (simp add: sample_ref_def)
  with L [of "''topic''"] L [of "''compression''"] i show ?thesis
    by (simp add: R) (simp add: sample_ref_def globalSinkDefaults_def zero_config_def)
qed

subsection \<open>Ownership across the pools of a project\<close>

definition held_all :: "WorkerPool list \<Rightarrow> addr list" where
  "held_all ps = concat (map held ps)"

lemma held_all_simps [simp]: "held_all [] = []" "held_all (p # ps) = held p @ held_all ps"
  by (simp_all add: held_all_def)

text \<open>
  The pools share one heap of messages: no message is held twice, held messages are live, and
  every pool is within its bounds.
\<close>

definition pool_local :: "WorkerPool \<Rightarrow> bool" where
  "pool_local wp \<longleftrightarrow> length (ch_buf (wp_ch wp)) \<le> ch_cap (wp_ch wp) \<and> int (length (wp_busy wp)) \<le> wp_workers wp
     \<and> circuit_ok wp \<and> (ch_closed (wp_ch wp) \<longleftrightarrow> wp_closed wp)"

definition pools_inv :: "WorkerPool list \<Rightarrow> world \<Rightarrow> bool" where
  "pools_inv ps wd \<longleftrightarrow> heap_ok (wd_heap wd) \<and> distinct (held_all ps) \<and> set (held_all ps) \<subseteq> live (wd_heap wd)
     \<and> list_all pool_local ps"

lemma pool_inv_local: "pool_inv (wp, wd) \<longleftrightarrow> heap_ok (wd_heap wd) \<and> distinct (held wp) \<and> set (held wp) \<subseteq> live (wd_heap wd) \<and> pool_local wp"
  by (auto simp: pool_inv_def pool_local_def held_def owned_def)

text \<open>A submission of either kind, seen from outside the pool.\<close>

definition submit_either :: "bool \<Rightarrow> addr \<Rightarrow> WorkerPool \<Rightarrow> world \<Rightarrow> (submit_error + unit) \<times> WorkerPool \<times> world" where
  "submit_either strict m p wd = (if strict then SubmitStrict m p wd else Submit id m p wd)"

lemma submit_either_ok:
  assumes "pool_inv (p, wd)" "m \<in> live (wd_heap wd)" "m \<notin> owned p" "submit_either strict m p wd = (r, p', wd')"
  shows "pool_inv (p', wd')" and "r \<noteq> Inl SendOnClosed"
    and "(wd' = wd \<and> r = Inr () \<and> held p' = ch_buf (wp_ch p) @ m # wp_busy p)
         \<or> (held p' = held p \<and> wd_heap wd' = ReleaseMessage (Some m) (wd_heap wd))"
proof -
  have "pool_step (p, wd) (p', wd')"
    using assms(2-4) pool_step.submit [of m wd p r p' wd'] pool_step.strict [of m wd p r p' wd']
    by (auto simp: submit_either_def split: if_splits)
  then show "pool_inv (p', wd')" using assms(1) by (rule pool_inv_step)
  show r: "r \<noteq> Inl SendOnClosed"
    using assms(1,4) by (auto simp: submit_either_def Submit_def SubmitStrict_def submit_send_def try_send_def pool_inv_def Let_def
        split: if_splits Backpressure.splits)
  show "(wd' = wd \<and> r = Inr () \<and> held p' = ch_buf (wp_ch p) @ m # wp_busy p)
         \<or> (held p' = held p \<and> wd_heap wd' = ReleaseMessage (Some m) (wd_heap wd))"
    using assms(4) r Submit_outcomes [of m p wd r p' wd'] SubmitStrict_outcomes [of m p wd r p' wd']
    by (auto simp: submit_either_def split: if_splits)
qed

lemma copyMessage_ok:
  assumes "heap_ok h" "a \<in> live h" "hp_mem h a = Some m" "copyMessage pick a h = (b, h')"
  shows "heap_ok h'" "b \<notin> live h" "live h' = insert b (live h)" "hp_mem h' b = Some (copy_of m)"
    "\<And>c. c \<in> live h \<Longrightarrow> hp_mem h' c = hp_mem h c"
proof -
  obtain h1 where A: "AcquireMessage pick h = (b, h1)" and h': "h' = put_message b (copy_of (the (hp_mem h1 a))) h1"
    using assms(4) by (auto simp: copyMessage_def split: prod.splits)
  note q = AcquireMessage_ok [OF assms(1) A]
  have "b \<in> live h1" using q(3) by simp
  note p = put_message_ok [OF q(1) this, where m = "copy_of (the (hp_mem h1 a))"]
  have "hp_mem h1 a = Some m" using q(5) [OF assms(2)] assms(3) by simp
  then show "heap_ok h'" "b \<notin> live h" "live h' = insert b (live h)" "hp_mem h' b = Some (copy_of m)"
    using p q h' by simp_all
  show "hp_mem h' c = hp_mem h c" if "c \<in> live h" for c
    using that q(2) q(5) [OF that] p(4) [of c] h' by metis
qed

text \<open>What a dispatch leaves behind, relative to the pools and the world before it.\<close>

definition dispatched :: "Message \<Rightarrow> addr \<Rightarrow> WorkerPool list \<Rightarrow> world \<Rightarrow> WorkerPool list \<Rightarrow> world \<Rightarrow> bool" where
  "dispatched m a ps wd ps' wd' \<longleftrightarrow>
     pools_inv ps' wd' \<and> length ps' = length ps
     \<and> live (wd_heap wd') = (live (wd_heap wd) - {a}) \<union> set (held_all ps')
     \<and> set (held_all ps) \<subseteq> set (held_all ps') \<and> set (held_all ps') \<inter> live (wd_heap wd) = set (held_all ps)
     \<and> (\<forall>b\<in>live (wd_heap wd) - {a}. hp_mem (wd_heap wd') b = hp_mem (wd_heap wd) b)
     \<and> (\<forall>b\<in>set (held_all ps') - set (held_all ps). hp_mem (wd_heap wd') b = Some (copy_of m))"

lemma dispatched_release:
  assumes "pools_inv ps wd" "a \<in> live (wd_heap wd)" "a \<notin> set (held_all ps)"
  shows "dispatched m a ps wd ps (release (Some a) wd)"
  using assms ReleaseMessage_ok [of "wd_heap wd" a] by (auto simp: dispatched_def pools_inv_def release_def)

text \<open>One pool gets its copy, the rest follows.\<close>

lemma submit_copy_ok:
  assumes I: "pools_inv (p # ps) wd" and a: "a \<in> live (wd_heap wd)" "a \<notin> set (held_all (p # ps))" "hp_mem (wd_heap wd) a = Some m"
    and C: "copyMessage pick a (wd_heap wd) = (b, h)" and S: "submit_either strict b p (wd\<lparr>wd_heap := h\<rparr>) = (r, p', wd')"
  shows "pool_inv (p', wd')" "r \<noteq> Inl SendOnClosed" "pools_inv ps wd'" "pools_inv (p' # ps) wd'"
    "live (wd_heap wd') = live (wd_heap wd) \<union> set (held p')" "set (held p) \<subseteq> set (held p')"
    "set (held p') \<inter> live (wd_heap wd) = set (held p)"
    "\<forall>c\<in>live (wd_heap wd). hp_mem (wd_heap wd') c = hp_mem (wd_heap wd) c"
    "\<forall>c\<in>set (held p') - set (held p). hp_mem (wd_heap wd') c = Some (copy_of m)"
    "r = Inr () \<Longrightarrow> strict \<Longrightarrow> length (held p') = Suc (length (held p))"
proof -
  have h: "heap_ok (wd_heap wd)" "set (held p) \<subseteq> live (wd_heap wd)" "set (held_all ps) \<subseteq> live (wd_heap wd)"
    "set (held p) \<inter> set (held_all ps) = {}" "distinct (held p)" "distinct (held_all ps)" "pool_local p" "list_all pool_local ps"
    using I by (auto simp: pools_inv_def)
  note c = copyMessage_ok [OF h(1) a(1,3) C]
  let ?w = "wd\<lparr>wd_heap := h\<rparr>"
  have p: "pool_inv (p, ?w)" using h c by (auto simp: pool_inv_local)
  have b: "b \<in> live (wd_heap ?w)" "b \<notin> owned p" using c h by (auto simp: held_owned [symmetric])
  note s = submit_either_ok [OF p b S]
  show pi: "pool_inv (p', wd')" and "r \<noteq> Inl SendOnClosed" by (rule s)+
  have bh: "b \<notin> set (held p)" using b(2) by (simp add: held_owned)
  consider (queued) "wd' = ?w" "r = Inr ()" "held p' = ch_buf (wp_ch p) @ b # wp_busy p"
    | (released) "held p' = held p" "wd_heap wd' = ReleaseMessage (Some b) h" using s(3) by auto
  then have "live (wd_heap wd') = live (wd_heap wd) \<union> set (held p') \<and> set (held p) \<subseteq> set (held p')
      \<and> set (held p') \<inter> live (wd_heap wd) = set (held p)
      \<and> (\<forall>c\<in>live (wd_heap wd). hp_mem (wd_heap wd') c = hp_mem (wd_heap wd) c)
      \<and> (\<forall>c\<in>set (held p') - set (held p). hp_mem (wd_heap wd') c = Some (copy_of m))"
  proof cases
    case queued
    then have "set (held p') = insert b (set (held p))" by (auto simp: held_def)
    with queued c h show ?thesis by auto
  next
    case released
    have "b \<in> live h" using b(1) by simp
    note rr = ReleaseMessage_ok [OF c(1) this]
    have "hp_mem (wd_heap wd') x = hp_mem (wd_heap wd) x" if "x \<in> live (wd_heap wd)" for x
      using that rr(3) [of x] c(2) c(5) [OF that] released by metis
    with released rr(2) c(2,3) h show ?thesis by auto
  qed
  then show l: "live (wd_heap wd') = live (wd_heap wd) \<union> set (held p')" "set (held p) \<subseteq> set (held p')"
    "set (held p') \<inter> live (wd_heap wd) = set (held p)"
    "\<forall>c\<in>live (wd_heap wd). hp_mem (wd_heap wd') c = hp_mem (wd_heap wd) c"
    "\<forall>c\<in>set (held p') - set (held p). hp_mem (wd_heap wd') c = Some (copy_of m)" by auto
  have heap': "heap_ok (wd_heap wd')" using pi by (simp add: pool_inv_local)
  show "pools_inv ps wd'" using h l heap' by (auto simp: pools_inv_def)
  then show "pools_inv (p' # ps) wd'" using pi h l by (auto simp: pools_inv_def pool_inv_local)
  show "r = Inr () \<Longrightarrow> strict \<Longrightarrow> length (held p') = Suc (length (held p))"
    using SubmitStrict_outcomes [of b p ?w r p' wd'] S by (auto simp: submit_either_def held_def)
qed

abbreviation plain_env :: "(nat \<Rightarrow> nat option) \<Rightarrow> dispatch_env" where
  "plain_env pick \<equiv> (pick, \<lambda>_. id)"

lemma dispatched_Cons:
  assumes I: "pools_inv (p # ps) wd" and k: "pool_inv (p1, w1)" "pools_inv (p1 # ps) w1"
    "live (wd_heap w1) = live (wd_heap wd) \<union> set (held p1)" "set (held p) \<subseteq> set (held p1)"
    "set (held p1) \<inter> live (wd_heap wd) = set (held p)"
    "\<forall>c\<in>live (wd_heap wd). hp_mem (wd_heap w1) c = hp_mem (wd_heap wd) c"
    "\<forall>c\<in>set (held p1) - set (held p). hp_mem (wd_heap w1) c = Some (copy_of m)"
    and a: "a \<notin> set (held p1)" and d: "dispatched m a ps w1 qs wd'"
  shows "dispatched m a (p # ps) wd (p1 # qs) wd'"
proof -
  have D: "live (wd_heap wd') = (live (wd_heap w1) - {a}) \<union> set (held_all qs)" "set (held_all ps) \<subseteq> set (held_all qs)"
    "set (held_all qs) \<inter> live (wd_heap w1) = set (held_all ps)" "pools_inv qs wd'" "length qs = length ps"
    using d unfolding dispatched_def by blast+
  have new: "hp_mem (wd_heap wd') c = Some (copy_of m)" if "c \<in> set (held_all qs) - set (held_all ps)" for c
    using d that unfolding dispatched_def by blast
  have keep: "hp_mem (wd_heap wd') c = hp_mem (wd_heap w1) c" if "c \<in> live (wd_heap w1)" "c \<noteq> a" for c
    using d that unfolding dispatched_def by blast
  have K: "set (held p1) \<inter> set (held_all ps) = {}" "set (held p1) \<subseteq> live (wd_heap w1)" "set (held_all ps) \<subseteq> live (wd_heap wd)"
    "pool_local p1" "distinct (held p1)"
    using k(1,2) I by (auto simp: pools_inv_def pool_inv_local)
  have "set (held p1) \<inter> set (held_all qs) = {}" using D(3) K(1,2) by blast
  moreover have "set (held p1) \<subseteq> live (wd_heap wd')" using D(1) K(2) a by blast
  ultimately have inv: "pools_inv (p1 # qs) wd'" using D(4) K(4,5) by (simp add: pools_inv_def)
  show ?thesis unfolding dispatched_def
  proof (intro conjI ballI)
    show "hp_mem (wd_heap wd') c = hp_mem (wd_heap wd) c" if "c \<in> live (wd_heap wd) - {a}" for c
      using that keep [of c] k(3,6) by auto
    show "hp_mem (wd_heap wd') c = Some (copy_of m)" if "c \<in> set (held_all (p1 # qs)) - set (held_all (p # ps))" for c
      using that keep [of c] new [of c] k(7) K(2) a by (cases "c \<in> set (held p1)") auto
    show "set (held_all (p1 # qs)) \<inter> live (wd_heap wd) = set (held_all (p # ps))"
      unfolding held_all_simps set_append using D(2,3) k(3,5) K(3) by blast
    show "live (wd_heap wd') = live (wd_heap wd) - {a} \<union> set (held_all (p1 # qs))"
      unfolding held_all_simps set_append using D(1) k(3) a by blast
    show "set (held_all (p # ps)) \<subseteq> set (held_all (p1 # qs))"
      unfolding held_all_simps set_append using D(2) k(4) by blast
  qed (use D(5) inv in simp_all)
qed

lemma fan_out_ok:
  assumes "pools_inv ps wd" "a \<in> live (wd_heap wd)" "a \<notin> set (held_all ps)" "hp_mem (wd_heap wd) a = Some m"
    and "fan_out (plain_env pick) strict a i ps wd = (r, ps', wd')"
  shows "dispatched m a ps wd ps' wd' \<and> r \<noteq> Inl Panicked
    \<and> (r = Inr () \<and> strict \<longrightarrow> length (held_all ps') = length (held_all ps) + length ps)"
  using assms
proof (induction ps arbitrary: i wd r ps' wd')
  case Nil
  then show ?case using dispatched_release [OF Nil(1-3)] by auto
next
  case (Cons p ps)
  obtain b h where C: "copyMessage (pick i) a (wd_heap wd) = (b, h)" by (cases "copyMessage (pick i) a (wd_heap wd)")
  obtain r1 p1 w1 where S: "submit_either strict b p (wd\<lparr>wd_heap := h\<rparr>) = (r1, p1, w1)"
    by (cases "submit_either strict b p (wd\<lparr>wd_heap := h\<rparr>)")
  note k = submit_copy_ok [OF Cons.prems(1-4) C S]
  have a1: "a \<in> live (wd_heap w1)" "a \<notin> set (held p1)" "a \<notin> set (held_all ps)" "hp_mem (wd_heap w1) a = Some m"
    using k(5,7,8) Cons.prems(2-4) by auto
  note Cons_ok = dispatched_Cons [OF Cons.prems(1) k(1,4-9) a1(2)]
  have sub: "(if strict then SubmitStrict b p (wd\<lparr>wd_heap := h\<rparr>) else Submit id b p (wd\<lparr>wd_heap := h\<rparr>)) = (r1, p1, w1)"
    using S by (simp add: submit_either_def)
  have step: "(r, ps', wd') =
      (case (r1, p1, w1) of
         (Inl SendOnClosed, p, wd) \<Rightarrow> (Inl Panicked, p # ps, wd)
       | (Inl e, p, wd) \<Rightarrow> (Inl (SubmitFailed e), p # ps, release (Some a) wd)
       | (Inr _, p, wd) \<Rightarrow> (case fan_out (plain_env pick) strict a (Suc i) ps wd of (r, qs, wd) \<Rightarrow> (r, p # qs, wd)))"
    using Cons.prems(5) unfolding fan_out.simps fst_conv snd_conv C prod.case Let_def sub by (rule sym)
  show ?case
  proof (cases r1)
    case (Inl e)
    then have f: "r = Inl (SubmitFailed e)" "ps' = p1 # ps" "wd' = release (Some a) w1"
      using step k(2) by (cases e; simp)+
    then show ?thesis using Cons_ok [OF dispatched_release [OF k(3) a1(1,3)]] by simp
  next
    case (Inr u)
    obtain qs where f: "fan_out (plain_env pick) strict a (Suc i) ps w1 = (r, qs, wd')" "ps' = p1 # qs"
      using step Inr by (auto split: prod.splits)
    note IH = Cons.IH [OF k(3) a1(1,3,4) f(1)]
    then show ?thesis using Cons_ok [of qs wd'] k(10) f(2) Inr by auto
  qed
qed

definition project_pools :: "bytes \<Rightarrow> Dispatcher \<Rightarrow> WorkerPool list" where
  "project_pools project d = (case dp_pools d of None \<Rightarrow> [] | Some pools \<Rightarrow> (case map_of pools project of None \<Rightarrow> [] | Some ps \<Rightarrow> ps))"

lemma project_pools_set: "dp_pools d = Some pools \<Longrightarrow> project_pools project (set_pools project ps d) = ps"
  by (simp add: project_pools_def set_pools_def update_conv')

text \<open>The message a dispatch fans out: what the pipeline made of it.\<close>

definition piped :: "Config \<Rightarrow> bool \<Rightarrow> Message \<Rightarrow> Dispatcher \<Rightarrow> processed" where
  "piped cfg skip m d =
     (case GetProject (msg_Project m) cfg of
        None \<Rightarrow> Processed m
      | Some p \<Rightarrow> if skip \<or> pc_Pipelines p = [] then Processed m else Chain_Process (buildPipelineChain p d) m)"

lemma run_pipeline_piped:
  assumes "hp_mem (wd_heap wd) a = Some m"
  shows "run_pipeline cfg skip a (msg_Project m) d wd =
    (case piped cfg skip m d of
       Processed m' \<Rightarrow> (Inr (), if m' = m then wd else wd\<lparr>wd_heap := put_message a m' (wd_heap wd)\<rparr>)
     | ProcError \<Rightarrow> (Inl (PipelineFailed (msg_Project m)), wd)
     | ProcPanic \<Rightarrow> (Inl Panicked, wd))"
proof -
  have "put_message a m (wd_heap wd) = wd_heap wd" using assms by (simp add: put_message_def fun_upd_idem)
  with assms show ?thesis
    by (auto simp: run_pipeline_def piped_def release_def dest: GetProject_Some split: option.split processed.split)
qed

lemma dispatched_put:
  assumes "dispatched m' a ps (wd\<lparr>wd_heap := put_message a m' (wd_heap wd)\<rparr>) ps' wd'" "heap_ok (wd_heap wd)" "a \<in> live (wd_heap wd)"
  shows "dispatched m' a ps wd ps' wd'"
  using assms put_message_ok [OF assms(2,3), where m = m'] by (simp add: dispatched_def)

lemma pools_inv_put:
  assumes "pools_inv ps wd" "a \<in> live (wd_heap wd)"
  shows "pools_inv ps (wd\<lparr>wd_heap := put_message a m' (wd_heap wd)\<rparr>)"
  using assms put_message_ok [of "wd_heap wd" a, where m = m'] by (simp add: pools_inv_def)

lemma dispatchImpl_early:
  assumes "hp_mem (wd_heap wd) a = Some m" "msg_Project m = [] \<or> project_pools (msg_Project m) d = []"
  shows "\<exists>e. e \<notin> {Panicked, PipelineFailed (msg_Project m)} \<and> dispatchImpl cfg env (Some a) strict skip d wd = (Inl e, d, release (Some a) wd)"
  using assms by (auto simp: dispatchImpl_def project_pools_def Let_def split: option.split list.split)

lemma dispatchImpl_late:
  assumes "hp_mem (wd_heap wd) a = Some m" "msg_Project m \<noteq> []" "project_pools (msg_Project m) d \<noteq> []"
  shows "dispatchImpl cfg env (Some a) strict skip d wd =
    (case piped cfg skip m d of
       Processed m' \<Rightarrow>
         (case fan_out env strict a 0 (project_pools (msg_Project m) d) (if m' = m then wd else wd\<lparr>wd_heap := put_message a m' (wd_heap wd)\<rparr>) of
            (r, ps, wd) \<Rightarrow> (r, set_pools (msg_Project m) ps d, wd))
     | ProcError \<Rightarrow> (Inl (PipelineFailed (msg_Project m)), d, wd)
     | ProcPanic \<Rightarrow> (Inl Panicked, d, wd))"
proof -
  obtain pools p ps where P: "dp_pools d = Some pools" "map_of pools (msg_Project m) = Some (p # ps)"
    using assms(3) by (auto simp: project_pools_def neq_Nil_conv split: option.splits)
  then have q: "project_pools (msg_Project m) d = p # ps" by (simp add: project_pools_def)
  show ?thesis
    unfolding dispatchImpl_def option.case Let_def P(1) assms(1) option.sel P(2) list.case q run_pipeline_piped [OF assms(1)] if_not_P [OF assms(2)]
    by (simp split: processed.split)
qed

text \<open>All of a dispatch at once, unless the pipeline fails.\<close>

lemma dispatchImpl_dispatched:
  assumes "dispatchImpl cfg (plain_env pick) (Some a) strict skip d wd = (r, d', wd')"
    and "pools_inv (project_pools (msg_Project m) d) wd" and "a \<in> live (wd_heap wd)"
    and "a \<notin> set (held_all (project_pools (msg_Project m) d))" and "hp_mem (wd_heap wd) a = Some m"
    and "piped cfg skip m d = Processed m'"
  shows "dispatched m' a (project_pools (msg_Project m) d) wd (project_pools (msg_Project m) d') wd'" and "r \<noteq> Inl Panicked"
    and "r = Inr () \<and> strict \<longrightarrow>
      length (held_all (project_pools (msg_Project m) d')) = length (held_all (project_pools (msg_Project m) d)) + length (project_pools (msg_Project m) d)"
    and "d' = d \<or> d' = set_pools (msg_Project m) (project_pools (msg_Project m) d') d"
proof -
  let ?ps = "project_pools (msg_Project m) d" and ?ps' = "project_pools (msg_Project m) d'"
  have h: "heap_ok (wd_heap wd)" using assms(2) by (simp add: pools_inv_def)
  have "dispatched m' a ?ps wd ?ps' wd' \<and> r \<noteq> Inl Panicked \<and> (r = Inr () \<and> strict \<longrightarrow> length (held_all ?ps') = length (held_all ?ps) + length ?ps)
    \<and> (d' = d \<or> d' = set_pools (msg_Project m) ?ps' d)"
  proof (cases "msg_Project m = [] \<or> ?ps = []")
    case True
    then have "d' = d" "wd' = release (Some a) wd" "r \<noteq> Inr ()" "r \<noteq> Inl Panicked"
      using dispatchImpl_early [OF assms(5), of d cfg "plain_env pick" strict skip] assms(1) by auto
    then show ?thesis using dispatched_release [OF assms(2-4)] by simp
  next
    case False
    then have pp: "dp_pools d \<noteq> None" by (auto simp: project_pools_def split: option.splits)
    obtain ps' where 2: "d' = set_pools (msg_Project m) ps' d"
        "fan_out (plain_env pick) strict a 0 ?ps (if m' = m then wd else wd\<lparr>wd_heap := put_message a m' (wd_heap wd)\<rparr>) = (r, ps', wd')"
      using dispatchImpl_late [OF assms(5), of d cfg "plain_env pick" strict skip] False assms(1,6) by (auto split: prod.splits)
    define w1 where "w1 = (if m' = m then wd else wd\<lparr>wd_heap := put_message a m' (wd_heap wd)\<rparr>)"
    have w: "pools_inv ?ps w1" "a \<in> live (wd_heap w1)" "hp_mem (wd_heap w1) a = Some m'"
      using assms(2,3,5) pools_inv_put [OF assms(2,3)] put_message_ok [OF h assms(3)] by (auto simp: w1_def)
    from fan_out_ok [OF w(1,2) assms(4) w(3)] 2(2) have f: "dispatched m' a ?ps w1 ps' wd'" "r \<noteq> Inl Panicked"
      "r = Inr () \<and> strict \<longrightarrow> length (held_all ps') = length (held_all ?ps) + length ?ps" unfolding w1_def by blast+
    have "dispatched m' a ?ps wd ps' wd'" using f(1) dispatched_put [OF _ h assms(3)] by (simp add: w1_def split: if_splits)
    moreover have "?ps' = ps'" using 2(1) pp project_pools_set by auto
    ultimately show ?thesis using f(2,3) 2(1) by simp
  qed
  then show "dispatched m' a ?ps wd ?ps' wd'" "r \<noteq> Inl Panicked"
    "r = Inr () \<and> strict \<longrightarrow> length (held_all ?ps') = length (held_all ?ps) + length ?ps" "d' = d \<or> d' = set_pools (msg_Project m) ?ps' d" by blast+
qed

subsection \<open>Properties\<close>


definition sample_pool :: WorkerPool where
  "sample_pool = NewWorkerPool (sample_pool_config\<lparr>wc_Backpressure := BackpressureDrop\<rparr>)"

definition full_pool :: WorkerPool where
  "full_pool = sample_pool\<lparr>wp_ch := \<lparr>ch_buf = [1], ch_cap = 1, ch_closed = False\<rparr>\<rparr>"

definition sample_dispatcher :: "WorkerPool list \<Rightarrow> Dispatcher" where
  "sample_dispatcher ps = (NewDispatcher [] True BackpressureDrop)\<lparr>dp_pools := Some [(''p'', ps)]\<rparr>"

lemma sample_pools:
  "project_pools ''p'' (sample_dispatcher ps) = ps" "held sample_pool = []" "held full_pool = [1]"
  "pool_local sample_pool" "pool_local full_pool" "msg_Project sample_message = ''p''"
  "hp_mem (wd_heap sample_world) 0 = Some sample_message" "0 \<in> live (wd_heap sample_world)"
  "piped zero_config skip sample_message (sample_dispatcher ps) = Processed sample_message"
  by (simp_all add: project_pools_def sample_dispatcher_def sample_pool_def full_pool_def NewWorkerPool_def sample_pool_config_def
      held_def make_chan_def pool_local_def circuit_ok_def sample_message_def sample_world_ok piped_def GetProject_def zero_config_def)
    (simp_all add: sample_world_def sample_message_def)

lemma sample_pools_inv: "pools_inv [sample_pool, full_pool] sample_world" "pools_inv [sample_pool] sample_world"
  by (simp_all add: pools_inv_def sample_pools sample_world_ok)


text \<open>
  C32: a failing pipeline loses a message object. The comment on \<open>dispatchImpl\<close> promises that the message
  is released on every error, but \<open>Chain.Process\<close> returns nil with its error, so what is released is nil: the
  message stays live, and no pool holds it.
\<close>

theorem pipeline_failure_leaks:
  assumes "hp_mem (wd_heap wd) a = Some m" "a \<in> live (wd_heap wd)" "msg_Project m \<noteq> []" "project_pools (msg_Project m) d \<noteq> []"
    and "a \<notin> set (held_all (project_pools (msg_Project m) d))" "piped cfg False m d = ProcError"
  shows "Dispatch cfg env (Some a) d wd = (Inl (PipelineFailed (msg_Project m)), d, wd) \<and> a \<in> live (wd_heap wd)
    \<and> a \<notin> set (held_all (project_pools (msg_Project m) d))"
  using assms dispatchImpl_late [OF assms(1,3,4), of cfg env False False] by (simp add: Dispatch_def)

definition leaky_config :: Config where
  "leaky_config = zero_config\<lparr>cf_Projects := [\<lparr>pc_Name = ''p'', pc_Enabled = True, pc_Sinks = [], pc_RateLimit = 0, pc_MaxBodyBytes = 0,
     pc_AuthRequired = False, pc_Pipelines = [\<lparr>pr_Type = ''field_add'', pr_Config = [(''fields'', DMap [(''x'', DOther)])]\<rparr>]\<rparr>]\<rparr>"

theorem pipeline_failure_leaks_witness:
  "fst (Dispatch leaky_config (plain_env (\<lambda>_. None)) (Some 0) (sample_dispatcher [sample_pool]) sample_world) = Inl (PipelineFailed ''p'')"
proof -
  have "case piped leaky_config False sample_message (sample_dispatcher [sample_pool]) of ProcError \<Rightarrow> True | _ \<Rightarrow> False" by code_simp
  then have "piped leaky_config False sample_message (sample_dispatcher [sample_pool]) = ProcError" by (simp split: processed.splits)
  with pipeline_failure_leaks [of sample_world 0 sample_message "sample_dispatcher [sample_pool]" leaky_config "plain_env (\<lambda>_. None)"]
  show ?thesis by (simp add: sample_pools)
qed

text \<open>
  C33: a strict dispatch is not all or nothing. When the first pool of a project has room and the second is
  full, the dispatch fails, but the copy for the first pool stays queued. The replay keeps the segment for
  such an error and sends the entry again, so the first sink gets it a second time.
\<close>

theorem strict_dispatch_partial:
  assumes "pools_inv [p, q] wd" "a \<in> live (wd_heap wd)" "a \<notin> set (held_all [p, q])" "hp_mem (wd_heap wd) a = Some m"
    and "msg_Project m \<noteq> []" "project_pools (msg_Project m) d = [p, q]" "dp_pools d = Some pools"
    and "\<not> wp_closed p" "\<not> wp_circuitOpen p" "length (ch_buf (wp_ch p)) < ch_cap (wp_ch p)"
    and "\<not> wp_closed q" "\<not> wp_circuitOpen q" "length (ch_buf (wp_ch q)) = ch_cap (wp_ch q)"
    and "DispatchStrict cfg (plain_env pick) (Some a) d wd = (r, d', wd')"
  shows "r = Inl (SubmitFailed ChannelFull)
    \<and> (\<exists>p' b. project_pools (msg_Project m) d' = [p', q] \<and> ch_buf (wp_ch p') = ch_buf (wp_ch p) @ [b]
        \<and> hp_mem (wd_heap wd') b = Some (copy_of m))"
proof -
  obtain b h where C: "copyMessage (pick 0) a (wd_heap wd) = (b, h)" by (cases "copyMessage (pick 0) a (wd_heap wd)")
  have hp: "heap_ok (wd_heap wd)" using assms(1) by (simp add: pools_inv_def)
  note c = copyMessage_ok [OF hp assms(2,4) C]
  have am: "hp_mem h a = Some m" "a \<in> live h" using c(3,5) assms(2,4) by auto
  obtain b2 h2 where C2: "copyMessage (pick 1) a h = (b2, h2)" by (cases "copyMessage (pick 1) a h")
  note c2 = copyMessage_ok [OF c(1) am(2,1) C2]
  have open': "\<not> ch_closed (wp_ch p)" "\<not> ch_closed (wp_ch q)" using assms(1,8,11) by (auto simp: pools_inv_def pool_local_def)
  let ?p = "p\<lparr>wp_ch := (wp_ch p)\<lparr>ch_buf := ch_buf (wp_ch p) @ [b]\<rparr>\<rparr>"
  let ?w = "release (Some a) (wd\<lparr>wd_heap := ReleaseMessage (Some b2) h2\<rparr>)"
  have "fan_out (plain_env pick) True a 0 [p, q] wd = (Inl (SubmitFailed ChannelFull), [?p, q], ?w)"
    using assms(8-13) open' C C2 by (simp add: SubmitStrict_def try_send_def release_def Let_def)
  moreover have "piped cfg True m d = Processed m" by (simp add: piped_def split: option.split)
  ultimately have D: "r = Inl (SubmitFailed ChannelFull)" "d' = set_pools (msg_Project m) [?p, q] d" "wd' = ?w"
    using assms(14) dispatchImpl_late [OF assms(4,5), of d cfg "plain_env pick" True True] assms(6) by (simp_all add: DispatchStrict_def)
  have b: "b \<in> live h" "b \<noteq> a" "b2 \<notin> live h" "b2 \<noteq> a" using c(2,3) c2(2) am(2) assms(2) by auto
  have l2: "b2 \<in> live h2" using c2(3) by simp
  note r2 = ReleaseMessage_ok [OF c2(1) l2]
  have la: "a \<in> live (ReleaseMessage (Some b2) h2)" using r2(2) c2(3) am(2) b(4) by auto
  have "hp_mem (wd_heap wd') b = hp_mem h b"
    using D(3) ReleaseMessage_ok(3) [OF r2(1) la b(2)] r2(3) [of b] b(1,3) c2(5) [OF b(1)] by (auto simp: release_def)
  with D c(4) project_pools_set [OF assms(7)] show ?thesis by auto
qed

theorem strict_dispatch_partial_witness:
  "\<exists>d' wd'. DispatchStrict zero_config (plain_env (\<lambda>_. None)) (Some 0) (sample_dispatcher [sample_pool, full_pool]) sample_world
     = (Inl (SubmitFailed ChannelFull), d', wd')"
proof -
  obtain r d' wd' where D: "DispatchStrict zero_config (plain_env (\<lambda>_. None)) (Some 0) (sample_dispatcher [sample_pool, full_pool]) sample_world = (r, d', wd')"
    by (metis prod_cases3)
  have f: "dp_pools (sample_dispatcher [sample_pool, full_pool]) = Some [(''p'', [sample_pool, full_pool])]"
    "\<not> wp_closed sample_pool" "\<not> wp_circuitOpen sample_pool" "length (ch_buf (wp_ch sample_pool)) < ch_cap (wp_ch sample_pool)"
    "\<not> wp_closed full_pool" "\<not> wp_circuitOpen full_pool" "length (ch_buf (wp_ch full_pool)) = ch_cap (wp_ch full_pool)"
    by (simp_all add: sample_dispatcher_def sample_pool_def full_pool_def NewWorkerPool_def sample_pool_config_def make_chan_def)
  from strict_dispatch_partial [OF _ _ _ _ _ _ _ _ _ _ _ _ _ D, of sample_pool full_pool sample_message] f sample_pools_inv sample_pools D
  show ?thesis by auto
qed

lemma max_delay_ok:
  "max_delay ps m = Inr x \<longleftrightarrow> (\<forall>p\<in>set ps. CanAcceptReplay p \<noteq> None) \<and> x = foldl max m (map (\<lambda>p. the (CanAcceptReplay p)) ps)"
  by (induction ps arbitrary: m) (auto simp: max_def split: option.split)

lemma foldl_max_bounds: "m \<le> b \<Longrightarrow> (\<And>x. x \<in> set xs \<Longrightarrow> x \<le> b) \<Longrightarrow> m \<le> foldl max m xs \<and> foldl max m xs \<le> (b :: int)"
proof (induction xs arbitrary: m)
  case (Cons x xs)
  from Cons.IH [of "max m x"] Cons.prems show ?case by auto
qed simp

lemma ReplayBackoff_eq:
  "ReplayBackoff project d = Inr x \<longleftrightarrow> project \<noteq> [] \<and> project_pools project d \<noteq> [] \<and> max_delay (project_pools project d) 0 = Inr x"
  by (auto simp: ReplayBackoff_def project_pools_def split: option.splits list.splits)

text \<open>
  C31: replay asks all pools of a project. It may go on exactly when the project has pools and none of them is
  closed, has its circuit open or is four fifths full; the pause is then the longest any of them asks
  for, and at most 300 ms.
\<close>

theorem ReplayBackoff_all_pools:
  assumes "list_all pool_local (project_pools project d)"
    and "\<forall>p\<in>set (project_pools project d). 0 < ch_cap (wp_ch p) \<and> ch_cap (wp_ch p) < 2 ^ 49"
  shows "case ReplayBackoff project d of
      Inl _ \<Rightarrow> project = [] \<or> project_pools project d = [] \<or> (\<exists>p\<in>set (project_pools project d). wp_closed p \<or> wp_circuitOpen p
        \<or> 4 * ch_cap (wp_ch p) \<le> 5 * length (ch_buf (wp_ch p)))
    | Inr delay \<Rightarrow> project \<noteq> [] \<and> project_pools project d \<noteq> [] \<and> (\<forall>p\<in>set (project_pools project d). \<not> wp_closed p \<and> \<not> wp_circuitOpen p
        \<and> 5 * length (ch_buf (wp_ch p)) < 4 * ch_cap (wp_ch p))
        \<and> delay = foldl max 0 (map (\<lambda>p. the (CanAcceptReplay p)) (project_pools project d)) \<and> 0 \<le> delay \<and> delay \<le> 300 * Millisecond"
proof -
  let ?ps = "project_pools project d"
  have dec: "case CanAcceptReplay p of
      None \<Rightarrow> wp_closed p \<or> wp_circuitOpen p \<or> 4 * ch_cap (wp_ch p) \<le> 5 * length (ch_buf (wp_ch p))
    | Some delay \<Rightarrow> \<not> wp_closed p \<and> \<not> wp_circuitOpen p \<and> 5 * length (ch_buf (wp_ch p)) < 4 * ch_cap (wp_ch p)
        \<and> (if 2 * length (ch_buf (wp_ch p)) < ch_cap (wp_ch p) then delay = 0 else 10 * Millisecond \<le> delay \<and> delay \<le> 300 * Millisecond)"
    if "p \<in> set ?ps" for p
    using that assms by (intro replay_decision) (auto simp: list_all_iff pool_local_def)
  show ?thesis
  proof (cases "ReplayBackoff project d")
    case (Inl e)
    then have "\<not> (project \<noteq> [] \<and> ?ps \<noteq> [] \<and> (\<forall>p\<in>set ?ps. CanAcceptReplay p \<noteq> None))"
      using ReplayBackoff_eq [of project d "foldl max 0 (map (\<lambda>p. the (CanAcceptReplay p)) ?ps)"]
        max_delay_ok [of ?ps 0 "foldl max 0 (map (\<lambda>p. the (CanAcceptReplay p)) ?ps)"] by auto
    moreover have "wp_closed p \<or> wp_circuitOpen p \<or> 4 * ch_cap (wp_ch p) \<le> 5 * length (ch_buf (wp_ch p))"
      if "p \<in> set ?ps" "CanAcceptReplay p = None" for p
      using dec [OF that(1)] that(2) by simp
    ultimately show ?thesis unfolding Inl sum.case by blast
  next
    case (Inr x)
    then have x: "project \<noteq> []" "?ps \<noteq> []" "\<forall>p\<in>set ?ps. CanAcceptReplay p \<noteq> None" "x = foldl max 0 (map (\<lambda>p. the (CanAcceptReplay p)) ?ps)"
      using ReplayBackoff_eq [of project d x] max_delay_ok [of ?ps 0 x] by auto
    have ok: "\<not> wp_closed p \<and> \<not> wp_circuitOpen p \<and> 5 * length (ch_buf (wp_ch p)) < 4 * ch_cap (wp_ch p)
        \<and> the (CanAcceptReplay p) \<le> 300 * Millisecond" if "p \<in> set ?ps" for p
      using dec [OF that] x(3) that by (auto split: option.splits if_splits)
    then have "0 \<le> x \<and> x \<le> 300 * Millisecond" unfolding x(4) by (intro foldl_max_bounds) auto
    with Inr x ok show ?thesis by auto
  qed
qed

theorem ReplayBackoff_all_pools_witness:
  "\<exists>delay. ReplayBackoff ''p'' (sample_dispatcher [sample_pool]) = Inr delay \<and> delay \<le> 300 * Millisecond"
proof -
  have f: "0 < ch_cap (wp_ch sample_pool)" "ch_cap (wp_ch sample_pool) < 2 ^ 49" "\<not> wp_closed sample_pool" "\<not> wp_circuitOpen sample_pool"
    "ch_buf (wp_ch sample_pool) = []"
    by (simp_all add: sample_pool_def NewWorkerPool_def sample_pool_config_def make_chan_def)
  with ReplayBackoff_all_pools [of "''p''" "sample_dispatcher [sample_pool]"] sample_pools show ?thesis
    by (auto split: sum.splits)
qed

subsection \<open>Initialization\<close>

definition fresh_pool :: "Dispatcher \<Rightarrow> WorkerPool \<Rightarrow> bool" where
  "fresh_pool d p \<longleftrightarrow> held p = [] \<and> pool_local p \<and> \<not> wp_closed p \<and> \<not> wp_circuitOpen p \<and> wp_maxFails p = 10
     \<and> 0 < wp_workers p \<and> 0 < ch_cap (wp_ch p) \<and> wp_backpressure p = dp_bp d \<and> wp_useWal p = dp_wal d \<and> wp_metrics p = []"

lemma init_pools_ok:
  "init_pools cfg n i refs d = Some ps \<Longrightarrow> length ps = length refs \<and> list_all (fresh_pool d) ps"
proof (induction refs arbitrary: i ps)
  case (Cons ref refs)
  obtain p qs where p: "init_pool cfg n i ref d = Some p" "init_pools cfg n (Suc i) refs d = Some qs" "ps = p # qs"
    using Cons.prems by (auto split: option.splits)
  have "fresh_pool d p"
    using p(1) by (auto simp: init_pool_def fresh_pool_def NewWorkerPool_def held_def make_chan_def pool_local_def circuit_ok_def Let_def
        split: prod.splits option.splits)
  with Cons.IH [OF p(2)] p(3) show ?case by simp
qed simp

lemma init_projects_ok:
  assumes "init_projects cfg ps d = Some d'" "dp_pools d \<noteq> None"
  shows "dp_pools d' \<noteq> None \<and> dp_bp d' = dp_bp d \<and> dp_wal d' = dp_wal d
    \<and> (\<forall>n. n \<notin> pc_Name ` set (filter pc_Enabled ps) \<longrightarrow> project_pools n d' = project_pools n d)
    \<and> (distinct (map pc_Name (filter pc_Enabled ps)) \<longrightarrow> (\<forall>p\<in>set (filter pc_Enabled ps).
         length (project_pools (pc_Name p) d') = length (pc_Sinks p) \<and> list_all (fresh_pool d) (project_pools (pc_Name p) d')))"
  using assms
proof (induction ps arbitrary: d)
  case (Cons p ps)
  show ?case
  proof (cases "pc_Enabled p")
    case False
    with Cons show ?thesis by simp
  next
    case True
    obtain qs where q: "init_pools cfg (pc_Name p) 0 (pc_Sinks p) d = Some qs"
      and I: "init_projects cfg ps (set_pools (pc_Name p) qs d) = Some d'"
      using Cons.prems(1) True by (auto simp: initProject_def set_pools_def split: option.splits)
    let ?d = "set_pools (pc_Name p) qs d"
    have s: "dp_pools ?d \<noteq> None" "dp_bp ?d = dp_bp d" "dp_wal ?d = dp_wal d" "project_pools (pc_Name p) ?d = qs"
      "n \<noteq> pc_Name p \<Longrightarrow> project_pools n ?d = project_pools n d" "fresh_pool ?d = fresh_pool d" for n
      using Cons.prems(2) by (auto simp: set_pools_def project_pools_def update_conv' fresh_pool_def fun_eq_iff split: option.splits)
    note IH = Cons.IH [OF I s(1)]
    show ?thesis using IH s init_pools_ok [OF q] True by (auto simp: list_all_iff)
  qed
qed simp

text \<open>
  Initialization. If every sink can be created, each enabled project gets one fresh pool per configured
  sink, with at least one worker and one slot, ten failures to open its circuit, and the backpressure mode and
  log of the dispatcher; other projects get none. So the pools are in order for every consistent heap.
\<close>

theorem Initialize_pools:
  assumes "Initialize cfg (NewDispatcher reg walWriter bp) = Some d" and "distinct (map pc_Name (filter pc_Enabled (cf_Projects cfg)))"
  shows "(\<forall>p\<in>set (cf_Projects cfg). pc_Enabled p \<longrightarrow>
       length (project_pools (pc_Name p) d) = length (pc_Sinks p)
       \<and> (\<forall>wp\<in>set (project_pools (pc_Name p) d). 0 < wp_workers wp \<and> 0 < ch_cap (wp_ch wp) \<and> wp_maxFails wp = 10
            \<and> wp_backpressure wp = bp \<and> wp_useWal wp = walWriter)
       \<and> (heap_ok (wd_heap wd) \<longrightarrow> pools_inv (project_pools (pc_Name p) d) wd))
    \<and> (\<forall>n. GetProject n cfg = None \<longrightarrow> project_pools n d = [])"
proof -
  let ?d0 = "NewDispatcher reg walWriter bp"
  have d0: "dp_pools ?d0 \<noteq> None" "project_pools n ?d0 = []" "dp_bp ?d0 = bp" "dp_wal ?d0 = walWriter" for n
    by (simp_all add: NewDispatcher_def project_pools_def)
  note I = init_projects_ok [OF assms(1) [unfolded Initialize_def] d0(1), THEN conjunct2, THEN conjunct2, THEN conjunct2]
  note I3 = I [THEN conjunct1, rule_format] and I4 = I [THEN conjunct2, rule_format, OF assms(2)]
  have none: "project_pools n d = []" if "GetProject n cfg = None" for n
  proof -
    have "n \<notin> pc_Name ` set (filter pc_Enabled (cf_Projects cfg))" using that by (auto simp: GetProject_def find_project_None)
    from I3 [OF this] show ?thesis unfolding d0(2) .
  qed
  have inv: "pools_inv ps wd" if "list_all (fresh_pool ?d0) ps" "heap_ok (wd_heap wd)" for ps
  proof -
    have "held_all ps = []" "list_all pool_local ps" using that(1) by (auto simp: held_all_def fresh_pool_def list_all_iff)
    with that(2) show ?thesis by (simp add: pools_inv_def)
  qed
  have made: "length (project_pools (pc_Name p) d) = length (pc_Sinks p) \<and> list_all (fresh_pool ?d0) (project_pools (pc_Name p) d)"
    if "p \<in> set (cf_Projects cfg)" "pc_Enabled p" for p
    using I4 [of p] that by simp
  show ?thesis
  proof (intro conjI ballI impI allI)
    fix p wp assume "p \<in> set (cf_Projects cfg)" "pc_Enabled p" "wp \<in> set (project_pools (pc_Name p) d)"
    then have "fresh_pool ?d0 wp" using made by (auto simp: list_all_iff)
    then show "0 < wp_workers wp" "0 < ch_cap (wp_ch wp)" "wp_maxFails wp = 10" "wp_backpressure wp = bp" "wp_useWal wp = walWriter"
      using d0(3,4) by (simp_all add: fresh_pool_def)
  next
    fix p assume p: "p \<in> set (cf_Projects cfg)" "pc_Enabled p"
    show "length (project_pools (pc_Name p) d) = length (pc_Sinks p)" using made [OF p] by (rule conjunct1)
    show "pools_inv (project_pools (pc_Name p) d) wd" if "heap_ok (wd_heap wd)"
      using made [OF p] that inv by blast
  qed (rule none)
qed

definition sample_gateway :: Config where
  "sample_gateway = (applyDefaults zero_config)\<lparr>cf_Projects := [\<lparr>pc_Name = ''p'', pc_Enabled = True,
     pc_Sinks = [\<lparr>sr_Type = [], sr_Instance = [], sr_Workers = 2, sr_ChannelSize = 4, sr_Config = []\<rparr>], pc_RateLimit = 0, pc_MaxBodyBytes = 0,
     pc_AuthRequired = False, pc_Pipelines = []\<rparr>]\<rparr>"

theorem Initialize_pools_witness:
  "\<exists>d. Initialize sample_gateway (NewDispatcher [(''redis'', redis_factory)] True BackpressureFallback) = Some d
     \<and> length (project_pools ''p'' d) = 1"
proof -
  let ?d0 = "NewDispatcher [(''redis'', redis_factory)] True BackpressureFallback"
  obtain d where d: "Initialize sample_gateway ?d0 = Some d"
    by (simp add: Initialize_def sample_gateway_def initProject_def init_pool_def resolveSinkConfig_def instance_of_def sink_Create_def
        NewDispatcher_def redis_factory_def Let_def)
  have "distinct (map pc_Name (filter pc_Enabled (cf_Projects sample_gateway)))" by (simp add: sample_gateway_def)
  from Initialize_pools [OF d this] d show ?thesis by (simp add: sample_gateway_def)
qed

end
