(* ===== verification/Server_Laws.thy ===== *)
theory Server_Laws
  imports Server Auth_Laws Dispatcher_Laws Wal_Replay_Laws
begin

text \<open>
  The laws of the gateway as a whole: what the upload route admits and what it hands to the dispatcher, and how
  requests, tasks and the background replay move messages between their owners.
\<close>

subsection \<open>One project for every handler\<close>

text \<open>The handlers decode the body twice, once for the project alone: both decodings see the same project.\<close>

lemma find_field_router: "fold_name key \<noteq> fold_name ''project'' \<Longrightarrow> find_field [(''project'', st)] key = None"
  by (auto simp: find_field_def)

lemma find_field_project: "fold_name key = fold_name ''project'' \<Longrightarrow> find_field [(''project'', st)] key = Some st"
  by (auto simp: find_field_def)

lemma find_upload_field:
  "find_field upload_fields key =
     (if fold_name key = fold_name ''project'' then Some (str_field (\<lambda>s. req_Project_update (\<lambda>_. s)))
      else if fold_name key = fold_name ''router'' then Some (str_field (\<lambda>s. req_Router_update (\<lambda>_. s)))
      else if fold_name key = fold_name ''data'' then Some (raw_field (\<lambda>d. req_Data_update (\<lambda>_. d)))
      else None)"
proof -
  have d: "fold_name ''router'' \<noteq> fold_name ''project''" "fold_name ''data'' \<noteq> fold_name ''project''" "fold_name ''data'' \<noteq> fold_name ''router''"
    by (simp_all add: upper_char_def between_def)
  then show ?thesis by (auto simp: find_field_def upload_fields_def simp del: fold_name.simps)
qed

lemma store_field_project:
  assumes "find_field upload_fields key = Some st" "st r raw v = Some r1"
  shows "if fold_name key = fold_name ''project'' then str_field (\<lambda>s _. s) (req_Project r) raw v = Some (req_Project r1)
    else req_Project r1 = req_Project r"
  using assms by (auto simp: find_upload_field str_field_def raw_field_def split: if_splits json.splits)

lemma store_members_project:
  "store_members upload_fields ms r = Some req \<Longrightarrow>
   store_members [(''project'', str_field (\<lambda>s _. s))] ms (req_Project r) = Some (req_Project req)"
proof (induction ms arbitrary: r)
  case (Cons m ms)
  obtain k raw v where m: "m = (k, raw, v)" by (metis prod_cases3)
  let ?k = "unquote k"
  have find: "find_field [(''project'', str_field (\<lambda>s _. s))] ?k =
      (if fold_name ?k = fold_name ''project'' then Some (str_field (\<lambda>s _. s)) else None)"
    using find_field_router find_field_project by (cases "fold_name ?k = fold_name ''project''") auto
  show ?case
  proof (cases "find_field upload_fields ?k")
    case None
    with Cons find show ?thesis by (auto simp: m find_upload_field split: if_splits)
  next
    case (Some st)
    with Cons.prems obtain r1 where r1: "st r raw v = Some r1" "store_members upload_fields ms r1 = Some req"
      by (auto simp: m bind_eq_Some_conv)
    from store_field_project [OF Some r1(1)] Cons.IH [OF r1(2)] find show ?thesis by (simp add: m split: if_splits)
  qed
qed simp

lemma upload_project: "unmarshal_upload body = Some req \<Longrightarrow> peek_project body = Some (req_Project req)"
  using store_members_project
  by (fastforce simp: unmarshal_upload_def peek_project_def unmarshal_struct_def bind_eq_Some_conv split: option.splits json.splits)

subsection \<open>What each handler of the route does\<close>

text \<open>The handlers before the last one leave the messages, the dispatcher and the tasks alone.\<close>

definition same_core :: "'l Gateway \<Rightarrow> 'l Gateway \<Rightarrow> bool" where
  "same_core g g' \<longleftrightarrow> gw_cfg g' = gw_cfg g \<and> gw_disp g' = gw_disp g \<and> gw_world g' = gw_world g \<and> gw_tasks g' = gw_tasks g
     \<and> gw_walWriter g' = gw_walWriter g"

lemma same_core_refl [simp]: "same_core g g"
  by (simp add: same_core_def)

lemma same_core_trans [trans]: "same_core g g' \<Longrightarrow> same_core g' g'' \<Longrightarrow> same_core g g''"
  by (simp add: same_core_def)

lemma on_rl_core: "on_rl st g c = (ok, g', c') \<Longrightarrow> same_core g g' \<and> gw_auth g' = gw_auth g"
  by (auto simp: on_rl_def same_core_def split: prod.splits)

lemma on_auth_core: "on_auth st g c = (ok, g', c') \<Longrightarrow> same_core g g'"
  by (auto simp: on_auth_def same_core_def split: prod.splits)

definition refused :: "int set \<Rightarrow> request_ctx \<Rightarrow> request_ctx \<Rightarrow> bool" where
  "refused codes c c' \<longleftrightarrow> (\<exists>code\<in>codes. \<exists>msg. c' = refuse code msg c)"

lemma GlobalMiddleware_out:
  "on_rl (GlobalMiddleware api now) g c = (ok, g', c') \<Longrightarrow> if ok then c' = c else refused {429} c c'"
  by (auto simp: on_rl_def GlobalMiddleware_def refused_def split: prod.splits bool.splits)

lemma ProjectMiddleware_out:
  "on_rl (ProjectMiddleware api cfg now) g c = (ok, g', c') \<Longrightarrow> if ok then c' = c else refused {429} c c'"
  by (auto simp: on_rl_def ProjectMiddleware_def refused_def split: prod.splits bool.splits option.splits ctx_val.splits)

lemma BodyCache_out:
  assumes "with_cfg BodyCacheMiddleware g c = (ok, g', c')" "cx_Body c = FullBody body"
  shows "g' = g" and "if ok then c' = ctx_set ''raw_body'' (VBytes body) c else refused {413} c c'"
  using assms by (auto simp: with_cfg_def BodyCacheMiddleware_def Let_def refused_def read_limited_def split: if_splits option.splits)

lemma ProjectResolution_out:
  assumes "with_cfg ProjectResolutionMiddleware g c = (ok, g', c')" "cx_Keys c ''raw_body'' = Some (VBytes body)"
  shows "g' = g" and "if ok then \<exists>n p. peek_project body = Some n \<and> n \<noteq> [] \<and> GetProject n (gw_cfg g) = Some p \<and> pc_Name p = n
      \<and> (pc_AuthRequired p \<longrightarrow> cx_Keys c ''app_key'' \<noteq> None) \<and> c' = ctx_set ''project_name'' (VStr n) c
    else refused {400, 401, 404} c c'"
proof -
  have name: "find_project n ps = Some p \<Longrightarrow> pc_Name p = n" for n ps p by (induction ps) (auto split: if_splits)
  show "g' = g" using assms
    by (auto simp: with_cfg_def ProjectResolutionMiddleware_def resolve_body_def split: option.splits list.splits if_splits)
  show "if ok then \<exists>n p. peek_project body = Some n \<and> n \<noteq> [] \<and> GetProject n (gw_cfg g) = Some p \<and> pc_Name p = n
      \<and> (pc_AuthRequired p \<longrightarrow> cx_Keys c ''app_key'' \<noteq> None) \<and> c' = ctx_set ''project_name'' (VStr n) c
    else refused {400, 401, 404} c c'"
    using assms name
    by (auto simp: with_cfg_def ProjectResolutionMiddleware_def resolve_body_def refused_def GetProject_def
        split: option.splits list.splits if_splits)
qed

lemma auth_out:
  assumes "authMiddleware env g c = (ok, g', c')" "cx_Keys c ''raw_body'' = Some (VBytes body)"
  shows "same_core g g'"
    and "if ok then c' = (if au_Enabled (cf_Auth (gw_cfg g)) then ctx_set ''app_key'' (VStr (cx_Header c ''X-App-Key'')) c else c)
        \<and> (au_Enabled (cf_Auth (gw_cfg g)) \<longrightarrow>
            check_request (cf_Auth (gw_cfg g)) (staticKeyStore gateway_keys) (ae_now (re_auth env)) body c = Inr ())
      else refused {401, 403} c c'"
proof -
  show "same_core g g'" using assms(1) by (auto simp: authMiddleware_def dest: on_auth_core)
  show "if ok then c' = (if au_Enabled (cf_Auth (gw_cfg g)) then ctx_set ''app_key'' (VStr (cx_Header c ''X-App-Key'')) c else c)
        \<and> (au_Enabled (cf_Auth (gw_cfg g)) \<longrightarrow>
            check_request (cf_Auth (gw_cfg g)) (staticKeyStore gateway_keys) (ae_now (re_auth env)) body c = Inr ())
      else refused {401, 403} c c'"
  proof (cases "au_Enabled (cf_Auth (gw_cfg g))")
    case True
    note H = Handler_body [OF True assms(2), of "staticKeyStore gateway_keys" "re_auth env" "gw_auth g"]
    show ?thesis
    proof (cases "check_request (cf_Auth (gw_cfg g)) (staticKeyStore gateway_keys) (ae_now (re_auth env)) body c")
      case (Inl e)
      obtain code msg where e: "e = (code, msg)" by fastforce
      from assms(1) H Inl check_request_code [OF Inl [unfolded e]] show ?thesis
        by (auto simp: authMiddleware_def on_auth_def refused_def e)
    next
      case (Inr x)
      with assms(1) H True show ?thesis by (auto simp: authMiddleware_def on_auth_def refused_def split: prod.splits bool.splits)
    qed
  next
    case False
    with assms(1) show ?thesis by (simp add: authMiddleware_def on_auth_def Handler_def)
  qed
qed

abbreviation gw_heap :: "'l Gateway \<Rightarrow> msg_heap" where
  "gw_heap g \<equiv> wd_heap (gw_world g)"

text \<open>The body is within the limit of the server and of its project.\<close>

definition within_limits :: "Config \<Rightarrow> bytes \<Rightarrow> bytes \<Rightarrow> bool" where
  "within_limits cfg project body \<longleftrightarrow> int (length body) \<le> sv_MaxBodyBytes (cf_Server cfg)
     \<and> (\<forall>p. GetProject project cfg = Some p \<and> pc_MaxBodyBytes p > 0 \<longrightarrow> int (length body) \<le> pc_MaxBodyBytes p)"

definition trace_id :: "request_ctx \<Rightarrow> bytes" where
  "trace_id c = (if cx_Header c ''X-Trace-Id'' = [] then ctx_string ''request_id'' c else cx_Header c ''X-Trace-Id'')"

definition sent_message :: "request_env \<Rightarrow> Config \<Rightarrow> request_ctx \<Rightarrow> UploadRequest \<Rightarrow> Message" where
  "sent_message env cfg c req =
     upload_message (ctx_string ''request_id'' c) (trace_id c) req (re_time env) (sv_Env (cf_Server cfg)) empty_message"

text \<open>A new task with a message of its own, and nothing else.\<close>

definition new_task :: "Message \<Rightarrow> 'l Gateway \<Rightarrow> 'l Gateway \<Rightarrow> bool" where
  "new_task m g g' \<longleftrightarrow> (\<exists>a. gw_tasks g' = gw_tasks g @ [a] \<and> a \<notin> live (gw_heap g) \<and> live (gw_heap g') = insert a (live (gw_heap g))
     \<and> hp_mem (gw_heap g') a = Some m)"

definition no_task :: "'l Gateway \<Rightarrow> 'l Gateway \<Rightarrow> bool" where
  "no_task g g' \<longleftrightarrow> gw_tasks g' = gw_tasks g \<and> live (gw_heap g') = live (gw_heap g)"

text \<open>What requests never touch: the dispatcher, the log, the disk and the messages others own.\<close>

definition request_frame :: "'l Gateway \<Rightarrow> 'l Gateway \<Rightarrow> bool" where
  "request_frame g g' \<longleftrightarrow> gw_cfg g' = gw_cfg g \<and> gw_disp g' = gw_disp g \<and> gw_walWriter g' = gw_walWriter g
     \<and> wd_wal (gw_world g') = wd_wal (gw_world g) \<and> wd_disk (gw_world g') = wd_disk (gw_world g)
     \<and> heap_ok (gw_heap g') \<and> (\<forall>b\<in>live (gw_heap g). hp_mem (gw_heap g') b = hp_mem (gw_heap g) b)"

lemma request_frame_core: "heap_ok (gw_heap g) \<Longrightarrow> same_core g g' \<Longrightarrow> request_frame g g' \<and> no_task g g'"
  by (simp add: request_frame_def same_core_def no_task_def)

lemma request_frame_pre: "same_core g g1 \<Longrightarrow> request_frame g1 g' \<Longrightarrow> request_frame g g'"
  and new_task_pre: "same_core g g1 \<Longrightarrow> new_task m g1 g' = new_task m g g'"
  and no_task_pre: "same_core g g1 \<Longrightarrow> no_task g1 g' = no_task g g'"
  by (simp_all add: request_frame_def same_core_def new_task_def no_task_def)

lemma upload_checked_out:
  assumes "upload_checked env req g c = (ok, g', c')" "heap_ok (gw_heap g)"
  shows "\<not> ok" "request_frame g g'" "gw_auth g' = gw_auth g"
    and "if re_submitted env
      then new_task (sent_message env (gw_cfg g) c req) g g' \<and> c' = answer 200 (RUpload \<lparr>resp_Code = 0, resp_Message = ''success'',
        resp_RequestID = ctx_string ''request_id'' c, resp_TraceID = trace_id c\<rparr>) c
      else no_task g g' \<and> c' = answer 503 (response 503 ''server busy, please retry'') c"
proof -
  obtain a h where A: "AcquireMessage (re_pick env) (gw_heap g) = (a, h)" by fastforce
  note ah = AcquireMessage_ok [OF assms(2) A]
  define m where "m = sent_message env (gw_cfg g) c req"
  define h1 where "h1 = put_message a m h"
  have al: "a \<in> live h" using ah(3) by simp
  note ph = put_message_ok [OF ah(1) al, where m = m, folded h1_def]
  have al1: "a \<in> live h1" using al ph(2) by simp
  note rh = ReleaseMessage_ok [OF ph(1) al1]
  have out: "upload_checked env req g c =
      (if \<not> re_submitted env then (False, g\<lparr>gw_world := (gw_world g)\<lparr>wd_heap := ReleaseMessage (Some a) h1\<rparr>\<rparr>,
           answer 503 (response 503 ''server busy, please retry'') c)
       else (False, g\<lparr>gw_world := (gw_world g)\<lparr>wd_heap := h1\<rparr>, gw_tasks := gw_tasks g @ [a]\<rparr>,
           answer 200 (RUpload \<lparr>resp_Code = 0, resp_Message = ''success'', resp_RequestID = ctx_string ''request_id'' c, resp_TraceID = trace_id c\<rparr>) c))"
    using ah(4) by (simp add: upload_checked_def A Let_def m_def h1_def sent_message_def trace_id_def release_def)
  show "\<not> ok" "gw_auth g' = gw_auth g" using assms(1) by (auto simp: out split: if_splits)
  have other: "hp_mem h1 b = hp_mem (gw_heap g) b" if "b \<in> live (gw_heap g)" for b
    using that ah(2,5) ph(4) by metis
  have "hp_mem (ReleaseMessage (Some a) h1) b = hp_mem (gw_heap g) b" if "b \<in> live (gw_heap g)" for b
    using that other ah(2) rh(3) by metis
  then show "request_frame g g'"
    using assms(1) ph(1) rh(1) other by (auto simp: out request_frame_def split: if_splits)
  show "if re_submitted env
      then new_task (sent_message env (gw_cfg g) c req) g g' \<and> c' = answer 200 (RUpload \<lparr>resp_Code = 0, resp_Message = ''success'',
        resp_RequestID = ctx_string ''request_id'' c, resp_TraceID = trace_id c\<rparr>) c
      else no_task g g' \<and> c' = answer 503 (response 503 ''server busy, please retry'') c"
    using assms(1) ph rh ah(2,3) by (auto simp: out new_task_def no_task_def m_def split: if_splits)
qed

lemma UploadHandler_out:
  assumes "UploadHandler env g c = (ok, g', c')" "heap_ok (gw_heap g)" "cx_Keys c ''raw_body'' = Some (VBytes body)"
  shows "request_frame g g'" "gw_auth g' = gw_auth g"
    and "(\<exists>req. unmarshal_upload body = Some req \<and> within_limits (gw_cfg g) (req_Project req) body
        \<and> new_task (sent_message env (gw_cfg g) c req) g g' \<and> c' = answer 200 (RUpload \<lparr>resp_Code = 0, resp_Message = ''success'',
           resp_RequestID = ctx_string ''request_id'' c, resp_TraceID = trace_id c\<rparr>) c)
      \<or> no_task g g' \<and> (\<exists>code\<in>{400, 413, 503}. \<exists>r. c' = answer code r c)"
proof -
  let ?G = "request_frame g g' \<and> gw_auth g' = gw_auth g \<and> ((\<exists>req. unmarshal_upload body = Some req \<and> within_limits (gw_cfg g) (req_Project req) body
        \<and> new_task (sent_message env (gw_cfg g) c req) g g' \<and> c' = answer 200 (RUpload \<lparr>resp_Code = 0, resp_Message = ''success'',
           resp_RequestID = ctx_string ''request_id'' c, resp_TraceID = trace_id c\<rparr>) c)
      \<or> no_task g g' \<and> (\<exists>code\<in>{400, 413, 503}. \<exists>r. c' = answer code r c))"
  note core = request_frame_core [OF assms(2) same_core_refl]
  have ?G
  proof (cases "int (length body) > sv_MaxBodyBytes (cf_Server (gw_cfg g))")
    case True
    with assms(1,3) core show ?thesis by (auto simp: UploadHandler_def)
  next
    case small: False
    show ?thesis
    proof (cases "unmarshal_upload body")
      case None
      with small assms(1,3) core show ?thesis by (auto simp: UploadHandler_def)
    next
      case (Some req)
      let ?over = "case GetProject (req_Project req) (gw_cfg g) of None \<Rightarrow> False
          | Some p \<Rightarrow> pc_MaxBodyBytes p > 0 \<and> int (length body) > pc_MaxBodyBytes p"
      show ?thesis
      proof (cases ?over)
        case True
        with small Some assms(1,3) core show ?thesis by (auto simp: UploadHandler_def)
      next
        case False
        then have "within_limits (gw_cfg g) (req_Project req) body" using small by (auto simp: within_limits_def)
        moreover have "upload_checked env req g c = (ok, g', c')" using small Some False assms(1,3) by (simp add: UploadHandler_def)
        note U = upload_checked_out [OF this assms(2)]
        ultimately show ?thesis using Some U(2-4) by (cases "re_submitted env") auto
      qed
    qed
  qed
  then show "request_frame g g'" "gw_auth g' = gw_auth g"
    and "(\<exists>req. unmarshal_upload body = Some req \<and> within_limits (gw_cfg g) (req_Project req) body
        \<and> new_task (sent_message env (gw_cfg g) c req) g g' \<and> c' = answer 200 (RUpload \<lparr>resp_Code = 0, resp_Message = ''success'',
           resp_RequestID = ctx_string ''request_id'' c, resp_TraceID = trace_id c\<rparr>) c)
      \<or> no_task g g' \<and> (\<exists>code\<in>{400, 413, 503}. \<exists>r. c' = answer code r c)" by blast+
qed

subsection \<open>The route\<close>

text \<open>The handlers after the request identifier, without the two that only record what the others answered.\<close>

definition upload_steps :: "'l limiter_api \<Rightarrow> request_env \<Rightarrow> 'l Gateway handler list" where
  "upload_steps api env =
     [handler (on_rl (GlobalMiddleware api (re_now env))), handler (with_cfg BodyCacheMiddleware), handler (authMiddleware env),
      handler (with_cfg ProjectResolutionMiddleware), handler (with_cfg (\<lambda>cfg. on_rl (ProjectMiddleware api cfg (re_now env)))),
      handler (UploadHandler env)]"

definition with_id :: "request_env \<Rightarrow> request_ctx \<Rightarrow> request_ctx" where
  "with_id env c = snd (snd (RequestIDMiddleware (re_uuid env) () c))"

lemma with_id_fields [simp]:
  "cx_Keys (with_id env c) = (cx_Keys c)(''request_id'' \<mapsto> VStr (if cx_Header c ''X-Request-Id'' = [] then re_uuid env else cx_Header c ''X-Request-Id''))"
  "cx_Header (with_id env c) = cx_Header c" "cx_Body (with_id env c) = cx_Body c" "cx_Replies (with_id env c) = cx_Replies c"
  by (simp_all add: with_id_def RequestIDMiddleware_def Let_def)

lemma upload_route_eq:
  "serve_chain (upload_route api env) (g, c) =
     (case serve_chain (upload_steps api env) (g, with_id env c) of
        (g', c') \<Rightarrow> (emit (request_calls (re_took env) c') (g'\<lparr>gw_logs := gw_logs g' @ [request_line (re_time env) (re_took env) c']\<rparr>), c'))"
proof -
  have r: "RequestIDMiddleware (re_uuid env) g c = (True, g, with_id env c)" by (simp add: RequestIDMiddleware_def with_id_def Let_def)
  show ?thesis
    by (simp add: upload_route_def common_handlers_def upload_steps_def handler_def [of "RequestIDMiddleware (re_uuid env)"] r
        MetricsMiddleware_def LoggingMiddleware_def split: prod.splits)
qed

lemma handler_out:
  assumes "handler st next (g, c) = (g', c')" "st g c = (ok, g1, c1)"
  shows "if ok then next (g1, c1) = (g', c') else g' = g1 \<and> c' = c1"
  using assms by (simp add: handler_def split: bool.splits)

text \<open>What a request has passed when it is answered with success.\<close>

definition admitted :: "request_env \<Rightarrow> Config \<Rightarrow> bytes \<Rightarrow> request_ctx \<Rightarrow> UploadRequest \<Rightarrow> bool" where
  "admitted env cfg body c req \<longleftrightarrow>
     unmarshal_upload body = Some req \<and> req_Project req \<noteq> [] \<and> within_limits cfg (req_Project req) body
     \<and> (\<exists>p. GetProject (req_Project req) cfg = Some p \<and> (pc_AuthRequired p \<longrightarrow> au_Enabled (cf_Auth cfg)))
     \<and> (au_Enabled (cf_Auth cfg) \<longrightarrow> authentic (cf_Auth cfg) (staticKeyStore gateway_keys) (ae_now (re_auth env)) body c)"

lemma authentic_header: "cx_Header c = cx_Header c' \<Longrightarrow> authentic cfg store now body c = authentic cfg store now body c'"
  by (simp add: authentic_def)

lemma sent_message_cong:
  "cx_Header c' = cx_Header c \<Longrightarrow> cx_Keys c' ''request_id'' = cx_Keys c ''request_id'' \<Longrightarrow> sent_message env cfg c' req = sent_message env cfg c req"
  by (simp add: sent_message_def trace_id_def ctx_string_def)

definition refusal_codes :: "int set" where
  "refusal_codes = {400, 401, 403, 404, 413, 429, 503}"

definition success_reply :: "request_ctx \<Rightarrow> reply" where
  "success_reply c = RUpload \<lparr>resp_Code = 0, resp_Message = ''success'', resp_RequestID = ctx_string ''request_id'' c, resp_TraceID = trace_id c\<rparr>"

lemma refused_status: "refused codes c c' \<Longrightarrow> codes \<subseteq> refusal_codes \<Longrightarrow> cx_Status c' \<in> refusal_codes"
  by (auto simp: refused_def)

text \<open>Where the first three of them end: in a refusal that changed nothing, or with the body at hand and the signature checked.\<close>

definition screened :: "request_env \<Rightarrow> bytes \<Rightarrow> 'l Gateway \<times> request_ctx \<Rightarrow> 'l Gateway \<times> request_ctx \<Rightarrow> bool" where
  "screened env body gc gc' \<longleftrightarrow> (case (gc, gc') of ((g, c), (g', c')) \<Rightarrow>
     same_core g g' \<and> cx_Keys c' ''raw_body'' = Some (VBytes body) \<and> cx_Header c' = cx_Header c
     \<and> cx_Keys c' ''request_id'' = cx_Keys c ''request_id'' \<and> cx_Replies c' = cx_Replies c
     \<and> (cx_Keys c' ''app_key'' \<noteq> None \<longrightarrow> au_Enabled (cf_Auth (gw_cfg g)))
     \<and> (au_Enabled (cf_Auth (gw_cfg g)) \<longrightarrow> authentic (cf_Auth (gw_cfg g)) (staticKeyStore gateway_keys) (ae_now (re_auth env)) body c))"

definition turned_away :: "'l Gateway \<Rightarrow> 'l Gateway \<times> request_ctx \<Rightarrow> bool" where
  "turned_away g gc' \<longleftrightarrow> same_core g (fst gc') \<and> cx_Status (snd gc') \<in> refusal_codes"

lemma turned_awayI: "same_core g g' \<Longrightarrow> refused codes c c' \<Longrightarrow> codes \<subseteq> refusal_codes \<Longrightarrow> turned_away g (g', c')"
  by (simp add: turned_away_def refused_status)

lemma screening:
  assumes run: "serve_chain (handler (on_rl (GlobalMiddleware api now)) # handler (with_cfg BodyCacheMiddleware) # handler (authMiddleware env) # rest) (g, c) = gc'"
    and body: "cx_Body c = FullBody body" and anon: "cx_Keys c ''app_key'' = None" and clock: "clock_ok (cf_Auth (gw_cfg g)) (re_auth env)"
  shows "turned_away g gc' \<or> (\<exists>gc1. screened env body (g, c) gc1 \<and> serve_chain rest gc1 = gc')"
proof -
  obtain g' c' where gc': "gc' = (g', c')" by fastforce
  obtain ok1 g1 c1 where S1: "on_rl (GlobalMiddleware api now) g c = (ok1, g1, c1)" by (metis prod_cases3)
  note r1 = handler_out [OF run [unfolded serve_chain.simps gc'] S1] and o1 = GlobalMiddleware_out [OF S1]
  have f1: "same_core g g1" using on_rl_core [OF S1] by simp
  show ?thesis
  proof (cases ok1)
    case False
    then have "turned_away g (g', c')"
      using r1 o1 f1 by (intro turned_awayI [where codes = "{429}" and c = c]) (simp_all add: refusal_codes_def)
    then show ?thesis by (simp add: gc')
  next
    case True
    then have c1: "c1 = c" using o1 by simp
    obtain ok2 g2 c2 where S2: "with_cfg BodyCacheMiddleware g1 c = (ok2, g2, c2)" by (metis prod_cases3)
    note b2 = BodyCache_out [OF S2 body] and r2 = handler_out [OF r1 [simplified True c1 if_True] S2]
    show ?thesis
    proof (cases ok2)
      case False
      then have "turned_away g (g', c')"
      using r2 b2 f1 by (intro turned_awayI [where codes = "{413}" and c = c]) (simp_all add: refusal_codes_def)
    then show ?thesis by (simp add: gc')
    next
      case True
      then have c2: "c2 = ctx_set ''raw_body'' (VBytes body) c" and g2: "g2 = g1" using b2 by simp_all
      obtain ok3 g3 c3 where S3: "authMiddleware env g1 c2 = (ok3, g3, c3)" by (metis prod_cases3)
      have k2: "cx_Keys c2 ''raw_body'' = Some (VBytes body)" by (simp add: c2)
      note b3 = auth_out [OF S3 k2] and r3 = handler_out [OF r2 [simplified True g2 if_True] S3]
      have f3: "same_core g g3" using f1 b3(1) by (rule same_core_trans)
      have cfg: "gw_cfg g1 = gw_cfg g" using f1 by (simp add: same_core_def)
      show ?thesis
      proof (cases ok3)
        case False
        then have "turned_away g (g', c')"
      using r3 b3 f3 by (intro turned_awayI [where codes = "{401, 403}" and c = c2]) (simp_all add: refusal_codes_def)
    then show ?thesis by (simp add: gc')
      next
        case True
        then have "screened env body (g, c) (g3, c3)"
          using b3(2) check_request_iff [OF clock, of "staticKeyStore gateway_keys" body c2] authentic_header [of c2 c] f3 anon
          by (simp add: screened_def cfg c2)
        with r3 True show ?thesis by (auto simp: gc')
      qed
    qed
  qed
qed

lemma resolving:
  assumes run: "serve_chain [handler (with_cfg ProjectResolutionMiddleware), handler (with_cfg (\<lambda>cfg. on_rl (ProjectMiddleware api cfg now))),
        handler (UploadHandler env)] gc3 = (g', c')"
    and scr: "screened env body (g, c) gc3" and ok: "heap_ok (gw_heap g)"
  shows "turned_away g (g', c') \<or> request_frame g g' \<and>
    ((\<exists>req. admitted env (gw_cfg g) body c req \<and> new_task (sent_message env (gw_cfg g) c req) g g' \<and> cx_Status c' = 200
        \<and> cx_Replies c' = cx_Replies c @ [success_reply c])
     \<or> no_task g g' \<and> cx_Status c' \<in> refusal_codes)"
proof -
  obtain g3 c3 where gc3: "gc3 = (g3, c3)" by fastforce
  let ?on = "au_Enabled (cf_Auth (gw_cfg g))"
  from scr have f3: "same_core g g3" and k3: "cx_Keys c3 ''raw_body'' = Some (VBytes body)" and hd3: "cx_Header c3 = cx_Header c"
    and rid3: "cx_Keys c3 ''request_id'' = cx_Keys c ''request_id''" and rep3: "cx_Replies c3 = cx_Replies c"
    and key3: "cx_Keys c3 ''app_key'' \<noteq> None \<longrightarrow> ?on"
    and chk: "?on \<longrightarrow> authentic (cf_Auth (gw_cfg g)) (staticKeyStore gateway_keys) (ae_now (re_auth env)) body c"
    by (simp_all add: screened_def gc3)
  have cfg: "gw_cfg g3 = gw_cfg g" using f3 by (simp add: same_core_def)
  obtain ok4 g4 c4 where S4: "with_cfg ProjectResolutionMiddleware g3 c3 = (ok4, g4, c4)" by (metis prod_cases3)
  note b4 = ProjectResolution_out [OF S4 k3] and r4 = handler_out [OF run [unfolded serve_chain.simps gc3] S4]
  show ?thesis
  proof (cases ok4)
    case False
    then have "turned_away g (g', c')"
      using r4 b4 f3 by (intro turned_awayI [where codes = "{400, 401, 404}" and c = c3]) (simp_all add: refusal_codes_def)
    then show ?thesis by blast
  next
    case True
    then obtain n p where p: "peek_project body = Some n" "n \<noteq> []" "GetProject n (gw_cfg g) = Some p" "pc_AuthRequired p \<longrightarrow> ?on"
        "c4 = ctx_set ''project_name'' (VStr n) c3" and g4: "g4 = g3" using b4 key3 by (auto simp: cfg)
    obtain ok5 g5 c5 where S5: "on_rl (ProjectMiddleware api (gw_cfg g3) now) g3 c4 = (ok5, g5, c5)" by (metis prod_cases3)
    have S5': "with_cfg (\<lambda>cfg. on_rl (ProjectMiddleware api cfg now)) g3 c4 = (ok5, g5, c5)" using S5 by (simp add: with_cfg_def)
    note r5 = handler_out [OF r4 [simplified True g4 if_True] S5'] and o5 = ProjectMiddleware_out [OF S5]
    have f5: "same_core g g5" using f3 on_rl_core [OF S5] by (blast intro: same_core_trans)
    show ?thesis
    proof (cases ok5)
      case False
      then have "turned_away g (g', c')"
      using r5 o5 f5 by (intro turned_awayI [where codes = "{429}" and c = c4]) (simp_all add: refusal_codes_def)
    then show ?thesis by blast
    next
      case True
      have h5: "heap_ok (gw_heap g5)" "gw_cfg g5 = gw_cfg g" using ok f5 by (simp_all add: same_core_def)
      have k4: "cx_Keys c4 ''raw_body'' = Some (VBytes body)" by (simp add: p(5) k3)
      obtain ok6 g6 c6 where S6: "UploadHandler env g5 c4 = (ok6, g6, c6)" by (metis prod_cases3)
      note b6 = UploadHandler_out [OF S6 h5(1) k4]
      have r6: "g' = g6 \<and> c' = c6" using handler_out [OF r5 [simplified True if_True] S6 [folded o5 [simplified True if_True]]] o5 True
        by (simp split: if_splits)
      have same: "sent_message env (gw_cfg g) c4 req = sent_message env (gw_cfg g) c req" for req
        by (rule sent_message_cong) (simp_all add: p(5) hd3 rid3)
      have "success_reply c4 = success_reply c" by (simp add: success_reply_def trace_id_def ctx_string_def p(5) hd3 rid3)
      moreover have "admitted env (gw_cfg g) body c req" if "unmarshal_upload body = Some req" "within_limits (gw_cfg g) (req_Project req) body" for req
        using that upload_project [OF that(1)] p(1-4) chk by (auto simp: admitted_def)
      ultimately show ?thesis
        using b6 r6 request_frame_pre [OF f5, of g6] new_task_pre [OF f5] no_task_pre [OF f5] same rep3
        by (auto simp: h5(2) success_reply_def refusal_codes_def p(5))
    qed
  qed
qed

end
