(* ===== verification/Gateway_Laws.thy ===== *)
theory Gateway_Laws
  imports Server_Laws
begin

text \<open>
  The gateway as a state machine: requests, tasks of the goroutine pool, workers, the background replay and
  reloads interleave, and every message in use has one owner.
\<close>

subsection \<open>A request\<close>

lemma upload_route_facts:
  assumes "serves_in_order serve" "heap_ok (gw_heap g)" "clock_ok (cf_Auth (gw_cfg g)) (re_auth env)"
    and "serve (upload_route api env) (g, new_ctx meth path hdr (FullBody body)) = (g', c')"
  shows "request_frame g g' \<and>
    (let c = with_id env (new_ctx meth path hdr (FullBody body))
     in if cx_Status c' = 200
        then \<exists>req. admitted env (gw_cfg g) body c req \<and> new_task (sent_message env (gw_cfg g) c req) g g' \<and> cx_Replies c' = [success_reply c]
        else no_task g g' \<and> cx_Status c' \<in> refusal_codes)"
proof -
  define c where "c = with_id env (new_ctx meth path hdr (FullBody body))"
  obtain g1 where run: "serve_chain (upload_steps api env) (g, c) = (g1, c')"
    and g': "g' = emit (request_calls (re_took env) c') (g1\<lparr>gw_logs := gw_logs g1 @ [request_line (re_time env) (re_took env) c']\<rparr>)"
    using assms(4) unfolding serves_unique [OF assms(1)] upload_route_eq c_def by (auto split: prod.splits)
  have c: "cx_Body c = FullBody body" "cx_Keys c ''app_key'' = None" "cx_Replies c = []" by (simp_all add: c_def)
  have post: "request_frame g g' = request_frame g g1" "new_task m g g' = new_task m g g1" "no_task g g' = no_task g g1" for m
    by (simp_all add: g' emit_def request_frame_def new_task_def no_task_def)
  have "turned_away g (g1, c') \<or> request_frame g g1 \<and>
      ((\<exists>req. admitted env (gw_cfg g) body c req \<and> new_task (sent_message env (gw_cfg g) c req) g g1 \<and> cx_Status c' = 200
          \<and> cx_Replies c' = cx_Replies c @ [success_reply c])
       \<or> no_task g g1 \<and> cx_Status c' \<in> refusal_codes)"
    using screening [OF run [unfolded upload_steps_def] c(1,2) assms(3)] resolving [OF _ _ assms(2)] by blast
  moreover have "request_frame g g1 \<and> no_task g g1" if "turned_away g (g1, c')"
    using that request_frame_core [OF assms(2)] by (simp add: turned_away_def)
  moreover have "(200 :: int) \<notin> refusal_codes" by (simp add: refusal_codes_def)
  ultimately show ?thesis unfolding Let_def c_def [symmetric] post using c(3) by (auto simp: turned_away_def)
qed

text \<open>
  C3: what a success means. Whatever the route meets -- clocks, limiters, the pool of messages -- a request with a body is answered
  200 only if the body is a valid upload for a known project within the limits, signed as the configuration demands (a project that
  requires authentication is never served while authentication is off); then exactly one task was handed to the pool, with a
  message nobody else owns that carries the project, route and payload of the body and the identifiers of the
  answer. Every other answer is one of seven error codes (never an internal error), and leaves no task and no message
  behind. No request touches the dispatcher, the log, the disk or a message that somebody owns.
\<close>

theorem upload_route_safe:
  assumes "serves_in_order serve" "heap_ok (gw_heap g)" "clock_ok (cf_Auth (gw_cfg g)) (re_auth env)"
    and "serve (upload_route api env) (g, new_ctx meth path hdr (FullBody body)) = (g', c')"
  shows "request_frame g g' \<and>
    (let c = with_id env (new_ctx meth path hdr (FullBody body))
     in if cx_Status c' = 200
        then \<exists>req. admitted env (gw_cfg g) body c req \<and> new_task (sent_message env (gw_cfg g) c req) g g' \<and> cx_Replies c' = [success_reply c]
        else no_task g g' \<and> cx_Status c' \<in> refusal_codes)"
  by (rule upload_route_facts [OF assms])

definition one_limiter :: "unit limiter_api" where
  "one_limiter = \<lparr>lm_NewLimiter = (\<lambda>_ _. ()), lm_SetLimit = (\<lambda>_ l. l), lm_SetBurst = (\<lambda>_ l. l), lm_Allow = (\<lambda>_ l. (True, l)),
     lm_Limit = (\<lambda>_. (False, 0)), lm_Burst = (\<lambda>_. 0)\<rparr>"

definition sample_gw :: "unit Gateway" where
  "sample_gw = \<lparr>gw_cfg = sample_gateway, gw_disp = sample_dispatcher [sample_pool],
     gw_world = \<lparr>wd_heap = empty_heap, wd_wal = blank_writer DefaultConfig, wd_disk = sample_disk\<rparr>, gw_walWriter = False,
     gw_auth = NewMiddleware, gw_rl = \<lparr>rl_lims = [()], rl_projectRL = Map.empty, rl_globalRL = 0\<rparr>, gw_metrics = [], gw_tasks = [],
     gw_logs = [], gw_released = False, gw_stopCh = False, gw_closed = False\<rparr>"

definition sample_request :: request_env where
  "sample_request = \<lparr>re_uuid = ''id'', re_auth = sample_auth_env, re_now = 0, re_time = zero_time, re_took = 0, re_pick = None,
     re_submitted = True, re_jsonError = []\<rparr>"

lemma sample_upload_body:
  "peek_project sample_body = Some ''p''" "unmarshal_upload sample_body = Some \<lparr>req_Project = ''p'', req_Router = [], req_Data = None\<rparr>"
  "length sample_body = 15"
  by code_simp+

lemma sample_upload_config:
  "GetProject ''p'' (gw_cfg sample_gw) = Some (hd (cf_Projects sample_gateway))" "pc_Name (hd (cf_Projects sample_gateway)) = ''p''"
  "\<not> pc_AuthRequired (hd (cf_Projects sample_gateway))" "pc_MaxBodyBytes (hd (cf_Projects sample_gateway)) = 0"
  "sv_MaxBodyBytes (cf_Server (gw_cfg sample_gw)) = 1048576" "\<not> au_Enabled (cf_Auth (gw_cfg sample_gw))"
  by (simp_all add: sample_gw_def sample_gateway_def GetProject_def applyDefaults_def server_defaults_def auth_defaults_def zero_config_def dflt_def)

lemma sample_upload_limiter: "lm_Allow one_limiter t l = (True, l)"
  by (simp add: one_limiter_def)

lemma sample_upload_submitted: "re_submitted sample_request"
  by (simp add: sample_request_def)

lemma sample_upload:
  assumes "gw_cfg g = gw_cfg sample_gw" "peek_project body = Some ''p''" "unmarshal_upload body = Some r" "req_Project r = ''p''" "length body < 100"
    and "serve_chain (upload_route one_limiter sample_request) (g, new_ctx meth path hdr (FullBody body)) = (g', c')"
  shows "cx_Status c' = 200"
proof -
  have "read_limited (wrap64 1048577) body = Some body" "int (length body) \<le> 1048576" using assms(5) by (simp_all add: read_limited_def in_int64_def)
  with assms(1-5) have "cx_Status (snd (serve_chain (upload_steps one_limiter sample_request) (g, with_id sample_request (new_ctx meth path hdr (FullBody body))))) = 200"
    by (simp add: upload_steps_def handler_def on_rl_def GlobalMiddleware_def allow_def sample_upload_limiter with_cfg_def BodyCacheMiddleware_def
        sample_upload_config authMiddleware_def on_auth_def Handler_def ProjectResolutionMiddleware_def resolve_body_def
        ProjectMiddleware_def UploadHandler_def upload_checked_def Let_def sample_upload_submitted split: prod.split bool.split)
  with assms(6) show ?thesis by (auto simp: upload_route_eq split: prod.splits)
qed

lemma sample_clock: "clock_ok (cf_Auth (gw_cfg sample_gw)) (re_auth sample_request)"
  by (simp add: clock_ok_def sample_gw_def sample_gateway_def applyDefaults_def auth_defaults_def zero_config_def dflt_def sample_request_def sample_auth_env_def)

theorem upload_route_safe_witness:
  "\<exists>g' c'. serve_chain (upload_route one_limiter sample_request) (sample_gw, new_ctx ''POST'' ''/'' (\<lambda>_. []) (FullBody sample_body)) = (g', c')
     \<and> cx_Status c' = 200 \<and> length (gw_tasks g') = 1"
proof -
  let ?c = "new_ctx ''POST'' ''/'' (\<lambda>_. []) (FullBody sample_body)"
  obtain g' c' where R: "serve_chain (upload_route one_limiter sample_request) (sample_gw, ?c) = (g', c')" by fastforce
  have "cx_Status c' = 200" using sample_upload [OF refl sample_upload_body(1,2) _ _ R] sample_upload_body(3) by simp
  moreover have "heap_ok (gw_heap sample_gw)" by (simp add: sample_gw_def heap_ok_empty)
  moreover note sample_clock
  moreover have "gw_tasks sample_gw = []" by (simp add: sample_gw_def)
  ultimately have "length (gw_tasks g') = 1"
    using upload_route_safe [OF serves_in_order_chain _ _ R] by (auto simp: new_task_def Let_def)
  with R \<open>cx_Status c' = 200\<close> show ?thesis by blast
qed

subsection \<open>Owners\<close>

definition all_pools :: "Dispatcher \<Rightarrow> WorkerPool list" where
  "all_pools d = (case dp_pools d of None \<Rightarrow> [] | Some pools \<Rightarrow> concat (map snd pools))"

lemma held_all_append [simp]: "held_all (ps @ qs) = held_all ps @ held_all qs"
  by (simp add: held_all_def)

lemma all_pools_split:
  assumes "dp_pools d \<noteq> None"
  obtains A B where "all_pools d = A @ project_pools n d @ B" "\<And>qs. all_pools (set_pools n qs d) = A @ qs @ B"
proof -
  obtain pools where d: "dp_pools d = Some pools" using assms by blast
  have "\<exists>A B. concat (map snd pools) = A @ (case map_of pools n of None \<Rightarrow> [] | Some ps \<Rightarrow> ps) @ B
      \<and> (\<forall>qs. concat (map snd (AList.update n qs pools)) = A @ qs @ B)"
  proof (induction pools)
    case (Cons x pools)
    obtain k ps where x: "x = (k, ps)" by fastforce
    from Cons.IH obtain A B where AB: "concat (map snd pools) = A @ (case map_of pools n of None \<Rightarrow> [] | Some ps \<Rightarrow> ps) @ B"
      "\<And>qs. concat (map snd (AList.update n qs pools)) = A @ qs @ B" by blast
    show ?case
    proof (cases "k = n")
      case True
      then show ?thesis by (intro exI [of _ "[]"] exI [of _ "concat (map snd pools)"]) (simp add: x)
    next
      case False
      with AB show ?thesis by (intro exI [of _ "ps @ A"] exI [of _ B]) (simp add: x)
    qed
  qed simp
  then show thesis using that d by (auto simp: all_pools_def project_pools_def set_pools_def)
qed

lemma pools_inv_append: "pools_inv (A @ ps @ B) wd \<Longrightarrow> pools_inv ps wd"
  by (simp add: pools_inv_def)

text \<open>A dispatch to the pools of one project, seen from all pools.\<close>

lemma dispatched_all:
  assumes I: "pools_inv (A @ ps @ B) wd" and D: "dispatched m a ps wd ps' wd'" and a: "a \<in> live (wd_heap wd)" "a \<notin> set (held_all (A @ ps @ B))"
  shows "pools_inv (A @ ps' @ B) wd'"
    and "live (wd_heap wd') = (live (wd_heap wd) - {a}) \<union> set (held_all (A @ ps' @ B))"
    and "set (held_all (A @ ps' @ B)) \<inter> live (wd_heap wd) = set (held_all (A @ ps @ B))"
proof -
  have i: "pools_inv ps' wd'" and l: "live (wd_heap wd') = (live (wd_heap wd) - {a}) \<union> set (held_all ps')"
    and s: "set (held_all ps') \<inter> live (wd_heap wd) = set (held_all ps)"
    using D unfolding dispatched_def by blast+
  have h: "set (held_all A) \<subseteq> live (wd_heap wd)" "set (held_all B) \<subseteq> live (wd_heap wd)" "set (held_all ps) \<subseteq> live (wd_heap wd)"
    "distinct (held_all A)" "distinct (held_all B)" "set (held_all A) \<inter> set (held_all B) = {}" "set (held_all A) \<inter> set (held_all ps) = {}"
    "set (held_all B) \<inter> set (held_all ps) = {}" "list_all pool_local A" "list_all pool_local B"
    using I by (auto simp: pools_inv_def)
  have "set (held_all A) \<inter> set (held_all ps') = {}" "set (held_all B) \<inter> set (held_all ps') = {}" using h s by blast+
  moreover have "set (held_all A) \<subseteq> live (wd_heap wd')" "set (held_all B) \<subseteq> live (wd_heap wd')" using h a(2) l by auto
  ultimately show "pools_inv (A @ ps' @ B) wd'" using i h by (auto simp: pools_inv_def)
  show "live (wd_heap wd') = (live (wd_heap wd) - {a}) \<union> set (held_all (A @ ps' @ B))" using l h a(2) by auto
  show "set (held_all (A @ ps' @ B)) \<inter> live (wd_heap wd) = set (held_all (A @ ps @ B))" using s h by auto
qed

text \<open>The owners of messages: the tasks \<open>ts\<close> not yet run, and the pools.\<close>

definition owners_ok :: "addr list \<Rightarrow> Dispatcher \<times> world \<Rightarrow> bool" where
  "owners_ok ts s \<longleftrightarrow> (case s of (d, wd) \<Rightarrow>
     dp_pools d \<noteq> None \<and> pools_inv (all_pools d) wd \<and> distinct ts \<and> set ts \<subseteq> live (wd_heap wd)
     \<and> set ts \<inter> set (held_all (all_pools d)) = {})"

definition no_leak :: "addr list \<Rightarrow> Dispatcher \<times> world \<Rightarrow> bool" where
  "no_leak ts s \<longleftrightarrow> (case s of (d, wd) \<Rightarrow> live (wd_heap wd) = set ts \<union> set (held_all (all_pools d)))"

lemma set_pools_some [simp]: "dp_pools (set_pools n qs d) = None \<longleftrightarrow> dp_pools d = None"
  by (simp add: set_pools_def)

lemma owners_dispatch:
  assumes ok: "owners_ok (ts @ a # ts') (d, wd)" and m: "hp_mem (wd_heap wd) a = Some m" and pip: "piped cfg skip m d = Processed m'"
    and run: "dispatchImpl cfg (plain_env pick) (Some a) strict skip d wd = (r, d', wd')"
  shows "owners_ok (ts @ ts') (d', wd')" and "no_leak (ts @ a # ts') (d, wd) \<Longrightarrow> no_leak (ts @ ts') (d', wd')"
    and "r \<noteq> Inl Panicked"
proof -
  let ?n = "msg_Project m"
  from ok have d: "dp_pools d \<noteq> None" and I: "pools_inv (all_pools d) wd" and a: "a \<in> live (wd_heap wd)" "a \<notin> set (held_all (all_pools d))"
    and t: "distinct (ts @ a # ts')" "set (ts @ ts') \<subseteq> live (wd_heap wd)" "set (ts @ ts') \<inter> set (held_all (all_pools d)) = {}"
    by (auto simp: owners_ok_def)
  obtain A B where AB: "all_pools d = A @ project_pools ?n d @ B" "\<And>qs. all_pools (set_pools ?n qs d) = A @ qs @ B"
    using all_pools_split [OF d] by blast
  have I': "pools_inv (A @ project_pools ?n d @ B) wd" and a': "a \<notin> set (held_all (A @ project_pools ?n d @ B))"
    using I a(2) unfolding AB(1) by blast+
  have "a \<notin> set (held_all (project_pools ?n d))" using a' by simp
  note D = dispatchImpl_dispatched [OF run pools_inv_append [OF I'] a(1) this m pip]
  have d': "all_pools d' = A @ project_pools ?n d' @ B" "dp_pools d' \<noteq> None"
  proof -
    from D(4) show "all_pools d' = A @ project_pools ?n d' @ B" using AB by metis
    from D(4) show "dp_pools d' \<noteq> None" using d set_pools_some by metis
  qed
  note all = dispatched_all [OF I' D(1) a(1) a', folded d'(1) AB(1)]
  have "set (ts @ ts') \<subseteq> live (wd_heap wd')" "set (ts @ ts') \<inter> set (held_all (all_pools d')) = {}" using all(2,3) t by auto
  with all(1) d'(2) t(1) show "owners_ok (ts @ ts') (d', wd')" by (simp add: owners_ok_def)
  show "r \<noteq> Inl Panicked" by (rule D(2))
  show "no_leak (ts @ ts') (d', wd')" if "no_leak (ts @ a # ts') (d, wd)"
    using that all(2,3) a t(1) by (auto simp: no_leak_def)
qed

text \<open>What the goroutines of a pool do between submissions.\<close>

inductive worker_act :: "pool_state \<Rightarrow> pool_state \<Rightarrow> bool" where
  take: "worker_take wp = Some wp' \<Longrightarrow> worker_act (wp, wd) (wp', wd)"
| finish: "a \<in> set (wp_busy wp) \<Longrightarrow> worker_finish env a wp wd = (r, wp', wd') \<Longrightarrow> worker_act (wp, wd) (wp', wd')"
| late_finish: "a \<in> set (wp_busy wp) \<Longrightarrow> attempt_loop env max_attempts 0 a wp wd = (r, wp', wd') \<Longrightarrow>
    worker_act (wp, wd) (wp'\<lparr>wp_busy := remove1 a (wp_busy wp')\<rparr>, wd')"
| probe: "worker_act (wp, wd) (recovery_round healthy wp, wd)"
| tick: "worker_act (wp, wd) (recovery_tick health wp, wd)"
| probe_exit: "worker_act (wp, wd) (recovery_exit wp, wd)"
| shutdown: "\<not> wp_shutdown wp \<Longrightarrow> worker_act (wp, wd) (shutdown_begin wp, wd)"
| report: "worker_act (wp, wd) (wp_reportMetrics wp, wd)"

lemma worker_act_step: "worker_act s s' \<Longrightarrow> pool_step s s'"
  by (induction rule: worker_act.induct) (auto intro: pool_step.intros)

lemma same_queue_held: "same_queue wp wp' \<Longrightarrow> held wp' = held wp"
  by (simp add: same_queue_def held_def)

lemma worked_held:
  assumes "same_queue wp wp'" "a \<in> set (wp_busy wp)" "distinct (held wp)"
  shows "a \<in> set (held wp)" "set (held (wp'\<lparr>wp_busy := remove1 a (wp_busy wp')\<rparr>)) = set (held wp) - {a}"
  using assms by (auto simp: held_def same_queue_def)

lemma worker_act_held:
  assumes "worker_act (wp, wd) (wp', wd')" "distinct (held wp)"
  shows "(set (held wp') = set (held wp) \<and> wd_heap wd' = wd_heap wd)
    \<or> (\<exists>a\<in>set (held wp). set (held wp') = set (held wp) - {a} \<and> wd_heap wd' = ReleaseMessage (Some a) (wd_heap wd))"
  using assms
proof (induction "(wp, wd)" "(wp', wd')" rule: worker_act.induct)
  case take
  then show ?case by (auto simp: worker_take_def held_def try_recv_def split: if_splits list.splits)
next
  case (finish a env r)
  obtain wp1 where s: "safeProcess env a wp wd = (r, wp1, wd')" and wp': "wp' = wp1\<lparr>wp_busy := remove1 a (wp_busy wp1)\<rparr>"
    using finish.hyps(2) by (auto simp: worker_finish_def split: prod.splits)
  show ?case unfolding wp' using worked_held [OF safeProcess_frame(1) [OF s] finish.hyps(1) finish.prems] safeProcess_frame(2) [OF s] by blast
next
  case (late_finish a env r wp'')
  note f = attempt_loop_frame [OF late_finish.hyps(2)]
  show ?case using worked_held [OF f(1) late_finish.hyps(1) late_finish.prems] f(2) late_finish.hyps(3) by blast
next
  case probe
  then show ?case using same_queue_held [OF recovery_round_frame(2)] by auto
next
  case tick
  then show ?case using same_queue_held [OF recovery_round_frame(1)] by auto
next
  case probe_exit
  then show ?case using same_queue_held [OF recovery_round_frame(3)] by auto
next
  case report
  then show ?case using same_queue_held [OF wp_reportMetrics_frame] by auto
next
  case shutdown
  then show ?case by (auto simp: shutdown_begin_def held_def close_chan_def)
qed

lemma owners_worker:
  assumes ok: "owners_ok ts (d, wd)" and k: "k < length (project_pools n d)"
    and act: "worker_act (project_pools n d ! k, wd) (p', wd')"
  defines "d' \<equiv> set_pools n ((project_pools n d)[k := p']) d"
  shows "owners_ok ts (d', wd')" and "no_leak ts (d, wd) \<Longrightarrow> no_leak ts (d', wd')"
proof -
  let ?p = "project_pools n d ! k"
  from ok have d: "dp_pools d \<noteq> None" and I: "pools_inv (all_pools d) wd" and t: "distinct ts" "set ts \<subseteq> live (wd_heap wd)"
      "set ts \<inter> set (held_all (all_pools d)) = {}" by (auto simp: owners_ok_def)
  obtain A0 B0 where AB0: "all_pools d = A0 @ project_pools n d @ B0" "\<And>qs. all_pools (set_pools n qs d) = A0 @ qs @ B0"
    using all_pools_split [OF d] by blast
  define A B where "A = A0 @ take k (project_pools n d)" and "B = drop (Suc k) (project_pools n d) @ B0"
  have AB: "all_pools d = A @ ?p # B" "all_pools d' = A @ p' # B"
    using AB0 k by (simp_all add: A_def B_def d'_def upd_conv_take_nth_drop id_take_nth_drop [symmetric] flip: append_assoc)
      (simp_all add: id_take_nth_drop [symmetric])
  have i: "pool_inv (?p, wd)" "distinct (held ?p)" using I by (auto simp: AB(1) pools_inv_def pool_inv_local)
  have i': "pool_inv (p', wd')" using pool_inv_step [OF worker_act_step [OF act] i(1)] .
  have h: "heap_ok (wd_heap wd)" "set (held_all A) \<subseteq> live (wd_heap wd)" "set (held_all B) \<subseteq> live (wd_heap wd)" "set (held ?p) \<subseteq> live (wd_heap wd)"
    "set (held_all A) \<inter> set (held ?p) = {}" "set (held_all B) \<inter> set (held ?p) = {}"
    using I by (auto simp: AB(1) pools_inv_def)
  have "(set (held p') = set (held ?p) \<and> live (wd_heap wd') = live (wd_heap wd))
      \<or> (\<exists>a\<in>set (held ?p). set (held p') = set (held ?p) - {a} \<and> live (wd_heap wd') = live (wd_heap wd) - {a})"
    using worker_act_held [OF act i(2)] ReleaseMessage_ok(2) [OF h(1)] h(4) by fastforce
  then have L: "set (held p') \<subseteq> set (held ?p)" "live (wd_heap wd') = live (wd_heap wd) - (set (held ?p) - set (held p'))" using h(4) by auto
  then have "pools_inv (A @ p' # B) wd'" using I i' h by (auto simp: AB(1) pools_inv_def pool_inv_local)
  moreover have "dp_pools d' \<noteq> None" using d by (simp add: d'_def)
  ultimately show "owners_ok ts (d', wd')" using t L by (auto simp: owners_ok_def AB)
  show "no_leak ts (d', wd')" if "no_leak ts (d, wd)"
    using that L h t(3) by (auto simp: no_leak_def AB)
qed

subsection \<open>The background replay\<close>

text \<open>What the callback of a replay keeps, a whole round keeps.\<close>

locale kept_by_callback =
  fixes P :: "'s \<Rightarrow> bool" and fn :: "'s callback"
  assumes keep: "P s \<Longrightarrow> P (snd (fn e s))"
begin

lemma lines_keep: "P s \<Longrightarrow> P (snd (snd (replay_lines fn ls cnt s)))"
proof (induction ls arbitrary: cnt s)
  case (Cons l ls)
  have "P s'" if "invokeReplayCallback fn e s = (b, s')" for e b s'
    using keep [OF Cons.prems, of e] that by (auto simp: invokeReplayCallback_def split: prod.splits cb_result.splits)
  with Cons show ?case by (auto split: option.splits prod.splits bool.splits)
qed simp

lemma segments_keep: "P s \<Longrightarrow> P (fst (replay_segments cfg fn ns s d))"
proof (induction ns arbitrary: s d)
  case (Cons n ns)
  have lines: "P s2" if "replay_lines fn ls 0 s = (c, b, s2)" for ls c b s2
    using lines_keep [OF Cons.prems, of ls 0] that by simp
  obtain c e s1 d1 where R: "replaySegment cfg n fn s d = ((c, e), s1, d1)" by (cases "replaySegment cfg n fn s d") auto
  have "P s1" using R lines Cons.prems by (auto simp: replaySegment_def split: prod.splits sum.splits bool.splits)
  with Cons.IH show ?case by (simp add: R split: option.split)
qed simp

lemma tick_keep: "P s \<Longrightarrow> P (fst (replay_tick w fn s d))"
  using segments_keep by (auto simp: replay_tick_def replaySealedSegments_def Let_def split: prod.splits sum.splits)

end

lemma messageFromWALEntry_ok:
  assumes "heap_ok h" "messageFromWALEntry pick e h = (a, h')"
  shows "heap_ok h'" "a \<notin> live h" "live h' = insert a (live h)" "\<And>b. b \<in> live h \<Longrightarrow> hp_mem h' b = hp_mem h b"
    and "hp_mem h' a = Some (empty_message\<lparr>msg_RequestID := ent_RequestID e, msg_TraceID := ent_TraceID e, msg_Project := ent_Project e,
       msg_Router := ent_Router e, msg_Data := ent_Data e, msg_Timestamp := ent_Timestamp e, msg_Env := ent_Env e\<rparr>)"
proof -
  obtain h1 where A: "AcquireMessage pick h = (a, h1)" using assms(2) by (auto simp: messageFromWALEntry_def split: prod.splits)
  note ah = AcquireMessage_ok [OF assms(1) A]
  have al: "a \<in> live h1" using ah(3) by simp
  let ?m = "empty_message\<lparr>msg_RequestID := ent_RequestID e, msg_TraceID := ent_TraceID e, msg_Project := ent_Project e,
       msg_Router := ent_Router e, msg_Data := ent_Data e, msg_Timestamp := ent_Timestamp e, msg_Env := ent_Env e\<rparr>"
  have h': "h' = put_message a ?m h1" using assms(2) ah(4) by (simp add: messageFromWALEntry_def A)
  note ph = put_message_ok [OF ah(1) al, where m = ?m, folded h']
  show "heap_ok h'" "a \<notin> live h" "live h' = insert a (live h)" "hp_mem h' a = Some ?m" using ph ah by simp_all
  show "hp_mem h' b = hp_mem h b" if "b \<in> live h" for b using that ph(4) ah(2) ah(5) [OF that] by metis
qed

lemma owners_new:
  assumes "owners_ok ts (d, wd)" "heap_ok h'" "a \<notin> live (wd_heap wd)" "live h' = insert a (live (wd_heap wd))"
  shows "owners_ok (ts @ [a]) (d, wd\<lparr>wd_heap := h'\<rparr>)" and "no_leak ts (d, wd) \<Longrightarrow> no_leak (ts @ [a]) (d, wd\<lparr>wd_heap := h'\<rparr>)"
  using assms by (auto simp: owners_ok_def no_leak_def pools_inv_def)

lemma piped_skip: "piped cfg True m d = Processed m"
  by (simp add: piped_def split: option.split)

text \<open>The end of the callback, when it has slept: the entry becomes a message, and this goes to the pools.\<close>

definition replay_entry :: "Config \<Rightarrow> nat option \<Rightarrow> dispatch_env \<Rightarrow> Entry \<Rightarrow> Dispatcher \<times> world \<Rightarrow> Dispatcher \<times> world" where
  "replay_entry cfg pick denv e s =
     (case s of (d, wd) \<Rightarrow> case messageFromWALEntry pick e (wd_heap wd) of (a, h) \<Rightarrow>
        snd (DispatchStrict cfg denv (Some a) d (wd\<lparr>wd_heap := h\<rparr>)))"

lemma replay_callback_entry:
  "snd (replay_callback cfg (\<lambda>_ s. s) pick denv e s) \<in> {s, replay_entry cfg pick denv e s}"
proof -
  obtain d wd where s: "s = (d, wd)" by fastforce
  obtain a h where M: "messageFromWALEntry pick e (wd_heap wd) = (a, h)" by fastforce
  obtain r d' wd' where "DispatchStrict cfg denv (Some a) d (wd\<lparr>wd_heap := h\<rparr>) = (r, d', wd')" by (metis prod_cases3)
  with M show ?thesis by (auto simp: replay_callback_def replay_entry_def s split: sum.splits dispatch_error.splits)
qed

lemma owners_entry:
  assumes "owners_ok ts s"
  shows "owners_ok ts (replay_entry cfg pick (plain_env picks) e s)"
    and "no_leak ts s \<Longrightarrow> no_leak ts (replay_entry cfg pick (plain_env picks) e s)"
proof -
  obtain d wd where s: "s = (d, wd)" by fastforce
  obtain a h where M: "messageFromWALEntry pick e (wd_heap wd) = (a, h)" by fastforce
  have "heap_ok (wd_heap wd)" using assms by (simp add: s owners_ok_def pools_inv_def)
  note m = messageFromWALEntry_ok [OF this M]
  note new = owners_new [OF assms [unfolded s] m(1-3)]
  obtain r d' wd' where D: "dispatchImpl cfg (plain_env picks) (Some a) True True d (wd\<lparr>wd_heap := h\<rparr>) = (r, d', wd')" by (metis prod_cases3)
  have m5: "hp_mem (wd_heap (wd\<lparr>wd_heap := h\<rparr>)) a = Some (empty_message\<lparr>msg_RequestID := ent_RequestID e, msg_TraceID := ent_TraceID e,
      msg_Project := ent_Project e, msg_Router := ent_Router e, msg_Data := ent_Data e, msg_Timestamp := ent_Timestamp e, msg_Env := ent_Env e\<rparr>)"
    using m(5) by simp
  note o = owners_dispatch [where ts = ts and ts' = "[]", OF new(1) m5 piped_skip D]
  have out: "replay_entry cfg pick (plain_env picks) e s = (d', wd')" by (simp add: replay_entry_def s M DispatchStrict_def D)
  then show "owners_ok ts (replay_entry cfg pick (plain_env picks) e s)" using o(1) by simp
  show "no_leak ts (replay_entry cfg pick (plain_env picks) e s)" if "no_leak ts s"
    using out that o(2) new(2) by (simp add: s)
qed

lemma owners_replay:
  assumes "owners_ok ts s"
  shows "owners_ok ts (snd (replay_callback cfg (\<lambda>_ s. s) pick (plain_env picks) e s))"
    and "no_leak ts s \<Longrightarrow> no_leak ts (snd (replay_callback cfg (\<lambda>_ s. s) pick (plain_env picks) e s))"
  using assms owners_entry [OF assms, of cfg pick picks e] replay_callback_entry [of cfg pick "plain_env picks" e s] by auto

subsection \<open>The state machine\<close>

abbreviation gw_owners :: "'l Gateway \<Rightarrow> bool" where
  "gw_owners g \<equiv> owners_ok (gw_tasks g) (gw_disp g, gw_world g)"

abbreviation gw_no_leak :: "'l Gateway \<Rightarrow> bool" where
  "gw_no_leak g \<equiv> no_leak (gw_tasks g) (gw_disp g, gw_world g)"

text \<open>The message of a task, and what its pipeline makes of it.\<close>

definition task_result :: "nat \<Rightarrow> 'l Gateway \<Rightarrow> processed" where
  "task_result i g = piped (gw_cfg g) False (the (hp_mem (gw_heap g) (gw_tasks g ! i))) (gw_disp g)"

text \<open>
  The flag says that the pipeline of a task failed. A replay round is one step when no callback sleeps; \<open>entry\<close> is the end of a callback that
  slept, at any later moment.
\<close>

inductive gw_step :: "'l limiter_api \<Rightarrow> bool \<Rightarrow> 'l Gateway \<Rightarrow> 'l Gateway \<Rightarrow> bool" for api where
  request: "clock_ok (cf_Auth (gw_cfg g)) (re_auth env) \<Longrightarrow>
    serve_chain (upload_route api env) (g, new_ctx meth path hdr (FullBody body)) = (g', c') \<Longrightarrow> gw_step api False g g'"
| task: "i < length (gw_tasks g) \<Longrightarrow> task_result i g = Processed m \<Longrightarrow> gw_step api False g (run_task (plain_env pick) now text_of i g)"
| failed_task: "i < length (gw_tasks g) \<Longrightarrow> task_result i g = ProcError \<or> task_result i g = ProcPanic \<Longrightarrow>
    gw_step api True g (run_task (plain_env pick) now text_of i g)"
| worker: "k < length (project_pools n (gw_disp g)) \<Longrightarrow> worker_act (project_pools n (gw_disp g) ! k, gw_world g) (p, wd) \<Longrightarrow>
    gw_step api False g (g\<lparr>gw_disp := set_pools n ((project_pools n (gw_disp g))[k := p]) (gw_disp g), gw_world := wd\<rparr>)"
| replay: "gw_step api False g (replay_round (\<lambda>_ s. s) pick (plain_env picks) g)"
| entry: "replay_entry (gw_cfg g) pick (plain_env picks) e (gw_disp g, gw_world g) = (d, wd) \<Longrightarrow>
    gw_step api False g (g\<lparr>gw_disp := d, gw_world := wd\<rparr>)"
| wal: "gw_step api False g (g\<lparr>gw_world := (gw_world g)\<lparr>wd_wal := w, wd_disk := d\<rparr>\<rparr>)"
| report: "gw_step api False g (report_metrics running g)"
| reload: "gw_step api False g (g\<lparr>gw_cfg := c, gw_rl := updateGlobalLimiter api q (gw_rl g)\<rparr>)"

inductive gw_reach :: "'l limiter_api \<Rightarrow> bool \<Rightarrow> 'l Gateway \<Rightarrow> bool" for api where
  start: "assemble api ants_ok during sink_ok cfg d = (Inr g, d') \<Longrightarrow> gw_reach api False g"
| more: "gw_reach api x g \<Longrightarrow> gw_step api y g g' \<Longrightarrow> gw_reach api (x \<or> y) g'"

lemma owners_disk [simp]:
  "owners_ok ts (d, wd\<lparr>wd_wal := w, wd_disk := dk\<rparr>) = owners_ok ts (d, wd)" "no_leak ts (d, wd\<lparr>wd_wal := w, wd_disk := dk\<rparr>) = no_leak ts (d, wd)"
  "owners_ok ts (d, wd\<lparr>wd_disk := dk\<rparr>) = owners_ok ts (d, wd)" "no_leak ts (d, wd\<lparr>wd_disk := dk\<rparr>) = no_leak ts (d, wd)"
  "owners_ok ts (d, wd\<lparr>wd_wal := w\<rparr>) = owners_ok ts (d, wd)" "no_leak ts (d, wd\<lparr>wd_wal := w\<rparr>) = no_leak ts (d, wd)"
  by (simp_all add: owners_ok_def no_leak_def pools_inv_def)

lemma owners_request:
  assumes "gw_owners g" "request_frame g g'" "no_task g g' \<or> new_task m g g'"
  shows "gw_owners g'" and "gw_no_leak g \<Longrightarrow> gw_no_leak g'"
  using assms by (auto simp: owners_ok_def no_leak_def pools_inv_def request_frame_def no_task_def new_task_def)

text \<open>A task leaves the list of tasks, whatever becomes of its message.\<close>

lemma run_task_state:
  assumes "Dispatch (gw_cfg g) denv (Some (gw_tasks g ! i)) (gw_disp g) (gw_world g) = (r, d, wd)"
  shows "gw_disp (run_task denv now text_of i g) = d" "gw_world (run_task denv now text_of i g) = wd"
    "gw_tasks (run_task denv now text_of i g) = take i (gw_tasks g) @ drop (Suc i) (gw_tasks g)"
  using assms by (simp_all add: run_task_def Let_def split: sum.split dispatch_error.split)

lemma owners_task:
  assumes ok: "gw_owners g" and i: "i < length (gw_tasks g)"
  shows "gw_owners (run_task (plain_env pick) now text_of i g)"
    and "task_result i g = Processed m \<Longrightarrow> gw_no_leak g \<Longrightarrow> gw_no_leak (run_task (plain_env pick) now text_of i g)"
proof -
  define a ts ts' where "a = gw_tasks g ! i" and "ts = take i (gw_tasks g)" and "ts' = drop (Suc i) (gw_tasks g)"
  have t: "gw_tasks g = ts @ a # ts'" using i by (simp add: a_def ts_def ts'_def id_take_nth_drop)
  have al: "a \<in> live (gw_heap g)" using ok by (simp add: owners_ok_def t)
  then obtain m0 where m0: "hp_mem (gw_heap g) a = Some m0" by (auto simp: live_def)
  obtain r d wd where D: "dispatchImpl (gw_cfg g) (plain_env pick) (Some a) False False (gw_disp g) (gw_world g) = (r, d, wd)" by (metis prod_cases3)
  note st = run_task_state [of g "plain_env pick" i r d wd now text_of, folded a_def ts_def ts'_def, unfolded Dispatch_def, OF D]
  have tr: "task_result i g = piped (gw_cfg g) False m0 (gw_disp g)" by (simp add: task_result_def a_def [symmetric] m0)
  have ok': "owners_ok (ts @ a # ts') (gw_disp g, gw_world g)" using ok by (simp add: t)
  have drop: "owners_ok (ts @ ts') (gw_disp g, gw_world g)" using ok' by (auto simp: owners_ok_def)
  have rel: "owners_ok (ts @ ts') (gw_disp g, release (Some a) (gw_world g))"
    using ok' ReleaseMessage_ok [of "gw_heap g" a] al by (auto simp: owners_ok_def pools_inv_def release_def)
  show "gw_owners (run_task (plain_env pick) now text_of i g)"
  proof (cases "piped (gw_cfg g) False m0 (gw_disp g)")
    case (Processed m')
    with owners_dispatch(1) [OF ok' m0 _ D] st show ?thesis by simp
  next
    case ProcError
    show ?thesis
    proof (cases "msg_Project m0 = [] \<or> project_pools (msg_Project m0) (gw_disp g) = []")
      case True
      with dispatchImpl_early [OF m0 True, of "gw_cfg g" "plain_env pick" False False] D rel st show ?thesis by auto
    next
      case False
      with dispatchImpl_late [OF m0, of "gw_disp g" "gw_cfg g" "plain_env pick" False False] D drop st ProcError show ?thesis by auto
    qed
  next
    case ProcPanic
    show ?thesis
    proof (cases "msg_Project m0 = [] \<or> project_pools (msg_Project m0) (gw_disp g) = []")
      case True
      with dispatchImpl_early [OF m0 True, of "gw_cfg g" "plain_env pick" False False] D rel st show ?thesis by auto
    next
      case False
      with dispatchImpl_late [OF m0, of "gw_disp g" "gw_cfg g" "plain_env pick" False False] D drop st ProcPanic show ?thesis by auto
    qed
  qed
  show "gw_no_leak (run_task (plain_env pick) now text_of i g)" if "task_result i g = Processed m" "gw_no_leak g"
    using owners_dispatch(2) [OF ok' m0 that(1) [unfolded tr] D] that(2) st by (simp add: t)
qed

text \<open>The pools of a new gateway hold nothing.\<close>

lemma init_projects_fresh:
  "init_projects cfg ps d = Some d' \<Longrightarrow> dp_pools d \<noteq> None \<Longrightarrow> \<forall>p\<in>set (all_pools d). held p = [] \<and> pool_local p \<and> wp_metrics p = [] \<Longrightarrow>
    dp_pools d' \<noteq> None \<and> (\<forall>p\<in>set (all_pools d'). held p = [] \<and> pool_local p \<and> wp_metrics p = [])"
proof (induction ps arbitrary: d)
  case (Cons p ps)
  show ?case
  proof (cases "pc_Enabled p")
    case True
    obtain qs where q: "init_pools cfg (pc_Name p) 0 (pc_Sinks p) d = Some qs"
      and I: "init_projects cfg ps (set_pools (pc_Name p) qs d) = Some d'"
      using Cons.prems(1) True by (auto simp: initProject_def set_pools_def split: option.splits)
    obtain A B where AB: "all_pools d = A @ project_pools (pc_Name p) d @ B" "\<And>qs. all_pools (set_pools (pc_Name p) qs d) = A @ qs @ B"
      using all_pools_split [OF Cons.prems(2)] by blast
    have "\<forall>p\<in>set qs. held p = [] \<and> pool_local p \<and> wp_metrics p = []" using init_pools_ok [OF q] by (auto simp: list_all_iff fresh_pool_def)
    with Cons.prems(3) have "\<forall>p\<in>set (all_pools (set_pools (pc_Name p) qs d)). held p = [] \<and> pool_local p \<and> wp_metrics p = []" unfolding AB by auto
    from Cons.IH [OF I _ this] Cons.prems(2) show ?thesis by simp
  next
    case False
    with Cons.prems(1) have "init_projects cfg ps d = Some d'" by simp
    from Cons.IH [OF this Cons.prems(2,3)] show ?thesis .
  qed
qed simp

lemma assembled:
  assumes "assemble api ants_ok during sink_ok cfg d = (Inr g, d')"
  obtains reg w bp where "init_projects cfg (cf_Projects cfg) (NewDispatcher reg w bp) = Some (gw_disp g)"
    and "wd_heap (gw_world g) = empty_heap" "gw_tasks g = []" "\<exists>n. gw_metrics g = [SetGauge PoolCapacity [] n]"
proof -
  let ?bp = "resolveBackpressure (sv_Backpressure (cf_Server cfg))"
  obtain w d1 where W: "initWAL cfg ?bp d = (Inr w, d1)"
    using assms by (cases "initWAL cfg ?bp d"; cases "fst (initWAL cfg ?bp d)") (auto simp: assemble_def)
  obtain disp where D: "Initialize cfg (NewDispatcher gateway_registry (w \<noteq> None) ?bp) = Some disp"
    using assms by (cases "Initialize cfg (NewDispatcher gateway_registry (w \<noteq> None) ?bp)") (auto simp: assemble_def W simp del: not_None_eq)
  have "ants_ok" using assms by (cases ants_ok) (auto simp: assemble_def W D Let_def simp del: not_None_eq)
  with assms have "gw_disp g = disp" "wd_heap (gw_world g) = empty_heap" "gw_tasks g = []" "\<exists>n. gw_metrics g = [SetGauge PoolCapacity [] n]" by (auto simp: assemble_def W D Let_def simp del: not_None_eq)
  with D that show thesis by (simp add: Initialize_def)
qed

lemma owners_start:
  assumes "assemble api ants_ok during sink_ok cfg d = (Inr g, d')"
  shows "gw_owners g" "gw_no_leak g"
proof -
  obtain reg w bp where I: "init_projects cfg (cf_Projects cfg) (NewDispatcher reg w bp) = Some (gw_disp g)"
    and g: "wd_heap (gw_world g) = empty_heap" "gw_tasks g = []"
    by (rule assembled [OF assms])
  have "dp_pools (gw_disp g) \<noteq> None \<and> (\<forall>p\<in>set (all_pools (gw_disp g)). held p = [] \<and> pool_local p \<and> wp_metrics p = [])"
    by (rule init_projects_fresh [OF I]) (simp_all add: NewDispatcher_def all_pools_def)
  moreover from this have "held_all (all_pools (gw_disp g)) = []" by (simp add: held_all_def)
  ultimately show "gw_owners g" "gw_no_leak g"
    using g by (auto simp: owners_ok_def no_leak_def pools_inv_def list_all_iff heap_ok_empty)
qed

interpretation owners_kept: kept_by_callback "owners_ok ts" "replay_callback cfg (\<lambda>_ s. s) pick (plain_env picks)" for ts cfg pick picks
  by unfold_locales (rule owners_replay(1))

interpretation none_lost: kept_by_callback "\<lambda>s. owners_ok ts s \<and> no_leak ts s" "replay_callback cfg (\<lambda>_ s. s) pick (plain_env picks)" for ts cfg pick picks
  by unfold_locales (use owners_replay in blast)

lemma owners_replay_round:
  assumes "gw_owners g"
  shows "gw_owners (replay_round (\<lambda>_ s. s) pick (plain_env picks) g)"
    and "gw_no_leak g \<Longrightarrow> gw_no_leak (replay_round (\<lambda>_ s. s) pick (plain_env picks) g)"
  using assms owners_kept.tick_keep [OF assms, of "wd_wal (gw_world g)" "gw_cfg g" pick picks "wd_disk (gw_world g)"]
    none_lost.tick_keep [of "gw_tasks g" "(gw_disp g, gw_world g)" "wd_wal (gw_world g)" "gw_cfg g" pick picks "wd_disk (gw_world g)"]
  by (auto simp: replay_round_def split: prod.split)

lemma gw_step_owners:
  assumes "gw_step api y g g'" "gw_owners g"
  shows "gw_owners g' \<and> (\<not> y \<longrightarrow> gw_no_leak g \<longrightarrow> gw_no_leak g')"
  using assms
proof (induction rule: gw_step.induct)
  case (request g env meth path hdr body g' c')
  have "heap_ok (gw_heap g)" using request.prems by (simp add: owners_ok_def pools_inv_def)
  from upload_route_facts [OF serves_in_order_chain this request.hyps]
  have "request_frame g g'" "no_task g g' \<or> (\<exists>m. new_task m g g')" by (auto simp: Let_def split: if_splits)
  with owners_request [OF request.prems] show ?case by blast
next
  case (worker k n g p wd)
  from owners_worker [OF worker.prems worker.hyps] show ?case by simp
next
  case (entry g pick picks e d wd)
  from owners_entry [OF entry.prems, of "gw_cfg g" pick picks e] show ?case by (simp add: entry.hyps)
next
  case (report g running)
  then show ?case by (simp add: report_metrics_def emit_def)
qed (use owners_task owners_replay_round in auto)


lemma sample_start: "\<exists>g d. assemble one_limiter True (\<lambda>s. s) (\<lambda>_. True) sample_gateway sample_disk = (Inr g, d) \<and> gw_cfg g = gw_cfg sample_gw"
proof -
  have c: "sv_Backpressure (cf_Server sample_gateway) = ''drop''" "\<not> wa_Enabled (cf_WAL sample_gateway)"
    by (simp_all add: sample_gateway_def applyDefaults_def server_defaults_def wal_defaults_def zero_config_def dflt_def)
  have b: "resolveBackpressure ''drop'' = BackpressureDrop" by code_simp
  obtain disp where "Initialize sample_gateway (NewDispatcher gateway_registry False BackpressureDrop) = Some disp"
    by (simp add: Initialize_def sample_gateway_def initProject_def init_pool_def resolveSinkConfig_def instance_of_def sink_Create_def
        NewDispatcher_def redis_factory_def gateway_registry_def sink_Register_def sink_NewRegistry_def Let_def)
  then show ?thesis by (simp add: assemble_def initWAL_def c b Let_def sample_gw_def)
qed


subsection \<open>Stopping\<close>

lemma fan_out_closed:
  assumes "heap_ok (wd_heap wd)" "a \<in> live (wd_heap wd)" "hp_mem (wd_heap wd) a = Some m" "wp_closed p"
  shows "\<exists>wd'. fan_out env False a i (p # ps) wd = (Inl (SubmitFailed PoolClosed), p # ps, wd') \<and> wd_wal wd' = wd_wal wd \<and> wd_disk wd' = wd_disk wd
    \<and> live (wd_heap wd') = live (wd_heap wd) - {a} \<and> hp_mem (wd_heap wd') a = Some empty_message"
proof -
  obtain b h where C: "copyMessage (fst env i) a (wd_heap wd) = (b, h)" by fastforce
  note c = copyMessage_ok [OF assms(1-3) C]
  let ?h = "ReleaseMessage (Some b) h"
  have b: "b \<in> live h" "b \<noteq> a" "a \<in> live h" using c(2,3) assms(2) by auto
  note r = ReleaseMessage_ok [OF c(1) b(1)]
  have a: "a \<in> live ?h" using r(2) b by simp
  then obtain m2 where m2: "hp_mem ?h a = Some m2" by (auto simp: live_def)
  note q = ReleaseMessage_ok [OF r(1) a]
  have "live (ReleaseMessage (Some a) ?h) = live (wd_heap wd) - {a}" using q(2) r(2) c(2,3) by auto
  moreover have "hp_mem (ReleaseMessage (Some a) ?h) a = Some empty_message" by (simp add: ReleaseMessage_def [of "Some a"] m2)
  ultimately show ?thesis by (simp add: C Submit_def assms(4) release_def)
qed

lemma update_same: "map_of al k = Some v \<Longrightarrow> AList.update k v al = al"
  by (induction al) (auto split: if_splits)

lemma set_pools_same: "project_pools n d \<noteq> [] \<Longrightarrow> set_pools n (project_pools n d) d = d"
  by (auto simp: set_pools_def project_pools_def update_same split: option.splits)

lemma Shutdown_closes:
  assumes "\<forall>s. wp_closed (fst s) \<longrightarrow> wp_closed (fst (during s))" "wp_shutdown p \<longrightarrow> wp_closed p"
  shows "wp_closed (fst (snd (Shutdown during ok p wd)))"
proof -
  have "wp_closed (shutdown_begin p)" by (simp add: shutdown_begin_def)
  with assms(1) have "wp_closed (fst (during (shutdown_begin p, wd)))" by simp
  with assms(2) show ?thesis by (auto simp: Shutdown_def split: prod.split)
qed

lemma shutdown_pools_closed:
  assumes "\<forall>s. wp_closed (fst s) \<longrightarrow> wp_closed (fst (during s))"
  shows "\<forall>p\<in>set ps. wp_shutdown p \<longrightarrow> wp_closed p \<Longrightarrow> \<forall>p\<in>set (fst (shutdown_pools during sink_ok ps wd)). wp_closed p"
proof (induction ps arbitrary: wd)
  case (Cons p ps)
  obtain r q wd1 where S: "Shutdown during (sink_ok (wp_name p)) p wd = (r, q, wd1)" by (metis prod_cases3)
  have "wp_closed q" using Shutdown_closes [OF assms, of p "sink_ok (wp_name p)" wd] Cons.prems S by simp
  with Cons.IH [of wd1] Cons.prems show ?case by (simp add: S split: prod.split)
qed simp

lemma shutdown_projects_closed:
  assumes "\<forall>s. wp_closed (fst s) \<longrightarrow> wp_closed (fst (during s))"
  shows "\<forall>p\<in>set (concat (map snd pools)). wp_shutdown p \<longrightarrow> wp_closed p \<Longrightarrow>
    \<forall>p\<in>set (concat (map snd (fst (shutdown_projects during sink_ok pools wd)))). wp_closed p"
proof (induction pools arbitrary: wd)
  case (Cons x pools)
  obtain n ps where x: "x = (n, ps)" by fastforce
  obtain qs wd1 where S: "shutdown_pools during sink_ok ps wd = (qs, wd1)" by fastforce
  have "\<forall>p\<in>set qs. wp_closed p" using shutdown_pools_closed [OF assms, of ps sink_ok wd] Cons.prems S by (simp add: x)
  with Cons.IH [of wd1] Cons.prems show ?case by (auto simp: x S split: prod.split)
qed simp

lemma Run_shutdown_frame:
  "gw_tasks (Run_shutdown during sink_ok g) = gw_tasks g"
  "gw_disp (Run_shutdown during sink_ok g) = fst (Dispatcher_Shutdown during sink_ok (gw_disp g) (gw_world g))"
  by (simp_all add: Run_shutdown_def stopMetrics_def close_wal_def split: prod.split)

lemma Run_shutdown_closed:
  assumes "\<forall>s. wp_closed (fst s) \<longrightarrow> wp_closed (fst (during s))" "\<forall>p\<in>set (all_pools (gw_disp g)). wp_shutdown p \<longrightarrow> wp_closed p"
  shows "\<forall>p\<in>set (all_pools (gw_disp (Run_shutdown during sink_ok g))). wp_closed p"
proof (cases "dp_pools (gw_disp g)")
  case (Some pools)
  with shutdown_projects_closed [OF assms(1), of pools sink_ok "gw_world g"] assms(2) show ?thesis
    by (auto simp: Run_shutdown_frame Dispatcher_Shutdown_def all_pools_def split: prod.split)
qed (simp add: Run_shutdown_frame Dispatcher_Shutdown_def all_pools_def)

text \<open>
  C38: uploads accepted shortly before a stop are lost. \<open>Run\<close> shuts the pools down without waiting for the goroutine pool, so tasks
  stay queued behind the shutdown. Such a task -- its client was answered 200, its project has sinks, its pipeline accepts it -- finds the
  pools closed: no pool gets the message, nothing is written to the log on disk, the message is
  released, and the error line that reports it carries empty identifiers, because the fields are read after the release.
\<close>

theorem accepted_lost_on_shutdown:
  assumes "g1 = Run_shutdown during sink_ok g" and "\<forall>s. wp_closed (fst s) \<longrightarrow> wp_closed (fst (during s))"
    and "\<forall>p\<in>set (all_pools (gw_disp g)). wp_shutdown p \<longrightarrow> wp_closed p"
    and "heap_ok (gw_heap g1)" and "i < length (gw_tasks g)" and "gw_tasks g ! i \<in> live (gw_heap g1)"
    and "hp_mem (gw_heap g1) (gw_tasks g ! i) = Some m" and "msg_Project m \<noteq> []" and "project_pools (msg_Project m) (gw_disp g1) \<noteq> []"
    and "piped (gw_cfg g1) False m (gw_disp g1) = Processed m'"
  shows "let g2 = run_task denv now text_of i g1
    in gw_disp g2 = gw_disp g1 \<and> wd_wal (gw_world g2) = wd_wal (gw_world g1) \<and> wd_disk (gw_world g2) = wd_disk (gw_world g1)
      \<and> live (gw_heap g2) = live (gw_heap g1) - {gw_tasks g ! i}
      \<and> gw_logs g2 = gw_logs g1 @ [LogJSON now ''error'' ''dispatch failed'' [] [] [] (text_of (SubmitFailed PoolClosed))]"
proof -
  let ?a = "gw_tasks g ! i" and ?n = "msg_Project m"
  obtain p ps where ps: "project_pools ?n (gw_disp g1) = p # ps" using assms(9) by (auto simp: neq_Nil_conv)
  have "dp_pools (gw_disp g1) \<noteq> None" using assms(9) by (auto simp: project_pools_def split: option.splits)
  then obtain A B where "all_pools (gw_disp g1) = A @ project_pools ?n (gw_disp g1) @ B" using all_pools_split by metis
  then have "wp_closed p" using Run_shutdown_closed [OF assms(2,3), where sink_ok = sink_ok] ps by (simp add: assms(1))
  let ?wd = "if m' = m then gw_world g1 else (gw_world g1)\<lparr>wd_heap := put_message ?a m' (gw_heap g1)\<rparr>"
  note put = put_message_ok [OF assms(4,6), where m = m']
  have w: "heap_ok (wd_heap ?wd)" "?a \<in> live (wd_heap ?wd)" "hp_mem (wd_heap ?wd) ?a = Some m'" "live (wd_heap ?wd) = live (gw_heap g1)"
    "wd_wal ?wd = wd_wal (gw_world g1)" "wd_disk ?wd = wd_disk (gw_world g1)"
    using assms(4,6,7) put by auto
  obtain wd' where F: "fan_out denv False ?a 0 (p # ps) ?wd = (Inl (SubmitFailed PoolClosed), p # ps, wd')"
    and wd': "wd_wal wd' = wd_wal ?wd" "wd_disk wd' = wd_disk ?wd" "live (wd_heap wd') = live (wd_heap ?wd) - {?a}" "hp_mem (wd_heap wd') ?a = Some empty_message"
    using fan_out_closed [OF w(1-3) \<open>wp_closed p\<close>] by blast
  have t: "gw_tasks g1 ! i = ?a" by (simp add: assms(1) Run_shutdown_frame)
  have "Dispatch (gw_cfg g1) denv (Some ?a) (gw_disp g1) (gw_world g1) = (Inl (SubmitFailed PoolClosed), gw_disp g1, wd')"
    unfolding Dispatch_def dispatchImpl_late [OF assms(7-9)] assms(10) processed.case ps F prod.case using set_pools_same [OF assms(9)] by (simp add: ps)
  then show ?thesis using wd' w(4-6) by (simp add: run_task_def t Let_def empty_message_def)
qed

definition stopped_gw :: "unit Gateway" where
  "stopped_gw = sample_gw\<lparr>gw_world := sample_world, gw_tasks := [0]\<rparr>"

lemma sample_stop:
  "gw_cfg (Run_shutdown id (\<lambda>_. True) stopped_gw) = sample_gateway" "gw_world (Run_shutdown id (\<lambda>_. True) stopped_gw) = sample_world"
  "gw_disp (Run_shutdown id (\<lambda>_. True) stopped_gw) = sample_dispatcher [shutdown_begin sample_pool]" "gw_tasks stopped_gw = [0]"
  "gw_disp stopped_gw = sample_dispatcher [sample_pool]" "\<not> wp_shutdown sample_pool"
  by (simp_all add: stopped_gw_def sample_gw_def Run_shutdown_def Dispatcher_Shutdown_def sample_dispatcher_def Shutdown_def sample_pool_def NewWorkerPool_def
      stopMetrics_def close_wal_def)

theorem accepted_lost_on_shutdown_witness:
  "0 \<notin> live (gw_heap (run_task (plain_env (\<lambda>_. None)) zero_time (\<lambda>_. []) 0 (Run_shutdown id (\<lambda>_. True) stopped_gw)))"
proof -
  have "hp_mem (wd_heap sample_world) 0 = Some sample_message" by (simp add: sample_world_def)
  moreover have "piped sample_gateway False sample_message d = Processed sample_message" for d
    by (auto simp: piped_def sample_gateway_def GetProject_def split: option.split)
  moreover have "all_pools (gw_disp stopped_gw) = [sample_pool]" by (simp add: sample_stop all_pools_def sample_dispatcher_def)
  ultimately show ?thesis
    using accepted_lost_on_shutdown [OF refl, of id stopped_gw "\<lambda>_. True" 0 sample_message sample_message "plain_env (\<lambda>_. None)" zero_time "\<lambda>_. []"]
      sample_world_ok by (simp add: sample_stop sample_pools Let_def)
qed

subsection \<open>What a replayed entry becomes\<close>

definition entry_message :: "Entry \<Rightarrow> Message" where
  "entry_message e = empty_message\<lparr>msg_RequestID := ent_RequestID e, msg_TraceID := ent_TraceID e, msg_Project := ent_Project e,
     msg_Router := ent_Router e, msg_Data := ent_Data e, msg_Timestamp := ent_Timestamp e, msg_Env := ent_Env e\<rparr>"



end
