(* ===== verification/Gateway_Metrics.thy ===== *)
theory Gateway_Metrics
  imports Gateway_Laws
begin

text \<open>
  What the gateway tells the metrics package: in every reachable state, each call so far has the type of its metric, so
  \<open>WithLabelValues\<close> never panics, and the gauges stay within the ranges their help texts promise.
\<close>

subsection \<open>Pools\<close>

definition metrics_ok :: "WorkerPool \<Rightarrow> bool" where
  "metrics_ok wp \<longleftrightarrow> list_all call_ok (wp_metrics wp)"

lemma record_metric_ok [simp]: "metrics_ok (record_metric c wp) \<longleftrightarrow> metrics_ok wp \<and> call_ok c"
  by (simp add: metrics_ok_def)

lemma metrics_ok_update [simp]:
  "metrics_ok (wp\<lparr>wp_ch := c\<rparr>) = metrics_ok wp" "metrics_ok (wp\<lparr>wp_busy := b\<rparr>) = metrics_ok wp" "metrics_ok (wp\<lparr>wp_recovery := r\<rparr>) = metrics_ok wp"
  "metrics_ok (wp\<lparr>wp_failCount := n\<rparr>) = metrics_ok wp" "metrics_ok (wp\<lparr>wp_circuitOpen := o'\<rparr>) = metrics_ok wp"
  "metrics_ok (wp\<lparr>wp_recovery := r, wp_recoveryStop := s\<rparr>) = metrics_ok wp" "metrics_ok (shutdown_begin wp) = metrics_ok wp"
  by (simp_all add: metrics_ok_def shutdown_begin_def)

lemma circuit_metrics [preserves, simp]:
  "metrics_ok wp \<Longrightarrow> metrics_ok (recordFailure wp)" "metrics_ok wp \<Longrightarrow> metrics_ok (resetFailures wp)"
  "metrics_ok wp \<Longrightarrow> metrics_ok (recovery_tick v wp)" "metrics_ok wp \<Longrightarrow> metrics_ok (recovery_round h wp)" "metrics_ok wp \<Longrightarrow> metrics_ok (recovery_exit wp)"
  by (simp_all add: recordFailure_def startRecovery_def resetFailures_def recovery_tick_def recovery_round_def recovery_exit_def Let_def
      split: option.split)

lemma handleRejected_metrics: "handleRejected a wp wd = (wp', wd') \<Longrightarrow> metrics_ok wp' = metrics_ok wp"
  by (simp add: handleRejected_frame(7) metrics_ok_def)

lemma reject_metrics: "metrics_ok wp \<Longrightarrow> metrics_ok (fst (snd (reject a wp wd)))"
  using handleRejected_metrics [of a wp wd] by (cases "handleRejected a wp wd") (simp add: reject_def)

lemma attempt_loop_metrics: "metrics_ok wp \<Longrightarrow> metrics_ok (fst (snd (attempt_loop env n i a wp wd)))"
  by (induction env n i a wp wd rule: attempt_loop.induct) (auto simp: reject_metrics Let_def split: send_result.split)

lemma ChannelUsage_range: "length (ch_buf (wp_ch wp)) \<le> ch_cap (wp_ch wp) \<Longrightarrow> 0 \<le> ChannelUsage wp \<and> ChannelUsage wp \<le> 1"
  by (simp add: ChannelUsage_def fl_nonneg fl_le_1)

lemma worker_act_metrics:
  assumes "worker_act (wp, wd) (wp', wd')" "metrics_ok wp" "length (ch_buf (wp_ch wp)) \<le> ch_cap (wp_ch wp)"
  shows "metrics_ok wp'"
  using assms
proof (induction "(wp, wd)" "(wp', wd')" rule: worker_act.induct)
  case take
  then show ?case by (auto simp: worker_take_def split: if_splits)
next
  case (finish a env r)
  then show ?case using attempt_loop_metrics [of wp env max_attempts 0 a wd] reject_metrics [of wp a wd]
    by (auto simp: worker_finish_def safeProcess_def split: prod.splits if_splits)
next
  case (late_finish a env r wp'')
  then show ?case using attempt_loop_metrics [of wp env max_attempts 0 a wd] by auto
next
  case report
  then show ?case using ChannelUsage_range [of wp] by (auto simp: wp_reportMetrics_def)
qed auto

lemma submit_metrics:
  "Submit id a wp wd = (r, wp', wd') \<Longrightarrow> metrics_ok wp' = metrics_ok wp"
  "SubmitStrict a wp wd = (r, wp', wd') \<Longrightarrow> metrics_ok wp' = metrics_ok wp"
  using handleRejected_metrics [of a wp wd wp' wd']
  by (auto simp: Submit_def submit_send_def SubmitStrict_def Let_def split: if_splits prod.splits send_outcome.splits Backpressure.splits)

subsection \<open>The dispatcher\<close>

lemma fan_out_metrics:
  "list_all metrics_ok ps \<Longrightarrow> fan_out (plain_env pick) strict a i ps wd = (r, ps', wd') \<Longrightarrow> list_all metrics_ok ps'"
proof (induction ps arbitrary: i wd r ps' wd')
  case (Cons p ps)
  obtain m h where C: "copyMessage (pick i) a (wd_heap wd) = (m, h)" by fastforce
  obtain r1 p1 w1 where S: "(if strict then SubmitStrict m p (wd\<lparr>wd_heap := h\<rparr>) else Submit id m p (wd\<lparr>wd_heap := h\<rparr>)) = (r1, p1, w1)"
    by (metis prod_cases3)
  then have p1: "metrics_ok p1" using submit_metrics Cons.prems(1) by (auto split: if_splits)
  obtain r2 qs w2 where F: "fan_out (plain_env pick) strict a (Suc i) ps w1 = (r2, qs, w2)" by (metis prod_cases3)
  have "list_all metrics_ok qs" using Cons.IH [OF _ F] Cons.prems(1) by simp
  with Cons.prems(1) p1 show ?case using Cons.prems(2) unfolding fan_out.simps fst_conv snd_conv C prod.case Let_def S F
    by (auto split: sum.splits submit_error.splits)
qed simp

definition pools_typed :: "Dispatcher \<Rightarrow> bool" where
  "pools_typed d \<longleftrightarrow> list_all metrics_ok (all_pools d)"

lemma pools_typed_project: "pools_typed d \<Longrightarrow> list_all metrics_ok (project_pools n d)"
proof (cases "dp_pools d = None")
  case False
  assume "pools_typed d"
  moreover obtain A B where "all_pools d = A @ project_pools n d @ B" using all_pools_split [OF False] by metis
  ultimately show ?thesis by (simp add: pools_typed_def)
qed (simp add: project_pools_def)

lemma pools_typed_set: "pools_typed d \<Longrightarrow> list_all metrics_ok qs \<Longrightarrow> pools_typed (set_pools n qs d)"
proof (cases "dp_pools d = None")
  case False
  assume "pools_typed d" "list_all metrics_ok qs"
  moreover obtain A B where "all_pools d = A @ project_pools n d @ B" "\<And>qs. all_pools (set_pools n qs d) = A @ qs @ B"
    using all_pools_split [OF False] by blast
  ultimately show ?thesis by (simp add: pools_typed_def)
qed (simp add: pools_typed_def all_pools_def set_pools_def)

lemma dispatchImpl_metrics:
  assumes "pools_typed d" "dispatchImpl cfg (plain_env pick) msg strict skip d wd = (r, d', wd')"
  shows "pools_typed d'"
proof -
  have "list_all metrics_ok ps" if "dp_pools d = Some pools" "map_of pools n = Some ps" for pools n ps
    using pools_typed_project [OF assms(1), of n] that by (simp add: project_pools_def)
  with assms show ?thesis
    by (auto simp: dispatchImpl_def Let_def simp del: fan_out.simps split: option.splits if_splits list.splits prod.splits sum.splits
        intro!: pools_typed_set dest!: fan_out_metrics [rotated])
qed

subsection \<open>A request\<close>

text \<open>A handler keeps a predicate on the state if it does so whenever the rest of the chain does.\<close>

definition handler_keeps :: "('s \<Rightarrow> bool) \<Rightarrow> 's handler \<Rightarrow> bool" where
  "handler_keeps P h \<longleftrightarrow> (\<forall>next sc. (\<forall>sc. P (fst sc) \<longrightarrow> P (fst (next sc))) \<longrightarrow> P (fst sc) \<longrightarrow> P (fst (h next sc)))"

lemma serve_chain_keeps: "list_all (handler_keeps P) hs \<Longrightarrow> P (fst sc) \<Longrightarrow> P (fst (serve_chain hs sc))"
proof (induction hs arbitrary: sc)
  case (Cons h hs)
  have "\<forall>sc. P (fst sc) \<longrightarrow> P (fst (serve_chain hs sc))" using Cons by simp
  moreover have "handler_keeps P h" using Cons.prems(1) by simp
  ultimately show ?case using Cons.prems(2) unfolding handler_keeps_def serve_chain.simps by blast
qed simp

lemma handler_keepsI: "(\<And>s c. P s \<Longrightarrow> P (fst (snd (st s c)))) \<Longrightarrow> handler_keeps P (handler st)"
proof -
  assume keep: "\<And>s c. P s \<Longrightarrow> P (fst (snd (st s c)))"
  have "P (fst (handler st next sc))" if "\<forall>sc. P (fst sc) \<longrightarrow> P (fst (next sc))" "P (fst sc)" for "next" sc
  proof -
    obtain ok s c where S: "st (fst sc) (snd sc) = (ok, s, c)" by (metis prod_cases3)
    with keep [OF that(2), of "snd sc"] that(1) show ?thesis by (cases ok) (simp_all add: handler_def)
  qed
  then show ?thesis by (simp add: handler_keeps_def)
qed

definition gw_typed :: "'l Gateway \<Rightarrow> bool" where
  "gw_typed g \<longleftrightarrow> list_all call_ok (gw_metrics g) \<and> pools_typed (gw_disp g)"

lemma gw_typed_update [simp]:
  "gw_typed (g\<lparr>gw_auth := m\<rparr>) = gw_typed g" "gw_typed (g\<lparr>gw_world := w\<rparr>) = gw_typed g" "gw_typed (g\<lparr>gw_tasks := ts\<rparr>) = gw_typed g"
  "gw_typed (g\<lparr>gw_logs := ls\<rparr>) = gw_typed g" "gw_typed (g\<lparr>gw_cfg := c, gw_rl := r\<rparr>) = gw_typed g"
  "gw_typed (g\<lparr>gw_world := w, gw_tasks := ts\<rparr>) = gw_typed g"
  by (simp_all add: gw_typed_def)

lemma emit_typed: "gw_typed (emit cs g) \<longleftrightarrow> gw_typed g \<and> list_all call_ok cs"
  by (auto simp: gw_typed_def emit_def)

lemma request_calls_ok: "list_all call_ok (request_calls dur c)"
  by (simp add: request_calls_def Let_def metric_labels_def metric_type_def)

lemma on_rl_typed:
  assumes "\<And>m mt. list_all call_ok mt \<Longrightarrow> list_all call_ok (snd (fst (snd (st (m, mt) c))))" "gw_typed g"
  shows "gw_typed (fst (snd (on_rl st g c)))"
  using assms(1) [of "gw_metrics g" "gw_rl g"] assms(2) by (auto simp: on_rl_def gw_typed_def split: prod.split)

lemma rate_limit_calls:
  "list_all call_ok mt \<Longrightarrow> list_all call_ok (snd (fst (snd (GlobalMiddleware api now (m, mt) c))))"
  "list_all call_ok mt \<Longrightarrow> list_all call_ok (snd (fst (snd (ProjectMiddleware api cfg now (m, mt) c))))"
  by (auto simp: GlobalMiddleware_def ProjectMiddleware_def metric_type_def metric_labels_def
      split: prod.split bool.split option.split ctx_val.split)

lemma silent_steps:
  "fst (snd (BodyCacheMiddleware cfg s c)) = s" "fst (snd (ProjectResolutionMiddleware cfg s c)) = s" "fst (snd (RequestIDMiddleware uuid s c)) = s"
  by (auto simp: BodyCacheMiddleware_def ProjectResolutionMiddleware_def RequestIDMiddleware_def Let_def
      split: req_body.split option.split sum.split prod.split list.split)

lemma UploadHandler_typed: "gw_typed g \<Longrightarrow> gw_typed (fst (snd (UploadHandler env g c)))"
  by (auto simp: UploadHandler_def upload_checked_def Let_def split: option.split ctx_val.split prod.split)

lemma upload_route_typed: "list_all (handler_keeps gw_typed) (upload_route api env)"
proof -
  have "handler_keeps gw_typed (MetricsMiddleware (re_took env) emit)" "handler_keeps gw_typed (LoggingMiddleware now took)" for now took
    by (simp_all add: handler_keeps_def MetricsMiddleware_def LoggingMiddleware_def emit_typed request_calls_ok case_prod_beta del: split_paired_All)
  then show ?thesis
    by (auto simp: upload_route_def common_handlers_def with_cfg_def silent_steps on_rl_typed rate_limit_calls UploadHandler_typed
        authMiddleware_def on_auth_def split: prod.split intro!: handler_keepsI)
qed

subsection \<open>The state machine\<close>

lemma replay_entry_typed: "pools_typed (fst s) \<Longrightarrow> pools_typed (fst (replay_entry cfg pick (plain_env picks) e s))"
  using dispatchImpl_metrics by (auto simp: replay_entry_def DispatchStrict_def split: prod.split) (metis prod.collapse)

interpretation typed_kept: kept_by_callback "\<lambda>s. pools_typed (fst s)" "replay_callback cfg (\<lambda>_ s. s) pick (plain_env picks)" for cfg pick picks
proof unfold_locales
  fix s :: "Dispatcher \<times> world" and e
  assume "pools_typed (fst s)"
  then show "pools_typed (fst (snd (replay_callback cfg (\<lambda>_ s. s) pick (plain_env picks) e s)))"
    using replay_callback_entry [of cfg pick "plain_env picks" e s] replay_entry_typed by (metis insertE singletonD)
qed

lemma replay_round_typed: "gw_typed g \<Longrightarrow> gw_typed (replay_round (\<lambda>_ s. s) pick (plain_env picks) g)"
  using typed_kept.tick_keep [of "(gw_disp g, gw_world g)" "wd_wal (gw_world g)" "gw_cfg g" pick picks "wd_disk (gw_world g)"]
  by (auto simp: replay_round_def gw_typed_def split: prod.split)

lemma run_task_typed: "gw_typed g \<Longrightarrow> gw_typed (run_task (plain_env pick) now text_of i g)"
proof -
  assume g: "gw_typed g"
  obtain r d wd where D: "Dispatch (gw_cfg g) (plain_env pick) (Some (gw_tasks g ! i)) (gw_disp g) (gw_world g) = (r, d, wd)" by (metis prod_cases3)
  then have "pools_typed d" using dispatchImpl_metrics g by (auto simp: Dispatch_def gw_typed_def)
  moreover have "gw_metrics (run_task (plain_env pick) now text_of i g) = gw_metrics g"
    using D by (simp add: run_task_def Let_def split: sum.split dispatch_error.split)
  ultimately show ?thesis using g run_task_state(1) [OF D] by (simp add: gw_typed_def)
qed

lemma gw_step_typed:
  assumes "gw_step api y g g'" "gw_owners g" "gw_typed g"
  shows "gw_typed g'"
  using assms
proof (induction rule: gw_step.induct)
  case (request g env meth path hdr body g' c')
  then show ?case using serve_chain_keeps [OF upload_route_typed, of "(g, new_ctx meth path hdr (FullBody body))" api env] by simp
next
  case (worker k n g p wd)
  let ?p = "project_pools n (gw_disp g) ! k"
  have t: "list_all metrics_ok (project_pools n (gw_disp g))" using worker.prems(2) by (simp add: gw_typed_def pools_typed_project)
  have "dp_pools (gw_disp g) \<noteq> None" using worker.prems(1) by (simp add: owners_ok_def)
  then obtain A B where AB: "all_pools (gw_disp g) = A @ project_pools n (gw_disp g) @ B" using all_pools_split by metis
  have p: "?p \<in> set (project_pools n (gw_disp g))" using worker.hyps(1) by simp
  then have "pool_local ?p" using worker.prems(1) by (auto simp: owners_ok_def pools_inv_def AB list_all_iff)
  moreover have "metrics_ok ?p" using t p by (simp add: list_all_iff)
  ultimately have "metrics_ok p" using worker_act_metrics [OF worker.hyps(2)] by (simp add: pool_local_def)
  then have "list_all metrics_ok ((project_pools n (gw_disp g))[k := p])" using t set_update_subset_insert [of "project_pools n (gw_disp g)" k p] unfolding list_all_iff by blast
  with worker.prems(2) show ?case by (simp add: gw_typed_def pools_typed_set)
next
  case (entry g pick picks e d wd)
  then show ?case using replay_entry_typed [of "(gw_disp g, gw_world g)" "gw_cfg g" pick picks e] by (simp add: gw_typed_def)
next
  case (report g running)
  then show ?case by (simp add: report_metrics_def emit_typed metric_type_def metric_labels_def gauge_range_def)
qed (simp_all add: run_task_typed replay_round_typed)

lemma gw_start_typed:
  assumes "assemble api ants_ok during sink_ok cfg d = (Inr g, d')"
  shows "gw_typed g"
proof -
  obtain reg w bp where I: "init_projects cfg (cf_Projects cfg) (NewDispatcher reg w bp) = Some (gw_disp g)"
    and m: "\<exists>n. gw_metrics g = [SetGauge PoolCapacity [] n]"
    by (rule assembled [OF assms])
  have "dp_pools (gw_disp g) \<noteq> None \<and> (\<forall>p\<in>set (all_pools (gw_disp g)). held p = [] \<and> pool_local p \<and> wp_metrics p = [])"
    by (rule init_projects_fresh [OF I]) (simp_all add: NewDispatcher_def all_pools_def)
  with m show ?thesis
    by (auto simp: gw_typed_def pools_typed_def metrics_ok_def list_all_iff metric_type_def metric_labels_def gauge_range_def)
qed

text \<open>
  C16: the metrics are well typed. In every state the gateway reaches, each call on the metrics so far -- by requests, rate limiters, the gateway's
  own report, and the workers, probes and reports of all pools -- is an operation of its metric's kind with as many label
  values as the metric has labels, so none of them panics; a circuit gauge was only ever set to 0 or 1, and a usage gauge to a ratio
  between 0 and 1.
\<close>

theorem gateway_metrics_typed:
  assumes "gw_reach api x g"
  shows "list_all call_ok (gw_metrics g) \<and> (\<forall>p\<in>set (all_pools (gw_disp g)). list_all call_ok (wp_metrics p))"
proof -
  have "gw_owners g \<and> gw_typed g"
    using assms
  proof (induction rule: gw_reach.induct)
    case start
    then show ?case using owners_start(1) gw_start_typed by blast
  next
    case more
    with gw_step_owners gw_step_typed show ?case by blast
  qed
  then show ?thesis by (simp add: gw_typed_def pools_typed_def metrics_ok_def list_all_iff)
qed

theorem gateway_metrics_typed_witness:
  "\<exists>g. gw_reach one_limiter False g \<and> length (gw_metrics g) = 2 \<and> list_all call_ok (gw_metrics g)"
proof -
  obtain g d where A: "assemble one_limiter True (\<lambda>s. s) (\<lambda>_. True) sample_gateway sample_disk = (Inr g, d)" using sample_start by blast
  obtain n where m: "gw_metrics g = [SetGauge PoolCapacity [] n]" using assembled [OF A] by metis
  have "\<not> gw_stopCh g" using A by (auto simp: assemble_def Let_def split: prod.splits sum.splits option.splits if_splits)
  with m have l: "length (gw_metrics (report_metrics 3 g)) = 2" by (simp add: report_metrics_def emit_def)
  have r: "gw_reach one_limiter False (report_metrics 3 g)" using gw_reach.more [OF gw_reach.start [OF A] gw_step.report] by simp
  with gateway_metrics_typed [OF r] l show ?thesis by blast
qed

end
