(* ===== verification/Client.thy ===== *)
theory Client
  imports Server_Laws
begin

text \<open>
  \<open>examples/send_message_client.go\<close>: the program that sends signed messages to the gateway. The network is an argument
  (\<open>Do\<close>), as are the clock readings and random numbers (\<open>send_env\<close>). The flags that were
  set are arguments of \<open>client_main\<close>; \<open>default_flags\<close> is what they are otherwise.
\<close>

subsection \<open>Text\<close>

text \<open>\<open>strings.TrimSpace\<close>: the encodings of the runes that \<open>unicode.IsSpace\<close> accepts, cut off at both ends.\<close>

definition space_runes :: "bytes list" where
  "space_runes =
     [[CHR 0x09], [CHR 0x0A], [CHR 0x0B], [CHR 0x0C], [CHR 0x0D], [CHR 0x20], [CHR 0xC2, CHR 0x85], [CHR 0xC2, CHR 0xA0],
      [CHR 0xE1, CHR 0x9A, CHR 0x80]]
     @ map (\<lambda>n. [CHR 0xE2, CHR 0x80, char_of n]) ([0x80..<0x8B] @ [0xA8, 0xA9, 0xAF :: nat])
     @ [[CHR 0xE2, CHR 0x81, CHR 0x9F], [CHR 0xE3, CHR 0x80, CHR 0x80]]"

function trim_left :: "bytes list \<Rightarrow> bytes \<Rightarrow> bytes" where
  "trim_left rs s =
     (case find (\<lambda>r. r \<noteq> [] \<and> take (length r) s = r) rs of
        None \<Rightarrow> s
      | Some r \<Rightarrow> trim_left rs (drop (length r) s))"
  by pat_completeness auto

termination
proof (relation "measure (\<lambda>(_, s). length s)", goal_cases)
  case (2 rs s r)
  then have "r \<noteq> []" "take (length r) s = r" by (auto simp: find_Some_iff)
  then have "s \<noteq> []" "0 < length r" by auto
  then show ?case by simp
qed simp

declare trim_left.simps [simp del]

definition TrimSpace :: "bytes \<Rightarrow> bytes" where
  "TrimSpace s = rev (trim_left (map rev space_runes) (rev (trim_left space_runes s)))"

text \<open>The verb \<open>%d\<close>.\<close>

definition format_d :: "int \<Rightarrow> bytes" where
  "format_d i = (if i < 0 then CHR ''-'' # itoa (nat (- i)) else itoa (nat i))"

subsection \<open>One message\<close>

definition envOrDefault :: "(bytes \<Rightarrow> bytes) \<Rightarrow> bytes \<Rightarrow> bytes \<Rightarrow> bytes" where
  "envOrDefault getenv key fallback = (if getenv key \<noteq> [] then getenv key else fallback)"

definition newNonce :: "instant \<Rightarrow> int \<Rightarrow> int \<Rightarrow> bytes" where
  "newNonce now seq rand = format_d (wrap64 now) @ CHR ''-'' # format_d seq @ CHR ''-'' # format_d rand"

definition sign :: "bytes \<Rightarrow> bytes \<Rightarrow> bytes \<Rightarrow> bytes \<Rightarrow> bytes" where
  "sign secret body timestamp nonce =
     (let data = []; data = data @ body; data = data @ timestamp; data = data @ nonce
      in EncodeToString (HMAC secret data))"

text \<open>\<open>None\<close> is a panic: the text \<open>null\<close> leaves the map nil, and storing into it panics.\<close>

definition withSequence :: "gotime \<Rightarrow> bytes \<Rightarrow> int \<Rightarrow> bytes option" where
  "withSequence now raw seq =
     (case unmarshal_map raw of
        None \<Rightarrow> Some raw
      | Some None \<Rightarrow> None
      | Some (Some obj) \<Rightarrow>
          (let obj = AList.update ''_example_seq'' (DInt seq) obj;
               obj = AList.update ''_example_sent_at'' (DStr (pr_time now)) obj
           in case marshal_map (Some obj) of None \<Rightarrow> Some raw | Some out \<Rightarrow> Some out))"

text \<open>The struct \<open>uploadRequest\<close> is the gateway's; a payload that is not JSON cannot be marshalled.\<close>

definition marshal_request :: "UploadRequest \<Rightarrow> bytes option" where
  "marshal_request r =
     map_option (\<lambda>d. pr (JObj [(''project'', jstr (req_Project r)), (''router'', jstr (req_Router r)), (''data'', d)]))
       (marshal_raw (req_Data r))"

definition int_field :: "(int \<Rightarrow> 'a \<Rightarrow> 'a) \<Rightarrow> 'a \<Rightarrow> bytes \<Rightarrow> json \<Rightarrow> 'a option" where
  "int_field set_f x raw v =
     (case v of JNum t \<Rightarrow> map_option (\<lambda>n. set_f n x) (ParseInt64 t) | JNull \<Rightarrow> Some x | _ \<Rightarrow> None)"

definition response_fields :: "UploadResponse field list" where
  "response_fields =
     [(''code'', int_field (\<lambda>n. resp_Code_update (\<lambda>_. n))),
      (''message'', str_field (\<lambda>s. resp_Message_update (\<lambda>_. s))),
      (''request_id'', str_field (\<lambda>s. resp_RequestID_update (\<lambda>_. s))),
      (''trace_id'', str_field (\<lambda>s. resp_TraceID_update (\<lambda>_. s)))]"

definition unmarshal_response :: "bytes \<Rightarrow> UploadResponse option" where
  "unmarshal_response s =
     unmarshal_struct response_fields \<lparr>resp_Code = 0, resp_Message = [], resp_RequestID = [], resp_TraceID = []\<rparr> s"

text \<open>The same struct on the gateway's side, as \<open>c.JSON\<close> prints it.\<close>

definition marshal_response :: "UploadResponse \<Rightarrow> bytes" where
  "marshal_response r =
     pr (JObj ([(''code'', JNum (format_d (resp_Code r))), (''message'', jstr (resp_Message r)), (''request_id'', jstr (resp_RequestID r))]
               @ (if resp_TraceID r = [] then [] else [(''trace_id'', jstr (resp_TraceID r))])))"

record send_env =
  se_sentAt :: gotime
  se_now :: instant          \<comment> \<open>for the timestamp\<close>
  se_nonceAt :: instant
  se_nonceRand :: int
  se_idAt :: instant
  se_idRand :: int

record http_request =
  hr_Method :: bytes
  hr_URL :: bytes
  hr_Body :: bytes
  hr_Header :: "bytes \<Rightarrow> bytes"

datatype send_error =
    SendMarshal
  | SendNewRequest
  | SendTransport
  | SendStatus int bytes
  | SendDecode bytes
  | SendCode int bytes

datatype client_result = ClientOk UploadResponse | ClientErr send_error | ClientPanic

definition build_request :: "send_env \<Rightarrow> bytes \<Rightarrow> bytes \<Rightarrow> bytes \<Rightarrow> bytes \<Rightarrow> int \<Rightarrow> http_request" where
  "build_request env url appKey secret body seq =
     (let timestamp = format_d (Unix (se_now env));
          nonce = newNonce (se_nonceAt env) seq (se_nonceRand env);
          signature = sign secret body timestamp nonce;
          requestID = newNonce (se_idAt env) seq (se_idRand env)
      in \<lparr>hr_Method = ''POST'', hr_URL = url, hr_Body = body,
          hr_Header = (\<lambda>_. [])(''Content-Type'' := ''application/json'', ''X-App-Key'' := appKey, ''X-Timestamp'' := timestamp,
            ''X-Nonce'' := nonce, ''X-Signature'' := signature, ''X-Request-Id'' := requestID, ''X-Trace-Id'' := requestID)\<rparr>)"

text \<open>The end of \<open>sendOne\<close>: at most a mebibyte of the body is read, and read errors are ignored.\<close>

definition read_response :: "int \<times> bytes \<Rightarrow> client_result" where
  "read_response r =
     (case r of (status, body) \<Rightarrow>
        (let respBody = take (2 ^ 20) body
         in if status < 200 \<or> status \<ge> 300 then ClientErr (SendStatus status (TrimSpace respBody))
            else case unmarshal_response respBody of
              None \<Rightarrow> ClientErr (SendDecode (TrimSpace respBody))
            | Some out \<Rightarrow>
                if resp_Code out \<noteq> 0 then ClientErr (SendCode (resp_Code out) (resp_Message out)) else ClientOk out))"

definition sendOne :: "(http_request \<Rightarrow> (int \<times> bytes) option) \<Rightarrow> (bytes \<Rightarrow> bool) \<Rightarrow> send_env \<Rightarrow> bytes \<Rightarrow> bytes \<Rightarrow> bytes \<Rightarrow> bytes \<Rightarrow> bytes
    \<Rightarrow> bytes \<Rightarrow> int \<Rightarrow> client_result" where
  "sendOne Do url_ok env url appKey secret project router data seq =
     (case withSequence (se_sentAt env) data seq of
        None \<Rightarrow> ClientPanic
      | Some d \<Rightarrow>
          (case marshal_request \<lparr>req_Project = project, req_Router = router, req_Data = Some d\<rparr> of
             None \<Rightarrow> ClientErr SendMarshal
           | Some body \<Rightarrow>
               if \<not> url_ok url then ClientErr SendNewRequest
               else case Do (build_request env url appKey secret body seq) of
                 None \<Rightarrow> ClientErr SendTransport
               | Some resp \<Rightarrow> read_response resp))"

subsection \<open>The run\<close>

text \<open>
  The main goroutine hands the numbers \<open>0\<close> to \<open>count - 1\<close> to the workers over an unbuffered channel: a number goes over
  when a worker is idle. \<open>cs_busy\<close> holds the numbers being sent; \<open>sent\<close> says whether a number is sent well (no send panics, which would end the program).
\<close>

record client_state =
  cs_next :: nat
  cs_busy :: "nat list"
  cs_ok :: int
  cs_failed :: int

definition client_start :: client_state where
  "client_start = \<lparr>cs_next = 0, cs_busy = [], cs_ok = 0, cs_failed = 0\<rparr>"

definition hand_over :: "nat \<Rightarrow> nat \<Rightarrow> client_state \<Rightarrow> client_state option" where
  "hand_over cnt concurrency s =
     (if cs_next s < cnt \<and> length (cs_busy s) < concurrency
      then Some (s\<lparr>cs_next := Suc (cs_next s), cs_busy := cs_next s # cs_busy s\<rparr>) else None)"

definition finish_one :: "(nat \<Rightarrow> bool) \<Rightarrow> nat \<Rightarrow> client_state \<Rightarrow> client_state option" where
  "finish_one sent seq s =
     (if seq \<in> set (cs_busy s)
      then Some (if sent seq then s\<lparr>cs_busy := remove1 seq (cs_busy s), cs_ok := wrap64 (cs_ok s + 1)\<rparr>
                 else s\<lparr>cs_busy := remove1 seq (cs_busy s), cs_failed := wrap64 (cs_failed s + 1)\<rparr>)
      else None)"

inductive client_step :: "nat \<Rightarrow> nat \<Rightarrow> (nat \<Rightarrow> bool) \<Rightarrow> client_state \<Rightarrow> client_state \<Rightarrow> bool" for cnt concurrency sent where
  hand: "hand_over cnt concurrency s = Some s' \<Longrightarrow> client_step cnt concurrency sent s s'"
| finish: "finish_one sent seq s = Some s' \<Longrightarrow> client_step cnt concurrency sent s s'"

definition client_done :: "nat \<Rightarrow> client_state \<Rightarrow> bool" where
  "client_done cnt s \<longleftrightarrow> cs_next s = cnt \<and> cs_busy s = []"

text \<open>The flags and their defaults, some of them from the environment.\<close>

record client_flags =
  cl_url :: bytes
  cl_appKey :: bytes
  cl_secret :: bytes
  cl_project :: bytes
  cl_router :: bytes
  cl_data :: bytes
  cl_count :: int
  cl_concurrency :: int
  cl_timeout :: duration

definition in_quotes :: "bytes \<Rightarrow> bytes" where
  "in_quotes s = DQ # s @ [DQ]"

definition default_data :: bytes where
  "default_data = ''{'' @ in_quotes ''UID'' @ '':123,'' @ in_quotes ''action'' @ '':'' @ in_quotes ''click'' @ '','' @ in_quotes ''source'' @ '':''
     @ in_quotes ''example-client'' @ ''}''"

definition default_flags :: "(bytes \<Rightarrow> bytes) \<Rightarrow> client_flags" where
  "default_flags getenv =
     \<lparr>cl_url = envOrDefault getenv ''LOGATEWAY_URL'' ''http://127.0.0.1:8080/api/v1/log/upload'',
      cl_appKey = envOrDefault getenv ''LOGATEWAY_APP_KEY'' ''test-app-key'', cl_secret = envOrDefault getenv ''LOGATEWAY_SECRET'' ''test-secret'',
      cl_project = envOrDefault getenv ''LOGATEWAY_PROJECT'' ''actilogs'', cl_router = envOrDefault getenv ''LOGATEWAY_ROUTER'' ''CH=Behavior'',
      cl_data = default_data, cl_count = 1, cl_concurrency = 1, cl_timeout = 5 * Second\<rparr>"

text \<open>Before the workers start: the payload, or the reason to stop.\<close>

datatype client_fatal = BadCount | BadConcurrency | BadData

definition client_main :: "int \<Rightarrow> int \<Rightarrow> bytes \<Rightarrow> client_fatal + bytes" where
  "client_main cnt concurrency data =
     (if cnt \<le> 0 then Inl BadCount
      else if concurrency \<le> 0 then Inl BadConcurrency
      else let rawData = TrimSpace data
           in if parse_json rawData = None then Inl BadData else Inr rawData)"

definition exit_code :: "client_state \<Rightarrow> int" where
  "exit_code s = (if cs_failed s > 0 then 1 else 0)"

subsection \<open>The request arrives\<close>

text \<open>With nothing set, the client signs with the key the gateway knows, and its payload is one message of valid JSON.\<close>

lemma default_flags_work:
  "static_GetSecret gateway_keys (cl_appKey (default_flags (\<lambda>_. []))) = Inr (cl_secret (default_flags (\<lambda>_. [])))"
  "client_main (cl_count (default_flags getenv)) (cl_concurrency (default_flags getenv)) (cl_data (default_flags getenv)) = Inr default_data"
proof -
  have "TrimSpace default_data = default_data" "parse_json default_data \<noteq> None" by code_simp+
  then show "client_main (cl_count (default_flags getenv)) (cl_concurrency (default_flags getenv)) (cl_data (default_flags getenv)) = Inr default_data"
    by (simp add: client_main_def default_flags_def Let_def)
qed (simp add: static_GetSecret_def gateway_keys_def default_flags_def envOrDefault_def)

lemma ParseInt64_format: "in_int64 n \<Longrightarrow> ParseInt64 (format_d n) = Some n"
proof (cases "n < 0")
  case True
  assume "in_int64 n"
  with True show ?thesis by (simp add: format_d_def ParseInt64_def parse_digits_def itoa_digits range64_def)
next
  case False
  assume "in_int64 n"
  with False show ?thesis using ParseInt64_digits [of "itoa (nat n)"] by (simp add: format_d_def itoa_digits)
qed

lemma sign_verifies: "verifyHMAC secret body timestamp nonce (sign secret body timestamp nonce)"
  using verifyHMAC_computeHMAC by (simp add: sign_def computeHMAC_def computeHMACBytes_def)

lemma newNonce_nonempty: "newNonce now seq rand \<noteq> []"
  by (simp add: newNonce_def)

lemma find_request_field:
  "find_field upload_fields ''project'' = Some (str_field (\<lambda>s. req_Project_update (\<lambda>_. s)))"
  "find_field upload_fields ''router'' = Some (str_field (\<lambda>s. req_Router_update (\<lambda>_. s)))"
  "find_field upload_fields ''data'' = Some (raw_field (\<lambda>d. req_Data_update (\<lambda>_. d)))"
  by (simp_all add: find_field_def upload_fields_def)

lemma marshal_request_roundtrip:
  assumes "marshal_request r = Some body" "payload_depth_ok (req_Data r)"
  shows "unmarshal_upload body = Some \<lparr>req_Project = to_valid (req_Project r), req_Router = to_valid (req_Router r),
    req_Data = map_option pr (marshal_raw (req_Data r))\<rparr>"
proof -
  obtain v where v: "marshal_raw (req_Data r) = Some v"
    and b: "body = pr (JObj [(''project'', jstr (req_Project r)), (''router'', jstr (req_Router r)), (''data'', v)])"
    using assms(1) by (auto simp: marshal_request_def)
  have "wf_json (Suc 0) v" using assms(2) v by (simp add: payload_depth_ok_def)
  then show ?thesis
    by (simp add: unmarshal_upload_def b v unmarshal_struct_pr max_depth_def unquote_key find_request_field raw_field_def del: pr.simps)
qed

subsection \<open>The answer arrives\<close>

lemma find_response_field:
  "find_field response_fields ''code'' = Some (int_field (\<lambda>n. resp_Code_update (\<lambda>_. n)))"
  "find_field response_fields ''message'' = Some (str_field (\<lambda>s. resp_Message_update (\<lambda>_. s)))"
  "find_field response_fields ''request_id'' = Some (str_field (\<lambda>s. resp_RequestID_update (\<lambda>_. s)))"
  "find_field response_fields ''trace_id'' = Some (str_field (\<lambda>s. resp_TraceID_update (\<lambda>_. s)))"
  by (simp_all add: find_field_def response_fields_def)

lemma response_key_wf [simp]: "wf_str ''code''" "wf_str ''message''"
  by (rule wf_str_plain_list; auto simp: DQ_def BS_def)+

lemma response_key [simp]: "unquote ''code'' = ''code''" "unquote ''message'' = ''message''"
  by (simp_all add: unquote_ascii BS_def)

lemma unmarshal_response_marshal:
  assumes "in_int64 (resp_Code r)"
  shows "unmarshal_response (marshal_response r) = Some \<lparr>resp_Code = resp_Code r, resp_Message = to_valid (resp_Message r),
    resp_RequestID = to_valid (resp_RequestID r), resp_TraceID = to_valid (resp_TraceID r)\<rparr>"
  using wf_num_int [of "resp_Code r"] ParseInt64_format [OF assms]
  by (auto simp: unmarshal_response_def marshal_response_def unmarshal_struct_pr max_depth_def unquote_key find_response_field int_field_def
      format_d_def [symmetric] simp del: pr.simps)

text \<open>What authentication needs of a store of keys: it knows the secrets of \<open>keys\<close> and lets their owners use every project.\<close>

locale key_store =
  fixes store :: AppKeyStore and keys :: "bytes \<rightharpoonup> bytes"
  assumes knows: "keys appKey = Some secret \<Longrightarrow> ks_GetSecret store appKey = Inr secret"
    and allows: "keys appKey = Some secret \<Longrightarrow> authorizeProject store appKey project"
begin

lemma signed_passes:
  assumes "keys (cx_Header c ''X-App-Key'') = Some secret" "cx_Header c ''X-App-Key'' \<noteq> []" "secret \<noteq> []"
    and "ParseInt64 (cx_Header c ''X-Timestamp'') = Some ts" "abs64 (wrap64 (Unix now - ts)) \<le> au_TimestampWindow cfg"
    and "cx_Header c ''X-Nonce'' \<noteq> []"
    and "cx_Header c ''X-Signature'' = sign secret body (cx_Header c ''X-Timestamp'') (cx_Header c ''X-Nonce'')"
  shows "check_request cfg store now body c = Inr ()"
  using assms knows [OF assms(1)] allows [OF assms(1)] sign_verifies by (simp add: check_request_def Let_def split: option.split)

end

interpretation static_keys: key_store "staticKeyStore keys" keys for keys
  by unfold_locales (simp_all add: staticKeyStore_def static_GetSecret_def authorizeProject_def)

text \<open>
  C39: what the client sends, the gateway takes. If the client's key and secret are the gateway's, the clocks are no further apart than
  the window, and the nonce was not seen before, authentication lets the request pass; and the body decodes to the project and route
  of the command line and to the client's payload in compact form. So both sides agree on the signature, on the text of the timestamp
  and on the JSON of a request.
\<close>

theorem client_accepted:
  assumes "withSequence (se_sentAt e) data seq = Some d" "payload_depth_ok (Some d)"
    and "marshal_request \<lparr>req_Project = project, req_Router = router, req_Data = Some d\<rparr> = Some body"
    and "req = build_request e url appKey secret body seq"
    and "keys appKey = Some secret" "appKey \<noteq> []" "secret \<noteq> []"
    and "au_Enabled cfg" "\<bar>Unix (ae_now env) - Unix (se_now e)\<bar> \<le> au_TimestampWindow cfg" "Unix (se_now e) \<in> {0..<2 ^ 62}"
      "Unix (ae_now env) \<in> {0..<2 ^ 62}"
    and "map_of (mw_nonceCache m) (nonce_key appKey (hr_Header req ''X-Nonce'')) = None"
    and "cx_Header c = hr_Header req" "cx_Keys c ''raw_body'' = Some (VBytes (hr_Body req))"
  shows "fst (Handler cfg (staticKeyStore keys) env m c)
    \<and> unmarshal_upload (hr_Body req) = Some \<lparr>req_Project = to_valid project, req_Router = to_valid router,
        req_Data = map_option pr (marshal_raw (Some d))\<rparr>"
proof
  have body: "hr_Body req = body" by (simp add: assms(4) build_request_def Let_def)
  have t: "in_int64 (Unix (se_now e))" using assms(10) by (simp add: in_int64_def)
  have i: "in_int64 (Unix (ae_now env) - Unix (se_now e))" "in_int64 (Unix (se_now e) - Unix (ae_now env))"
    using assms(10,11) by (simp_all add: in_int64_def)
  then have w: "wrap64 (Unix (ae_now env) - Unix (se_now e)) = Unix (ae_now env) - Unix (se_now e)" by simp
  have a: "abs64 (Unix (ae_now env) - Unix (se_now e)) = \<bar>Unix (ae_now env) - Unix (se_now e)\<bar>"
    using i by (simp add: abs64_def)
  have h: "cx_Header c ''X-App-Key'' = appKey" "cx_Header c ''X-Timestamp'' = format_d (Unix (se_now e))" "cx_Header c ''X-Nonce'' \<noteq> []"
    "cx_Header c ''X-Signature'' = sign secret body (cx_Header c ''X-Timestamp'') (cx_Header c ''X-Nonce'')"
    using newNonce_nonempty by (simp_all add: assms(4,13) build_request_def Let_def)
  have "check_request cfg (staticKeyStore keys) (ae_now env) body c = Inr ()"
    using assms(5-7,9) h w a ParseInt64_format [OF t] by (intro static_keys.signed_passes) auto
  moreover have "map_of (purge_expired t (mw_nonceCache m)) (nonce_key appKey (hr_Header req ''X-Nonce'')) = None" for t
    using assms(12) by (auto simp: purge_expired_def map_of_eq_None_iff)
  moreover have "hr_Header req ''X-App-Key'' = appKey" by (simp add: assms(4) build_request_def Let_def)
  ultimately show "fst (Handler cfg (staticKeyStore keys) env m c)"
    using assms(8,13,14) by (simp add: Handler_def rawBodyFromContext_def body consumeNonce_def Let_def)
  show "unmarshal_upload (hr_Body req) = Some \<lparr>req_Project = to_valid project, req_Router = to_valid router,
      req_Data = map_option pr (marshal_raw (Some d))\<rparr>"
    using marshal_request_roundtrip [OF assms(3)] assms(2) by (simp add: body)
qed

definition sample_sender :: send_env where
  "sample_sender = \<lparr>se_sentAt = zero_time, se_now = 100 * Second, se_nonceAt = 7, se_nonceRand = 1, se_idAt = 8, se_idRand = 2\<rparr>"

definition sample_client_auth :: AuthConfig where
  "sample_client_auth = \<lparr>au_Enabled = True, au_TimestampWindow = 300, au_NonceTTLSeconds = 300, au_NonceCacheSize = 10\<rparr>"

lemma sample_sequence:
  "withSequence zero_time ''[1, 2]'' 0 = Some ''[1, 2]''" "payload_depth_ok (Some ''[1, 2]'')"
  "marshal_request \<lparr>req_Project = ''p'', req_Router = ''r'', req_Data = Some ''[1, 2]''\<rparr> \<noteq> None"
  by code_simp+

theorem client_accepted_witness:
  "\<exists>body req m. marshal_request \<lparr>req_Project = ''p'', req_Router = ''r'', req_Data = Some ''[1, 2]''\<rparr> = Some body
     \<and> req = build_request sample_sender [] ''test-app-key'' ''test-secret'' body 0
     \<and> fst (Handler sample_client_auth (staticKeyStore gateway_keys) (sample_auth_env\<lparr>ae_now := 110 * Second\<rparr>) NewMiddleware
           (ctx_set ''raw_body'' (VBytes (hr_Body req)) (new_ctx ''POST'' [] (hr_Header req) NilBody)))"
proof -
  obtain body where b: "marshal_request \<lparr>req_Project = ''p'', req_Router = ''r'', req_Data = Some ''[1, 2]''\<rparr> = Some body"
    using sample_sequence(3) by blast
  have u: "Unix (100 * Second) = 100" "Unix (110 * Second) = 110" by (simp_all add: Unix_def)
  from client_accepted [where e = sample_sender and data = "''[1, 2]''" and seq = 0 and env = "sample_auth_env\<lparr>ae_now := 110 * Second\<rparr>"
      and m = NewMiddleware and cfg = sample_client_auth, OF _ sample_sequence(2) b refl,
      where keys = gateway_keys and appKey = "''test-app-key''" and secret = "''test-secret''" and url = "[]"]
  show ?thesis using b sample_sequence(1) u
    by (simp add: sample_sender_def sample_client_auth_def gateway_keys_def NewMiddleware_def)
qed

text \<open>The flag \<open>-data null\<close> passes the check of \<open>main\<close> and makes every send panic.\<close>

lemma null_data_panics:
  "client_main 1 1 ''null'' = Inr ''null''" "sendOne Do url_ok env url appKey secret project router ''null'' seq = ClientPanic"
proof -
  have "unmarshal_map ''null'' = Some None" by code_simp
  then show "sendOne Do url_ok env url appKey secret project router ''null'' seq = ClientPanic" by (simp add: sendOne_def withSequence_def)
qed code_simp

subsection \<open>The run ends\<close>

text \<open>Finished numbers: handed over and no longer being sent.\<close>

definition finished :: "client_state \<Rightarrow> nat set" where
  "finished s = {..<cs_next s} - set (cs_busy s)"

definition client_inv :: "nat \<Rightarrow> nat \<Rightarrow> (nat \<Rightarrow> bool) \<Rightarrow> nat \<Rightarrow> client_state \<Rightarrow> bool" where
  "client_inv cnt concurrency sent n s \<longleftrightarrow> cs_next s \<le> cnt \<and> distinct (cs_busy s) \<and> set (cs_busy s) \<subseteq> {..<cs_next s}
     \<and> length (cs_busy s) \<le> concurrency \<and> n = cs_next s + card (finished s)
     \<and> cs_ok s = int (card {i \<in> finished s. sent i}) \<and> cs_failed s = int (card {i \<in> finished s. \<not> sent i})"

lemma card_finished:
  assumes "distinct (cs_busy s)" "set (cs_busy s) \<subseteq> {..<cs_next s}"
  shows "card (finished s) + length (cs_busy s) = cs_next s"
proof -
  have "card (finished s) = cs_next s - length (cs_busy s)" using assms by (simp add: finished_def card_Diff_subset distinct_card)
  moreover have "length (cs_busy s) \<le> cs_next s" using assms card_mono [of "{..<cs_next s}" "set (cs_busy s)"] by (simp add: distinct_card)
  ultimately show ?thesis by simp
qed

lemma card_finished_bound: "card {i \<in> finished s. P i} \<le> cs_next s"
  using card_mono [of "{..<cs_next s}" "{i \<in> finished s. P i}"] by (auto simp: finished_def)

lemma client_step_inv:
  assumes "client_inv cnt concurrency sent n s" "client_step cnt concurrency sent s s'" "cnt < 2 ^ 63"
  shows "client_inv cnt concurrency sent (Suc n) s'"
  using assms(2)
proof (cases rule: client_step.cases)
  case hand
  then have h: "cs_next s < cnt" "length (cs_busy s) < concurrency" and s': "s' = s\<lparr>cs_next := Suc (cs_next s), cs_busy := cs_next s # cs_busy s\<rparr>"
    by (auto simp: hand_over_def split: if_splits)
  have "finished s' = finished s" by (auto simp: finished_def s' less_Suc_eq)
  with h assms(1) show ?thesis by (auto simp: client_inv_def s')
next
  case (finish seq)
  let ?b = "remove1 seq (cs_busy s)"
  have q: "seq \<in> set (cs_busy s)" and s': "s' = (if sent seq then s\<lparr>cs_busy := ?b, cs_ok := wrap64 (cs_ok s + 1)\<rparr>
      else s\<lparr>cs_busy := ?b, cs_failed := wrap64 (cs_failed s + 1)\<rparr>)"
    using finish by (auto simp: finish_one_def split: if_splits)
  have f: "finished s' = insert seq (finished s)" "seq \<notin> finished s" "finite (finished s)"
    using assms(1) q by (auto simp: client_inv_def finished_def s')
  have "{i \<in> insert seq (finished s). P i} = (if P seq then insert seq {i \<in> finished s. P i} else {i \<in> finished s. P i})" for P by auto
  then have c: "card {i \<in> finished s'. P i} = card {i \<in> finished s. P i} + (if P seq then 1 else 0)" for P
    using f by simp
  have "wrap64 (int (card {i \<in> finished s. P i}) + 1) = int (card {i \<in> finished s. P i}) + 1" for P
  proof -
    have "card {i \<in> finished s. P i} < cnt" 
      using card_finished_bound [of s P] assms(1) f c [of P] card_finished_bound [of s' P] q card_finished [of s]
      card_mono [OF f(3), of "{i \<in> finished s. P i}"] by (cases "cs_busy s") (auto simp: client_inv_def)
    with assms(3) show ?thesis by (simp add: in_int64_def)
  qed
  then show ?thesis using assms(1) f c q set_remove1_subset [of seq "cs_busy s"] length_remove1 [of seq "cs_busy s"]
    by (auto simp: client_inv_def s' Let_def)
qed

lemma client_run_inv:
  "(client_step cnt concurrency sent ^^ n) client_start s \<Longrightarrow> cnt < 2 ^ 63 \<Longrightarrow> client_inv cnt concurrency sent n s"
proof (induction n arbitrary: s)
  case 0
  then show ?case by (auto simp: client_inv_def client_start_def finished_def)
next
  case (Suc n)
  then obtain s1 where "(client_step cnt concurrency sent ^^ n) client_start s1" "client_step cnt concurrency sent s1 s" by auto
  with Suc show ?case using client_step_inv by blast
qed

lemma client_not_stuck:
  assumes "client_inv cnt concurrency sent n s" "0 < concurrency" "\<not> client_done cnt s"
  shows "\<exists>s'. client_step cnt concurrency sent s s'"
proof (cases "cs_busy s")
  case Nil
  with assms have "hand_over cnt concurrency s \<noteq> None" by (simp add: hand_over_def client_done_def client_inv_def)
  then show ?thesis using client_step.hand by blast
next
  case (Cons seq b)
  then have "finish_one sent seq s \<noteq> None" by (simp add: finish_one_def)
  then show ?thesis using client_step.finish by blast
qed



end
