(* ===== verification/Spec2Isabelle.thy ===== *)
theory Spec2Isabelle
  imports Wal_Replay_Laws Wal_Close Sink_Health Gateway_Metrics Client
begin

text \<open>
  A verification library for the log gateway: an HTTP service that takes log messages, checks who sent them and how many, rewrites
  them, and hands them to Redis or Kafka through bounded queues, with a write-ahead log for what cannot be delivered at once.

  \<^bold>\<open>The program.\<close> \<open>cmd/gateway\<close> starts the gateway of \<open>internal/server\<close>. A request passes a chain of handlers: request id, metrics,
  request log, global rate limit, body cache, authentication, project resolution, project rate limit, upload. The upload handler
  fills a message from a pool of messages and submits a task to a goroutine pool. The task dispatches the message
  (\<open>internal/project\<close>): it runs the pipeline of the project (\<open>internal/pipeline\<close>), copies the message once per sink, and puts
  the copies into the worker pools of the sinks (\<open>internal/sink\<close>). A pool that is full, or whose circuit breaker is open, drops,
  blocks, or falls back to the write-ahead log (\<open>internal/wal\<close>), whose sealed segments a background loop replays into the pools.
  The configuration (\<open>internal/config\<close>) is reloaded while the gateway runs. \<open>examples/send_message_client.go\<close> is a client.

  \<^bold>\<open>Language and standard library.\<close> \<open>Prelude\<close> has the machine integers of Go (\<open>int\<close> with the wrap-around of \<open>wrap64\<close> written out),
  byte strings, and the lemma collections. \<open>Go_Strings\<close>, \<open>Utf8\<close>, \<open>Float64\<close>, \<open>Gotime\<close>, \<open>Duration\<close> model \<open>strings\<close>, \<open>strconv\<close>, \<open>unicode/utf8\<close>,
  doubles, and \<open>time\<close> as far as the gateway calls them. \<open>Json\<close>, \<open>Decode\<close> and \<open>Dynval\<close> are \<open>encoding/json\<close>: the scanner and the printer on
  byte strings, decoding into structs and into \<open>interface{}\<close>, with the round trips. \<open>Sha256\<close> is SHA-256, HMAC and hex, bit by bit. \<open>Disk\<close>
  is package \<open>os\<close> on one directory, with a list of faults that says which calls fail, and \<open>bufio.Writer\<close>. \<open>Channel\<close> is a buffered channel.
  \<open>Http\<close> is what handlers see of a request.

  \<^bold>\<open>Components.\<close> One group of definitions per source file, in the order of the code and under its names:
  \<^item> \<open>Message\<close> is \<open>message/message.go\<close>. A \<open>*Message\<close> is an address in a heap, \<open>sync.Pool\<close> a list of free addresses; which one
    \<open>Get\<close> returns is an argument. \<open>live\<close> is the set of addresses somebody owns.
  \<^item> \<open>Wal_Entry\<close>, \<open>Wal\<close> and \<open>Wal_Replay\<close> are \<open>wal/wal.go\<close>: the entry and its JSON line; \<open>NewWriter\<close>, \<open>Write\<close>, rotation, purge, sync and
    \<open>Close\<close>; the replay loop and \<open>ReadAll\<close>. An operation maps writer and disk to result, writer and disk.
  \<^item> \<open>Worker\<close> is \<open>sink/worker.go\<close>: \<open>Submit\<close>, \<open>SubmitStrict\<close>, the worker's take and finish, retries, circuit breaker, recovery probe,
    shutdown, and the metrics it records. Interleavings are the step relation \<open>pool_step\<close>.
  \<^item> \<open>Sinks\<close> is \<open>sink/sink.go\<close>, \<open>redis_sink.go\<close> and \<open>kafka_sink.go\<close>: registry, factories, envelope, partition key, the command given to the client.
    \<open>Sink_Health\<close> adds their health checks and closing, with \<open>net.SplitHostPort\<close>.
  \<^item> \<open>Config\<close> is \<open>config/config.go\<close>: the records, \<open>applyDefaults\<close>, \<open>load\<close> with its callbacks, the debounced watch loop.
  \<^item> \<open>Pipeline\<close> is \<open>pipeline/pipeline.go\<close> and \<open>processors.go\<close>.
  \<^item> \<open>Dispatcher\<close> is \<open>project/dispatcher.go\<close>: pools from the configuration, \<open>dispatchImpl\<close> with pipeline and fan-out, replay admission, shutdown.
  \<^item> \<open>Auth\<close> is \<open>auth/auth.go\<close>: \<open>Handler\<close> with all its checks, the nonce cache with any order of map iteration.
  \<^item> \<open>RateLimit\<close> is \<open>ratelimit/ratelimit.go\<close>: limiters by reference, the lookup that locks twice, both middlewares.
  \<^item> \<open>Metrics\<close> is \<open>metrics/metrics.go\<close>: every metric with its kind, labels and range, and the calls that change it as values.
  \<^item> \<open>Observability\<close> is \<open>observability/observability.go\<close>: health checker, endpoints, request metrics, structured log lines.
  \<^item> \<open>Logging\<close> is \<open>logging/filewriter.go\<close> and \<open>logging.go\<close>: daily files, level filter.
  \<^item> \<open>Server\<close> is \<open>server/server.go\<close>, \<open>server/middleware.go\<close> and \<open>cmd/gateway/main.go\<close>: the record \<open>Gateway\<close> of everything above, the route, tasks, start,
    replay callback, stop.
  \<^item> \<open>Client\<close> is \<open>examples/send_message_client.go\<close>.

  \<^bold>\<open>What is shown.\<close> \<open>Wal_Laws\<close> refines the writer to an append to one logical log, for a working disk and under any faults, with
  durability, opening and rotation; \<open>Wal_Close\<close> has what becomes of writes after \<open>Close\<close>. \<open>Wal_Replay_Laws\<close> has the round trip from \<open>Write\<close> to \<open>ReadAll\<close>, and that replay deletes a segment only after it
  was handed over. \<open>Worker_Laws\<close> has the invariant of a pool under every interleaving, that fallback mode loses nothing, and when the circuit
  opens and closes; \<open>Sink_Health\<close> has a pool in front of a Kafka sink, with the steps \<open>kafka_step\<close>. \<open>Dispatcher_Laws\<close> has who owns a message after a dispatch, initialization and the layers of sink configuration.
  \<open>Auth_Laws\<close> has what authentication admits, that nonces are used once, and the bound of the cache. \<open>RateLimit\<close>, \<open>Observability\<close>, \<open>Logging\<close>,
  \<open>Config\<close>, \<open>Pipeline\<close> and \<open>Sinks\<close> hold their lemmas themselves. \<open>Server_Laws\<close> follows a request through the handlers; \<open>Gateway_Laws\<close> puts requests, tasks, workers, probes,
  replay, reports and reloads into one step relation \<open>gw_step\<close> and shows that every message in use has one owner in every reachable state;
  \<open>Gateway_Metrics\<close> shows on the same relation that every metric call is well typed. This theory
  composes the client with the gateway. Several theorems state defects as they are: a line too long to replay, two ways for a circuit to stay open, a
  pipeline error that leaks a message, uploads lost at shutdown, entries written to a closed log.

  \<^bold>\<open>Interfaces.\<close> The locales are \<open>bounded_fifo\<close> (a queue; the channel), \<open>append_log\<close> (what a pool needs of the log; the writer),
  \<open>kept_by_callback\<close> (what a replay needs of its callback; the gateway's) and \<open>key_store\<close> (what authentication needs of a
  store of secrets; the gateway's). Each is interpreted on the model's definitions named here.

  \<^bold>\<open>Bounds.\<close> The JSON reader runs on fuel \<open>2 n + 2\<close> for a text of length \<open>n\<close>, which is shown to suffice for every printed tree. The doubles of the
  channel usage are exact at the watermarks for capacities below \<open>2 ^ 49\<close>. Clock readings are below \<open>2 ^ 62\<close> seconds and lifetimes of nonces
  below \<open>2 ^ 33\<close> seconds, so that products with a second do not overflow. Segment numbers stay below the range of \<open>int\<close>. The client counts
  below \<open>2 ^ 63\<close>.

  \<^bold>\<open>Parameters.\<close> Third-party packages are arguments: the YAML decoder (\<open>load\<close>), the file watcher (its events), the gin engine (a function that runs the
  handlers of a route in order, \<open>serves_in_order\<close>), the token bucket (\<open>limiter_api\<close> with \<open>limiter_laws\<close>), the outcome of a send to Redis or Kafka, what their clients and the network answer to health checks (\<open>sink_env\<close>, with the text \<open>kafka.TCP\<close> makes of the
  brokers as a hypothesis where it matters), the result of
  \<open>Submit\<close> of the goroutine pool, the output of \<open>uuid\<close>. So are clocks, random numbers, the order of map iteration, and what other
  goroutines do while an operation waits.

  \<^bold>\<open>Not modelled.\<close> The network protocols of Redis and Kafka, TLS and HTTP parsing, Prometheus' text page, signals, the parsing of command lines, the profiling
  handlers, and texts of errors that are only logged. In \<open>gw_step\<close> a \<open>Submit\<close> does not wait for room; \<open>pool_step\<close> has the blocked send that wakes up. Data races of the Go memory model are outside the model: an operation under a lock is one step.
\<close>

text \<open>
  C1: a message on its whole way in. A client sends one message to a gateway, and the network carries the request and the
  answer. If the client reports success, the gateway handed exactly one new task to its pool, whose message has the project, the route
  and the payload the client sent, under the client's request id; if it reports an error, the gateway has taken
  nothing. No third outcome is possible.
\<close>

theorem client_to_gateway:
  assumes "heap_ok (gw_heap g)" "clock_ok (cf_Auth (gw_cfg g)) (re_auth env)"
    and "withSequence (se_sentAt e) data seq = Some d" "payload_depth_ok (Some d)"
    and "marshal_request \<lparr>req_Project = project, req_Router = router, req_Data = Some d\<rparr> = Some body"
    and "req = build_request e url appKey secret body seq" "url_ok url"
    and "serve_chain (upload_route api env) (g, new_ctx (hr_Method req) path (hr_Header req) (FullBody (hr_Body req))) = (g', c')"
    and "Do req = Some (cx_Status c', answer_text)" "length answer_text \<le> 2 ^ 20"
    and "\<forall>r. cx_Replies c' = [RUpload r] \<longrightarrow> answer_text = marshal_response r"
  shows "case sendOne Do url_ok e url appKey secret project router data seq of
      ClientOk out \<Rightarrow> (\<exists>m. new_task m g g' \<and> msg_Project m = to_valid project \<and> msg_Router m = to_valid router
        \<and> msg_Data m = map_option pr (marshal_raw (Some d)) \<and> msg_RequestID m = newNonce (se_idAt e) seq (se_idRand e)
        \<and> resp_RequestID out = to_valid (msg_RequestID m))
    | ClientErr _ \<Rightarrow> no_task g g'
    | ClientPanic \<Rightarrow> False"
proof -
  let ?id = "newNonce (se_idAt e) seq (se_idRand e)"
  let ?c = "with_id env (new_ctx (hr_Method req) path (hr_Header req) (FullBody body))"
  have b: "hr_Body req = body" and h: "hr_Header req ''X-Request-Id'' = ?id" by (simp_all add: assms(6) build_request_def Let_def)
  have id: "ctx_string ''request_id'' ?c = ?id" using newNonce_nonempty by (simp add: ctx_string_def h)
  have send: "sendOne Do url_ok e url appKey secret project router data seq = read_response (cx_Status c', answer_text)"
    by (simp add: sendOne_def assms(3,5,7) assms(6) [symmetric] assms(9))
  note up = upload_route_facts [OF serves_in_order_chain assms(1,2,8), unfolded b Let_def, THEN conjunct2]
  show ?thesis
  proof (cases "cx_Status c' = 200")
    case True
    with up obtain r where r: "unmarshal_upload body = Some r" "new_task (sent_message env (gw_cfg g) ?c r) g g'" "cx_Replies c' = [success_reply ?c]"
      by (auto simp: admitted_def)
    have body: "r = \<lparr>req_Project = to_valid project, req_Router = to_valid router, req_Data = map_option pr (marshal_raw (Some d))\<rparr>"
      using r(1) marshal_request_roundtrip [OF assms(5)] assms(4) by simp
    obtain u where u: "success_reply ?c = RUpload u" "resp_Code u = 0" "resp_RequestID u = ?id" by (simp add: success_reply_def id)
    have "read_response (cx_Status c', answer_text) = ClientOk \<lparr>resp_Code = 0, resp_Message = to_valid (resp_Message u),
        resp_RequestID = to_valid ?id, resp_TraceID = to_valid (resp_TraceID u)\<rparr>"
      using True assms(10,11) r(3) u unmarshal_response_marshal [of u] by (simp add: read_response_def in_int64_def)
    with r(2) show ?thesis unfolding send by (auto simp: sent_message_def upload_message_def id body)
  next
    case False
    with up have "no_task g g'" "cx_Status c' \<in> refusal_codes" by auto
    then show ?thesis unfolding send by (auto simp: read_response_def refusal_codes_def)
  qed
qed

definition sample_text :: bytes where
  "sample_text = the (marshal_request \<lparr>req_Project = ''p'', req_Router = ''r'', req_Data = Some ''[1, 2]''\<rparr>)"

lemma sample_text_facts:
  "marshal_request \<lparr>req_Project = ''p'', req_Router = ''r'', req_Data = Some ''[1, 2]''\<rparr> = Some sample_text"
  "peek_project sample_text = Some ''p''" "unmarshal_upload sample_text = Some \<lparr>req_Project = ''p'', req_Router = ''r'', req_Data = Some ''[1,2]''\<rparr>"
  "length sample_text < 100"
  by code_simp+

lemma sample_answer:
  "length (marshal_response \<lparr>resp_Code = 0, resp_Message = ''success'', resp_RequestID = newNonce 8 0 2, resp_TraceID = newNonce 8 0 2\<rparr>) \<le> 2 ^ 20"
  by code_simp

theorem client_to_gateway_witness:
  "\<exists>Do g' out. sendOne Do (\<lambda>_. True) sample_sender [] ''k'' ''s'' ''p'' ''r'' ''[1, 2]'' 0 = ClientOk out
     \<and> (\<exists>m. new_task m sample_gw g' \<and> msg_Project m = to_valid ''p'')"
proof -
  define req where "req = build_request sample_sender [] ''k'' ''s'' sample_text 0"
  let ?x = "new_ctx (hr_Method req) ''/'' (hr_Header req) (FullBody (hr_Body req))"
  have b: "hr_Body req = sample_text" and i: "hr_Header req ''X-Request-Id'' = newNonce 8 0 2" "hr_Header req ''X-Trace-Id'' = newNonce 8 0 2"
    by (simp_all add: req_def build_request_def sample_sender_def Let_def)
  obtain g' c' where R: "serve_chain (upload_route one_limiter sample_request) (sample_gw, ?x) = (g', c')" by fastforce
  have s: "cx_Status c' = 200" using sample_upload [OF refl sample_text_facts(2,3) _ sample_text_facts(4) R [unfolded b]] by simp
  have h: "heap_ok (gw_heap sample_gw)" by (simp add: sample_gw_def heap_ok_empty)
  define u where "u = \<lparr>resp_Code = 0, resp_Message = ''success'', resp_RequestID = newNonce 8 0 2, resp_TraceID = newNonce 8 0 2\<rparr>"
  have "cx_Replies c' = [RUpload u]"
    using upload_route_facts [OF serves_in_order_chain h sample_clock R] s newNonce_nonempty
    by (auto simp: success_reply_def u_def trace_id_def ctx_string_def i Let_def)
  moreover define Do where "Do = (\<lambda>_ :: http_request. Some (cx_Status c', marshal_response u))"
  ultimately have "case sendOne Do (\<lambda>_. True) sample_sender [] ''k'' ''s'' ''p'' ''r'' ''[1, 2]'' 0 of
      ClientOk out \<Rightarrow> (\<exists>m. new_task m sample_gw g' \<and> msg_Project m = to_valid ''p'' \<and> msg_Router m = to_valid ''r''
        \<and> msg_Data m = map_option pr (marshal_raw (Some ''[1, 2]'')) \<and> msg_RequestID m = newNonce (se_idAt sample_sender) 0 (se_idRand sample_sender)
        \<and> resp_RequestID out = to_valid (msg_RequestID m))
    | ClientErr _ \<Rightarrow> no_task sample_gw g' | ClientPanic \<Rightarrow> False"
    using sample_answer sample_sequence
    by (intro client_to_gateway [OF h sample_clock _ _ sample_text_facts(1) req_def _ R, where answer_text = "marshal_response u"])
      (auto simp: Do_def u_def sample_sender_def)
  moreover have "sendOne Do (\<lambda>_. True) sample_sender [] ''k'' ''s'' ''p'' ''r'' ''[1, 2]'' 0
      = ClientOk \<lparr>resp_Code = 0, resp_Message = to_valid ''success'', resp_RequestID = to_valid (newNonce 8 0 2), resp_TraceID = to_valid (newNonce 8 0 2)\<rparr>"
    using sample_sequence(1) sample_answer s unmarshal_response_marshal [of u]
    by (simp add: sendOne_def sample_sender_def sample_text_facts Do_def read_response_def u_def in_int64_def)
  ultimately show ?thesis by auto
qed

end
